(* ===== verification/Prelude.thy ===== *)
theory Prelude
  imports Main "HOL-Library.Word" "HOL-Library.Signed_Division"
begin

text \<open>
  What every component of the development shares: Go's 64-bit signed integers as
  \<open>64 word\<close> with the two operations HOL-Library.Word does not have (truncating division and
  remainder), the no-overflow facts that move a computation on words to \<open>int\<close>, Go strings as
  byte lists with the functions of package \<open>strings\<close> the program calls, and the theorem
  collections the components add their facts to.
\<close>

named_theorems i64_simps \<open>facts that read a 64-bit computation on the integers\<close>
named_theorems store_simps \<open>effect of one operation of a store on a lookup\<close>
named_theorems inv_intros \<open>an operation keeps the invariant of its component\<close>

section \<open>Go integers\<close>

text \<open>Go's \<open>int\<close> and \<open>int64\<close> on a 64-bit platform. Comparisons of the source are the signed
  comparisons \<open><s\<close> and \<open>\<le>s\<close>; addition, subtraction and multiplication wrap.\<close>

type_synonym i64 = "64 word"

abbreviation i64_min :: int where
  "i64_min \<equiv> - (2 ^ 63)"

abbreviation i64_max :: int where
  "i64_max \<equiv> 2 ^ 63 - 1"

text \<open>Go's \<open>/\<close> and \<open>%\<close> truncate towards zero (a zero divisor panics; every divisor of the
  modelled code is a nonzero constant).\<close>

definition go_div :: "i64 \<Rightarrow> i64 \<Rightarrow> i64" where
  "go_div a b = word_of_int (sint a sdiv sint b)"

definition go_mod :: "i64 \<Rightarrow> i64 \<Rightarrow> i64" where
  "go_mod a b = word_of_int (sint a smod sint b)"

lemma sint_i64_range [simp]: "i64_min \<le> sint (a :: i64)" "sint (a :: i64) \<le> i64_max"
  using sint_ge [of a] sint_lt [of a] by simp_all

lemma sint_i64_le: "sint (a :: i64) \<le> i64_max"
  by (rule sint_i64_range)

lemma sint_of_int_i64 [i64_simps]:
  "i64_min \<le> k \<Longrightarrow> k \<le> i64_max \<Longrightarrow> sint (word_of_int k :: i64) = k"
  by (simp add: sint_sbintrunc' signed_take_bit_int_eq_self)

lemma sint_add_i64 [i64_simps]:
  "i64_min \<le> sint a + sint b \<Longrightarrow> sint a + sint b \<le> i64_max \<Longrightarrow> sint (a + b :: i64) = sint a + sint b"
  by (simp add: sint_word_add signed_take_bit_int_eq_self)

lemma sint_sub_i64 [i64_simps]:
  "i64_min \<le> sint a - sint b \<Longrightarrow> sint a - sint b \<le> i64_max \<Longrightarrow> sint (a - b :: i64) = sint a - sint b"
  by (simp add: sint_word_diff signed_take_bit_int_eq_self)

lemma sint_mul_i64 [i64_simps]:
  "i64_min \<le> sint a * sint b \<Longrightarrow> sint a * sint b \<le> i64_max \<Longrightarrow> sint (a * b :: i64) = sint a * sint b"
  by (simp add: sint_word_mult signed_take_bit_int_eq_self)

text \<open>For a non-negative dividend and a positive divisor, truncation is Isabelle's \<open>div\<close> and
  \<open>mod\<close>.\<close>

lemma sdiv_nonneg: "0 \<le> a \<Longrightarrow> 0 < b \<Longrightarrow> (a :: int) sdiv b = a div b"
  by (cases "a = 0") (simp_all add: signed_divide_int_def)

lemma smod_nonneg: "0 \<le> a \<Longrightarrow> 0 < b \<Longrightarrow> (a :: int) smod b = a mod b"
  by (cases "a = 0") (simp_all add: signed_modulo_int_def)

lemma sint_go_div [i64_simps]:
  assumes "0 \<le> sint a" "0 < sint b"
  shows "sint (go_div a b) = sint a div sint b"
proof -
  have "0 \<le> sint a div sint b" "sint a div sint b \<le> sint a"
    using assms zdiv_mono2 [of "sint a" 1 "sint b"] by (simp_all add: pos_imp_zdiv_nonneg_iff)
  moreover note sint_i64_le [of a]
  ultimately show ?thesis
    using assms by (simp add: go_div_def sdiv_nonneg sint_of_int_i64)
qed

lemma sint_go_mod [i64_simps]:
  assumes "0 \<le> sint a" "0 < sint b"
  shows "sint (go_mod a b) = sint a mod sint b"
proof -
  have "0 \<le> sint a mod sint b" "sint a mod sint b \<le> i64_max"
    using assms sint_i64_le [of a] zmod_le_nonneg_dividend [of "sint a" "sint b"]
    by (simp_all del: sint_i64_range)
  then show ?thesis
    unfolding go_mod_def smod_nonneg [OF assms] by (intro sint_of_int_i64) linarith+
qed

lemma sint_eq_iff: "(a :: i64) = b \<longleftrightarrow> sint a = sint b"
  by (metis signed_word_eqI)

lemmas sless_int = word_sless_alt
lemmas sle_int = word_sle_eq

section \<open>Go strings\<close>

text \<open>A Go string is a sequence of bytes: a \<open>char list\<close>, whose \<open>length\<close> is Go's \<open>len\<close>.\<close>

definition HasPrefix :: "string \<Rightarrow> string \<Rightarrow> bool" where
  "HasPrefix s p = (take (length p) s = p)"

definition TrimPrefix :: "string \<Rightarrow> string \<Rightarrow> string" where
  "TrimPrefix s p = (if HasPrefix s p then drop (length p) s else s)"

text \<open>\<open>strings.TrimSpace\<close>: the characters \<open>unicode.IsSpace\<close> accepts, by their UTF-8 bytes. No
  encoding is a suffix of another, so trimming at the end is trimming the reversed text.\<close>

definition space_runes :: "string list" where
  "space_runes = map (map char_of) ([[9], [10], [11], [12], [13], [32], [0xC2, 0x85], [0xC2, 0xA0],
     [0xE1, 0x9A, 0x80], [0xE2, 0x80, 0x80], [0xE2, 0x80, 0x81], [0xE2, 0x80, 0x82], [0xE2, 0x80, 0x83],
     [0xE2, 0x80, 0x84], [0xE2, 0x80, 0x85], [0xE2, 0x80, 0x86], [0xE2, 0x80, 0x87], [0xE2, 0x80, 0x88],
     [0xE2, 0x80, 0x89], [0xE2, 0x80, 0x8A], [0xE2, 0x80, 0xA8], [0xE2, 0x80, 0xA9], [0xE2, 0x80, 0xAF],
     [0xE2, 0x81, 0x9F], [0xE3, 0x80, 0x80]] :: nat list list)"

function trim_prefixes :: "string list \<Rightarrow> string \<Rightarrow> string" where
  "trim_prefixes ps s = (case find (\<lambda>p. p \<noteq> [] \<and> HasPrefix s p) ps of None \<Rightarrow> s
     | Some p \<Rightarrow> trim_prefixes ps (drop (length p) s))"
  by pat_completeness auto

termination
proof (relation "measure (length \<circ> snd)", simp)
  fix ps s p
  assume "find (\<lambda>p. p \<noteq> [] \<and> HasPrefix s p) ps = Some p"
  then have "p \<noteq> []" "take (length p) s = p" by (auto simp: find_Some_iff HasPrefix_def)
  then have "0 < length p" "length p \<le> length s" by (metis length_greater_0_conv) (metis \<open>take (length p) s = p\<close> length_take min.cobounded1)
  then show "((ps, drop (length p) s), ps, s) \<in> measure (length \<circ> snd)" by (cases p) auto
qed

declare trim_prefixes.simps [simp del]

definition TrimSpace :: "string \<Rightarrow> string" where
  "TrimSpace s = rev (trim_prefixes (map rev space_runes) (rev (trim_prefixes space_runes s)))"

lemma trim_prefixes_id:
  assumes "\<And>p. p \<in> set ps \<Longrightarrow> p = [] \<or> hd p \<noteq> c"
  shows "trim_prefixes ps (c # s) = c # s"
proof -
  have "p = [] \<or> \<not> HasPrefix (c # s) p" if "p \<in> set ps" for p
    using assms [OF that] by (cases p) (auto simp: HasPrefix_def)
  then have "find (\<lambda>p. p \<noteq> [] \<and> HasPrefix (c # s) p) ps = None"
    by (auto simp: find_None_iff)
  then show ?thesis by (simp add: trim_prefixes.simps)
qed

lemma trim_prefixes_keeps:
  "c \<notin> \<Union> (set ` set ps) \<Longrightarrow> c \<in> set s \<Longrightarrow> c \<in> set (trim_prefixes ps s)"
proof (induction ps s rule: trim_prefixes.induct)
  case (1 ps s)
  show ?case
  proof (cases "find (\<lambda>p. p \<noteq> [] \<and> HasPrefix s p) ps")
    case (Some p)
    then have "p \<in> set ps" "take (length p) s = p" by (auto simp: find_Some_iff HasPrefix_def)
    then have "c \<in> set (drop (length p) s)"
      using "1.prems" by (metis UN_I append_take_drop_id Un_iff set_append)
    then show ?thesis using "1.IH" [OF Some] "1.prems" Some by (simp add: trim_prefixes.simps [of ps s])
  qed (use "1.prems" in \<open>simp add: trim_prefixes.simps [of ps s]\<close>)
qed

definition visible :: "char \<Rightarrow> bool" where
  "visible c \<longleftrightarrow> 33 \<le> (of_char c :: nat) \<and> (of_char c :: nat) < 128"

lemma visible_space_runes:
  assumes "visible c"
  shows "c \<notin> \<Union> (set ` set space_runes)" "c \<notin> \<Union> (set ` set (map rev space_runes))"
proof -
  have "\<forall>p \<in> set space_runes. \<forall>d \<in> set p. \<not> visible d" unfolding visible_def space_runes_def by simp
  then show "c \<notin> \<Union> (set ` set space_runes)" "c \<notin> \<Union> (set ` set (map rev space_runes))"
    using assms by auto
qed

lemma TrimSpace_visible: "visible c \<Longrightarrow> c \<in> set s \<Longrightarrow> TrimSpace s \<noteq> []"
  using trim_prefixes_keeps [OF visible_space_runes(1), of c s]
    trim_prefixes_keeps [OF visible_space_runes(2), of c "rev (trim_prefixes space_runes s)"]
  by (auto simp: TrimSpace_def)

lemma TrimSpace_id:
  assumes "visible (hd s)" "visible (last s)" "s \<noteq> []"
  shows "TrimSpace s = s"
proof -
  have start: "trim_prefixes ps (c # t) = c # t" if "visible c" "ps = space_runes \<or> ps = map rev space_runes" for ps c t
  proof (rule trim_prefixes_id)
    fix p assume "p \<in> set ps"
    then have "c \<notin> set p" using visible_space_runes [OF \<open>visible c\<close>] that(2) by auto
    then show "p = [] \<or> hd p \<noteq> c" by (cases p) auto
  qed
  from assms(1,3) start have "trim_prefixes space_runes s = s" by (cases s) simp_all
  moreover have "trim_prefixes (map rev space_runes) (rev s) = rev s"
    using assms(2,3) start by (cases s rule: rev_cases) simp_all
  ultimately show ?thesis by (simp add: TrimSpace_def)
qed

lemma TrimSpace_Nil [simp]: "TrimSpace [] = []"
proof -
  have "find (\<lambda>p. p \<noteq> [] \<and> HasPrefix [] p) ps = None" for ps by (simp add: find_None_iff HasPrefix_def)
  then have "trim_prefixes ps [] = []" for ps by (simp add: trim_prefixes.simps)
  then show ?thesis by (simp add: TrimSpace_def)
qed

lemma HasPrefix_append [simp]: "HasPrefix (p @ s) p"
  by (simp add: HasPrefix_def)

lemma TrimPrefix_append [simp]: "TrimPrefix (p @ s) p = s"
  by (simp add: TrimPrefix_def)

lemma HasPrefixE: "HasPrefix s p \<Longrightarrow> \<exists>r. s = p @ r"
  by (metis HasPrefix_def append_take_drop_id)

section \<open>Lists and maps\<close>

lemma filter_update_nth:
  assumes "i < length xs"
  shows "length (filter P (xs[i := y])) + of_bool (P (xs ! i)) =
         length (filter P xs) + of_bool (P y)"
  using assms
proof (induction xs arbitrary: i)
  case (Cons x xs)
  then show ?case by (cases i) auto
qed simp

text \<open>The value of a Go map lookup \<open>m[k]\<close> without the second result: the zero value where the
  key is absent.\<close>

definition lookup_or :: "'v \<Rightarrow> ('k \<Rightarrow> 'v option) \<Rightarrow> 'k \<Rightarrow> 'v" where
  "lookup_or z m k = (case m k of None \<Rightarrow> z | Some v \<Rightarrow> v)"

lemma lookup_or_upd [simp]: "lookup_or z (m(k \<mapsto> v)) = (lookup_or z m)(k := v)"
  by (simp add: lookup_or_def fun_eq_iff)

lemma lookup_or_empty [simp]: "lookup_or z (\<lambda>_. None) k = z"
  by (simp add: lookup_or_def)

lemma lookup_or_Some: "m k = Some v \<Longrightarrow> lookup_or z m k = v"
  by (simp add: lookup_or_def)

end
