(* ===== verification/Killswitch.thy ===== *)
theory Killswitch
  imports Prelude
begin

text \<open>
  \<open>internal/killswitch/killswitch.go\<close>: the global freeze. The interface \<open>Switch\<close> is the locale
  \<open>kill_switch\<close>; \<open>Memory\<close>, one atomic boolean, is the record \<open>ks_memory\<close> and the
  interpretation \<open>ks_mem\<close>. A Go result with an error is a sum: \<open>Inl\<close> the error.
\<close>

record ks_memory =
  ks_frozen :: bool

definition ks_NewMemory :: ks_memory where
  "ks_NewMemory = \<lparr>ks_frozen = False\<rparr>"

definition ks_IsFrozen :: "ks_memory \<Rightarrow> string + bool" where
  "ks_IsFrozen m = Inr (ks_frozen m)"

definition ks_SetFrozen :: "ks_memory \<Rightarrow> bool \<Rightarrow> ks_memory \<times> (string + unit)" where
  "ks_SetFrozen m frozen = (m\<lparr>ks_frozen := frozen\<rparr>, Inr ())"

section \<open>The interface\<close>

text \<open>What a client of \<open>Switch\<close> relies on: a write that reports success is what every later read
  returns, and a write that fails leaves the state readable as before.\<close>

locale kill_switch =
  fixes isFrozen :: "'s \<Rightarrow> string + bool"
    and setFrozen :: "'s \<Rightarrow> bool \<Rightarrow> 's \<times> (string + unit)"
  assumes read_after_write: "setFrozen s b = (s', Inr ()) \<Longrightarrow> isFrozen s' = Inr b"
    and failed_write: "setFrozen s b = (s', Inl e) \<Longrightarrow> isFrozen s' = isFrozen s"
begin

lemma write_result:
  "isFrozen (fst (setFrozen s b)) = (case snd (setFrozen s b) of Inl _ \<Rightarrow> isFrozen s | Inr _ \<Rightarrow> Inr b)"
  by (cases "setFrozen s b") (auto simp: read_after_write failed_write split: sum.split)

lemma last_write_wins:
  "isFrozen (foldl (\<lambda>s b. fst (setFrozen s b)) s (bs @ [b])) =
     (let t = foldl (\<lambda>s b. fst (setFrozen s b)) s bs
      in case snd (setFrozen t b) of Inl _ \<Rightarrow> isFrozen t | Inr _ \<Rightarrow> Inr b)"
  by (simp add: write_result Let_def)

end

interpretation ks_mem: kill_switch ks_IsFrozen ks_SetFrozen
  by unfold_locales (auto simp: ks_IsFrozen_def ks_SetFrozen_def)

lemma ks_set_ok [simp]: "snd (ks_SetFrozen m b) = Inr ()"
  by (simp add: ks_SetFrozen_def)

end
