(* ===== verification/Concurrency.thy ===== *)
theory Concurrency
  imports Prelude
begin

text \<open>
  \<open>internal/concurrency\<close>: the cap on in-flight requests per key. The state of \<open>Memory\<close> is the
  map from key IDs to atomic counters (entries are created by \<open>loadOrCreate\<close> and never removed, so
  a counter and its key determine each other). \<open>conc_Acquire\<close> and \<open>conc_Release\<close> are the two
  operations run without interference; \<open>conc_step\<close> splits them at their atomic accesses
  (the load, \<open>Add(1)\<close>, the compensating \<open>Add(-1)\<close>, the release's \<open>Add(-1)\<close>) and lets any
  number of goroutines interleave. The locale \<open>conc_store\<close> is the interface \<open>Store\<close>.
\<close>

type_synonym conc_memory = "string \<Rightarrow> i64 option"

definition conc_NewMemory :: conc_memory where
  "conc_NewMemory = (\<lambda>_. None)"

definition conc_loadOrCreate :: "conc_memory \<Rightarrow> string \<Rightarrow> conc_memory" where
  "conc_loadOrCreate m keyID = (case m keyID of Some _ \<Rightarrow> m | None \<Rightarrow> m(keyID \<mapsto> 0))"

definition conc_Acquire :: "conc_memory \<Rightarrow> string \<Rightarrow> i64 \<Rightarrow> conc_memory \<times> bool" where
  "conc_Acquire m keyID limit =
     (if limit \<le>s 0 then (m, True)
      else let m = conc_loadOrCreate m keyID; c = lookup_or 0 m keyID + 1; m = m(keyID \<mapsto> c)
           in if limit <s c then (m(keyID \<mapsto> c - 1), False) else (m, True))"

definition conc_Release :: "conc_memory \<Rightarrow> string \<Rightarrow> i64 \<Rightarrow> conc_memory" where
  "conc_Release m keyID limit =
     (if limit \<le>s 0 then m
      else case m keyID of None \<Rightarrow> m | Some c \<Rightarrow> m(keyID \<mapsto> c - 1))"

definition conc_InFlight :: "conc_memory \<Rightarrow> string \<Rightarrow> i64" where
  "conc_InFlight m keyID = (case m keyID of None \<Rightarrow> 0 | Some c \<Rightarrow> c)"

section \<open>The interface\<close>

text \<open>The contract of \<open>Store\<close>: no limit, no effect; a limit admits exactly while fewer than
  \<open>limit\<close> slots are taken; an admitted call takes one slot of its key, a refused one takes none;
  a release after an admission gives the slot back.\<close>

locale conc_store =
  fixes acquire :: "'s \<Rightarrow> string \<Rightarrow> i64 \<Rightarrow> 's \<times> bool"
    and release :: "'s \<Rightarrow> string \<Rightarrow> i64 \<Rightarrow> 's"
    and inFlight :: "'s \<Rightarrow> string \<Rightarrow> i64"
  assumes acquire_unlimited: "l \<le>s 0 \<Longrightarrow> acquire s k l = (s, True)"
    and release_unlimited: "l \<le>s 0 \<Longrightarrow> release s k l = s"
    and acquire_iff: "0 <s l \<Longrightarrow> sint (inFlight s k) < i64_max \<Longrightarrow>
      snd (acquire s k l) \<longleftrightarrow> inFlight s k <s l"
    and acquire_effect: "0 <s l \<Longrightarrow> acquire s k l = (s', b) \<Longrightarrow>
      inFlight s' = (if b then (inFlight s)(k := inFlight s k + 1) else inFlight s)"
    and release_effect: "0 <s l \<Longrightarrow> inFlight s k \<noteq> 0 \<Longrightarrow>
      inFlight (release s k l) = (inFlight s)(k := inFlight s k - 1)"
begin

text \<open>A request that was admitted and then released leaves every counter as it found it, if what ran
  in between did.\<close>

lemma bracket:
  assumes "acquire s k l = (s', True)" "0 \<le> sint (inFlight s k)" "sint (inFlight s k) < i64_max"
    "inFlight t = inFlight s'"
  shows "inFlight (release t k l) = inFlight s"
proof (cases "l \<le>s 0")
  case True
  with assms(1,4) show ?thesis by (simp add: acquire_unlimited release_unlimited)
next
  case False
  then have l: "0 <s l" by (simp add: sless_int sle_int)
  have e: "inFlight s' = (inFlight s)(k := inFlight s k + 1)"
    using acquire_effect [OF l assms(1)] by simp
  have "sint (inFlight s k + 1) = sint (inFlight s k) + 1"
    using assms(2,3) sint_add_i64 [of "inFlight s k" 1] by simp
  then have "inFlight t k \<noteq> 0" using assms(2,4) by (auto simp: e)
  from release_effect [OF l this] show ?thesis by (simp add: e assms(4))
qed

lemma admitted_below_limit:
  assumes "acquire s k l = (s', True)" "0 <s l" "sint (inFlight s k) < i64_max"
  shows "sint (inFlight s' k) \<le> sint l"
proof -
  have "inFlight s k <s l" using acquire_iff [OF assms(2,3)] assms(1) by simp
  moreover have "inFlight s' k = inFlight s k + 1" using acquire_effect [OF assms(2,1)] by simp
  moreover have "sint (inFlight s k + 1) = sint (inFlight s k) + 1"
    using assms(3) sint_add_i64 [of "inFlight s k" 1] sint_i64_range(1) [of "inFlight s k"] by simp
  ultimately show ?thesis by (simp add: sless_int)
qed

end

lemma conc_InFlight_alt: "conc_InFlight m = lookup_or 0 m"
  by (auto simp: conc_InFlight_def lookup_or_def fun_eq_iff)

lemma conc_loadOrCreate_value [simp]: "lookup_or 0 (conc_loadOrCreate m k) = lookup_or 0 m"
  by (auto simp: conc_loadOrCreate_def fun_eq_iff lookup_or_def split: option.split)

lemma conc_not_le_0: "\<not> l \<le>s 0 \<longleftrightarrow> 0 <s (l :: i64)"
  by (simp add: sless_int sle_int not_le)

interpretation conc_mem: conc_store conc_Acquire conc_Release conc_InFlight
proof
  fix s :: conc_memory and k l
  show "l \<le>s 0 \<Longrightarrow> conc_Acquire s k l = (s, True)" by (simp add: conc_Acquire_def)
  show "l \<le>s 0 \<Longrightarrow> conc_Release s k l = s" by (simp add: conc_Release_def)
  assume l: "0 <s l"
  then have nl: "\<not> l \<le>s 0" by (simp add: conc_not_le_0)
  show "snd (conc_Acquire s k l) \<longleftrightarrow> conc_InFlight s k <s l" if "sint (conc_InFlight s k) < i64_max"
  proof -
    have "sint (conc_InFlight s k + 1) = sint (conc_InFlight s k) + 1"
      using that sint_add_i64 [of "conc_InFlight s k" 1] sint_i64_range(1) [of "conc_InFlight s k"]
      by simp
    then show ?thesis
      using nl by (auto simp: conc_Acquire_def Let_def conc_InFlight_alt sless_int)
  qed
  show "conc_InFlight s' = (if b then (conc_InFlight s)(k := conc_InFlight s k + 1) else conc_InFlight s)"
    if "conc_Acquire s k l = (s', b)" for s' b
    using that nl
    by (auto simp: conc_Acquire_def Let_def conc_InFlight_alt split: if_splits)
  show "conc_InFlight (conc_Release s k l) = (conc_InFlight s)(k := conc_InFlight s k - 1)"
    if "conc_InFlight s k \<noteq> 0"
    using that nl
    by (auto simp: conc_Release_def conc_InFlight_alt lookup_or_def [of _ _ k] split: option.splits)
qed

section \<open>Interleaved goroutines\<close>

text \<open>A goroutine serves one request: the key and the limit it read from the virtual key, and
  where it stands. \<open>Loaded\<close> is after \<open>loadOrCreate\<close>, \<open>Undoing\<close> between the \<open>Add(1)\<close> that went
  over the limit and its compensating \<open>Add(-1)\<close>, \<open>Holding\<close> while the request is in flight.\<close>

datatype conc_phase = Start | Loaded | Undoing | Holding | Done

datatype goroutine = Gor (g_key: string) (g_limit: i64) (g_phase: conc_phase)

type_synonym conc_sys = "conc_memory \<times> goroutine list"

inductive conc_step :: "conc_sys \<Rightarrow> conc_sys \<Rightarrow> bool" where
  spawn: "conc_step (m, gs) (m, gs @ [Gor k l Start])"
| unlimited: "i < length gs \<Longrightarrow> gs ! i = Gor k l Start \<Longrightarrow> l \<le>s 0 \<Longrightarrow>
    conc_step (m, gs) (m, gs[i := Gor k l Holding])"
| load: "i < length gs \<Longrightarrow> gs ! i = Gor k l Start \<Longrightarrow> 0 <s l \<Longrightarrow>
    conc_step (m, gs) (conc_loadOrCreate m k, gs[i := Gor k l Loaded])"
| add_ok: "i < length gs \<Longrightarrow> gs ! i = Gor k l Loaded \<Longrightarrow> m k = Some c \<Longrightarrow> \<not> l <s c + 1 \<Longrightarrow>
    conc_step (m, gs) (m(k \<mapsto> c + 1), gs[i := Gor k l Holding])"
| add_over: "i < length gs \<Longrightarrow> gs ! i = Gor k l Loaded \<Longrightarrow> m k = Some c \<Longrightarrow> l <s c + 1 \<Longrightarrow>
    conc_step (m, gs) (m(k \<mapsto> c + 1), gs[i := Gor k l Undoing])"
| undo: "i < length gs \<Longrightarrow> gs ! i = Gor k l Undoing \<Longrightarrow> m k = Some c \<Longrightarrow>
    conc_step (m, gs) (m(k \<mapsto> c - 1), gs[i := Gor k l Done])"
| release_unlimited: "i < length gs \<Longrightarrow> gs ! i = Gor k l Holding \<Longrightarrow> l \<le>s 0 \<Longrightarrow>
    conc_step (m, gs) (m, gs[i := Gor k l Done])"
| release_missing: "i < length gs \<Longrightarrow> gs ! i = Gor k l Holding \<Longrightarrow> 0 <s l \<Longrightarrow> m k = None \<Longrightarrow>
    conc_step (m, gs) (m, gs[i := Gor k l Done])"
| release: "i < length gs \<Longrightarrow> gs ! i = Gor k l Holding \<Longrightarrow> 0 <s l \<Longrightarrow> m k = Some c \<Longrightarrow>
    conc_step (m, gs) (m(k \<mapsto> c - 1), gs[i := Gor k l Done])"

inductive conc_reachable :: "conc_sys \<Rightarrow> bool" where
  init: "conc_reachable (conc_NewMemory, [])"
| step: "conc_reachable s \<Longrightarrow> conc_step s t \<Longrightarrow> conc_reachable t"

text \<open>The goroutines whose \<open>Add(1)\<close> on \<open>k\<close> has not been compensated, and among them those that
  were told they hold a slot.\<close>

fun conc_counted :: "string \<Rightarrow> goroutine \<Rightarrow> bool" where
  "conc_counted k (Gor k' l p) = (k' = k \<and> 0 <s l \<and> (p = Undoing \<or> p = Holding))"

fun conc_holding :: "string \<Rightarrow> goroutine \<Rightarrow> bool" where
  "conc_holding k (Gor k' l p) = (k' = k \<and> 0 <s l \<and> p = Holding)"

definition conc_held :: "string \<Rightarrow> goroutine list \<Rightarrow> nat" where
  "conc_held k gs = length (filter (conc_holding k) gs)"

fun conc_pending :: "string \<Rightarrow> goroutine \<Rightarrow> bool" where
  "conc_pending k (Gor k' l p) = (k' = k \<and> 0 <s l \<and> (p = Loaded \<or> p = Undoing \<or> p = Holding))"

fun conc_inv :: "conc_sys \<Rightarrow> bool" where
  "conc_inv (m, gs) = (\<forall>k. lookup_or 0 m k = of_nat (length (filter (conc_counted k) gs)) \<and>
     (\<forall>g \<in> set gs. conc_pending k g \<longrightarrow> m k \<noteq> None) \<and>
     (\<forall>g \<in> set gs. g_phase g = Loaded \<or> g_phase g = Undoing \<longrightarrow> 0 <s g_limit g))"

lemma set_update_goroutine:
  "g \<in> set (gs[i := x]) \<Longrightarrow> g = x \<or> g \<in> set gs"
  using set_update_subset_insert [of gs i x] by auto

lemma count_update:
  assumes "i < length gs"
  shows "(of_nat (length (filter P (gs[i := x]))) :: i64) =
    of_nat (length (filter P gs)) + of_bool (P x) - of_bool (P (gs ! i))"
  using arg_cong [OF filter_update_nth [OF assms, of P x], of "of_nat :: nat \<Rightarrow> i64"]
  by (simp add: algebra_simps split: if_splits)

lemma conc_inv_update:
  assumes inv: "conc_inv (m, gs)" and i: "i < length gs"
    and val: "\<And>k. lookup_or 0 m' k = lookup_or 0 m k + of_bool (conc_counted k x) - of_bool (conc_counted k (gs ! i))"
    and dom: "\<And>k. m k \<noteq> None \<Longrightarrow> m' k \<noteq> None"
    and pend: "\<And>k. conc_pending k x \<Longrightarrow> m' k \<noteq> None"
    and lim: "g_phase x = Loaded \<or> g_phase x = Undoing \<Longrightarrow> 0 <s g_limit x"
  shows "conc_inv (m', gs[i := x])"
  using inv dom pend lim
  by (auto simp: count_update [OF i] val dest!: set_update_goroutine)

lemma conc_loadOrCreate_None: "conc_loadOrCreate m k k' = None \<longleftrightarrow> m k' = None \<and> k' \<noteq> k"
  by (auto simp: conc_loadOrCreate_def split: option.split)

lemma conc_step_inv: "conc_step s t \<Longrightarrow> conc_inv s \<Longrightarrow> conc_inv t"
proof (induction rule: conc_step.induct)
  case (spawn m gs k l)
  then show ?case by auto
next
  case (unlimited i gs k l m)
  then show ?case by (intro conc_inv_update [of m]) (auto simp: sless_int sle_int)
next
  case (load i gs k l m)
  then show ?case
    by (intro conc_inv_update [of m]) (auto simp: conc_loadOrCreate_None simp del: not_None_eq)
next
  case (add_ok i gs k l m c)
  then have "0 <s l" using nth_mem [of i gs] by fastforce
  with add_ok(1,2,5) add_ok(3) lookup_or_Some [of m k c 0] show ?case
    by (intro conc_inv_update [of m]) auto
next
  case (add_over i gs k l m c)
  then have "0 <s l" using nth_mem [of i gs] by fastforce
  with add_over(1,2,3,5) lookup_or_Some [of m k c 0] show ?case
    by (intro conc_inv_update [of m]) auto
next
  case (undo i gs k l m c)
  then have "0 <s l" using nth_mem [of i gs] by fastforce
  with undo(1,2,3,4) lookup_or_Some [of m k c 0] show ?case
    by (intro conc_inv_update [of m]) auto
next
  case (release_unlimited i gs k l m)
  then show ?case by (intro conc_inv_update [of m]) (auto simp: sless_int sle_int)
next
  case (release_missing i gs k l m)
  then have False using nth_mem [of i gs] by fastforce
  then show ?case ..
next
  case (release i gs k l m c)
  then show ?case using lookup_or_Some [of m k c 0]
    by (intro conc_inv_update [of m]) auto
qed

lemma conc_reachable_inv: "conc_reachable s \<Longrightarrow> conc_inv s"
  by (induction rule: conc_reachable.induct) (auto simp: conc_NewMemory_def intro: conc_step_inv)

section \<open>How many requests are in flight\<close>

definition conc_limits :: "string \<Rightarrow> i64 \<Rightarrow> goroutine list \<Rightarrow> bool" where
  "conc_limits k l gs = (\<forall>g \<in> set gs. g_key g = k \<longrightarrow> g_limit g \<le>s l)"

lemma conc_held_update:
  assumes "i < length gs"
  shows "conc_held k (gs[i := x]) + of_bool (conc_holding k (gs ! i)) = conc_held k gs + of_bool (conc_holding k x)"
  unfolding conc_held_def by (rule filter_update_nth [OF assms])

lemma conc_held_le_counted: "conc_held k gs \<le> length (filter (conc_counted k) gs)"
proof -
  have "conc_holding k g \<Longrightarrow> conc_counted k g" for g by (cases g) auto
  then show ?thesis unfolding conc_held_def by (induction gs) auto
qed

lemma conc_limits_update:
  assumes "conc_limits k l (gs[i := Gor k' l' p])" "i < length gs" "gs ! i = Gor k' l' p'"
  shows "conc_limits k l gs"
  unfolding conc_limits_def
proof (intro ballI impI)
  fix g assume g: "g \<in> set gs" "g_key g = k"
  then obtain j where j: "j < length gs" "g = gs ! j" by (auto simp: in_set_conv_nth)
  have "gs[i := Gor k' l' p] ! j \<in> set (gs[i := Gor k' l' p])" using j by (intro nth_mem) simp
  then show "g_limit g \<le>s l"
    using assms g j unfolding conc_limits_def by (cases "i = j") fastforce+
qed

lemma conc_held_bound_update:
  assumes "\<And>k l. conc_limits k l gs \<Longrightarrow> 0 \<le>s l \<Longrightarrow> int (conc_held k gs) \<le> sint l"
    "i < length gs" "gs ! i = Gor k' l' p" "conc_holding k (Gor k' l' q) \<Longrightarrow> conc_holding k (Gor k' l' p)"
    "conc_limits k l (gs[i := Gor k' l' q])" "0 \<le>s l"
  shows "int (conc_held k (gs[i := Gor k' l' q])) \<le> sint l"
proof -
  have "conc_limits k l gs" by (rule conc_limits_update [OF assms(5,2,3)])
  then have "int (conc_held k gs) \<le> sint l" using assms(1,6) by blast
  then show ?thesis
    using conc_held_update [OF assms(2), of k "Gor k' l' q"] assms(3,4)
    by (cases "conc_holding k (Gor k' l' q)"; cases "conc_holding k (Gor k' l' p)")
      (simp_all del: conc_holding.simps)
qed

lemma conc_step_held:
  assumes "conc_step s t" "conc_inv s"
    "\<And>k l. conc_limits k l (snd s) \<Longrightarrow> 0 \<le>s l \<Longrightarrow> int (conc_held k (snd s)) \<le> sint l"
    "length (snd t) < 2 ^ 63" "conc_limits k l (snd t)" "0 \<le>s l"
  shows "int (conc_held k (snd t)) \<le> sint l"
  using assms
proof (induction rule: conc_step.induct)
  case (spawn m gs k' l')
  then have "conc_limits k l gs" by (auto simp: conc_limits_def)
  with spawn show ?case by (auto simp: conc_held_def)
next
  case (add_ok i gs k' l' m c)
  then have lim: "0 <s l'" using nth_mem [of i gs] by fastforce
  show ?case
  proof (cases "k' = k")
    case False
    then show ?thesis
      unfolding snd_conv using add_ok.hyps add_ok.prems
      by (intro conc_held_bound_update [where p = Loaded]) simp_all
  next
    case True
    let ?gs = "gs[i := Gor k' l' Holding]" and ?n = "length (filter (conc_counted k) (gs[i := Gor k' l' Holding]))"
    have len: "length gs < 2 ^ 63" using add_ok.prems(3) by simp
    have "?n \<le> length gs" using length_filter_le [of "conc_counted k" ?gs] by simp
    then have n: "int ?n \<le> i64_max" using len by simp
    have "c = of_nat (length (filter (conc_counted k) gs))"
      using add_ok.prems(1) True lookup_or_Some [of m k c 0] add_ok.hyps(3) by auto
    then have "c + 1 = of_nat ?n"
      using add_ok.hyps(1,2) lim True by (simp add: count_update)
    then have "sint (c + 1) = int ?n"
      using sint_of_int_i64 [of "int ?n"] n by simp
    moreover have "sint (c + 1) \<le> sint l'" using add_ok.hyps(4) by (simp add: sless_int)
    moreover have "l' \<le>s l"
      using add_ok.prems(4) add_ok.hyps(1) True set_update_memI [of i gs "Gor k' l' Holding"]
      by (auto simp: conc_limits_def)
    ultimately show ?thesis
      using conc_held_le_counted [of k ?gs] by (simp add: sle_int)
  qed
qed (simp_all, (rule conc_held_bound_update; auto simp: sless_int sle_int; fail)+)


lemma conc_held_bound:
  "conc_reachable s \<Longrightarrow> length (snd s) < 2 ^ 63 \<Longrightarrow> conc_limits k l (snd s) \<Longrightarrow> 0 \<le>s l \<Longrightarrow>
    int (conc_held k (snd s)) \<le> sint l"
proof (induction arbitrary: k l rule: conc_reachable.induct)
  case init
  then show ?case by (simp add: conc_held_def sle_int)
next
  case (step s t)
  have "length (snd s) \<le> length (snd t)" using step.hyps(2) by cases auto
  then have len: "length (snd s) < 2 ^ 63" using step.prems(1) by simp
  show ?case
    using conc_step_held [OF step.hyps(2) conc_reachable_inv [OF step.hyps(1)] step.IH [OF len] step.prems] .
qed

lemma conc_demo_reachable:
  "conc_reachable ([''k'' \<mapsto> 2], [Gor ''k'' 1 Holding, Gor ''k'' 1 Undoing])"
proof -
  let ?h = "Gor ''k'' 1 Holding"
  note step = conc_reachable.step
  have "conc_reachable (conc_NewMemory, [Gor ''k'' 1 Start])"
    using step [OF conc_reachable.init spawn [of _ "[]" "''k''" 1]] by simp
  then have "conc_reachable (conc_loadOrCreate conc_NewMemory ''k'', [Gor ''k'' 1 Loaded])"
    by (rule step) (use load [of 0 "[Gor ''k'' 1 Start]" "''k''" 1 conc_NewMemory] in \<open>simp add: sless_int\<close>)
  then have "conc_reachable ([''k'' \<mapsto> 1], [?h])"
    by (rule step) (use add_ok [of 0 "[Gor ''k'' 1 Loaded]" "''k''" 1 "[''k'' \<mapsto> 0]" 0] in
      \<open>simp add: conc_loadOrCreate_def conc_NewMemory_def sless_int\<close>)
  then have "conc_reachable ([''k'' \<mapsto> 1], [?h, Gor ''k'' 1 Start])"
    by (rule step) (use spawn [of "[''k'' \<mapsto> 1]" "[?h]" "''k''" 1] in simp)
  then have "conc_reachable ([''k'' \<mapsto> 1], [?h, Gor ''k'' 1 Loaded])"
    by (rule step) (use load [of 1 "[?h, Gor ''k'' 1 Start]" "''k''" 1 "[''k'' \<mapsto> 1]"] in
      \<open>simp add: conc_loadOrCreate_def sless_int\<close>)
  then show ?thesis
    by (rule step) (use add_over [of 1 "[?h, Gor ''k'' 1 Loaded]" "''k''" 1 "[''k'' \<mapsto> 1]" 1] in
      \<open>simp add: sless_int\<close>)
qed

text \<open>C6: However goroutines interleave their loads, additions and compensations on one counter, the
  requests that hold a slot of a key are never more than the limit (the largest limit any of them
  read, should an update of the key have changed it), as long as fewer than \<open>2 ^ 63\<close> goroutines
  have been started.\<close>

theorem in_flight_never_exceeds_limit:
  assumes "conc_reachable (m, gs)" "length gs < 2 ^ 63" "0 \<le>s l"
    "\<forall>g \<in> set gs. g_key g = k \<longrightarrow> g_limit g \<le>s l"
  shows "int (conc_held k gs) \<le> sint l"
  using conc_held_bound [of "(m, gs)" k l] assms by (simp add: conc_limits_def)

theorem in_flight_never_exceeds_limit_witness:
  "int (conc_held ''k'' [Gor ''k'' 1 Holding, Gor ''k'' 1 Undoing]) \<le> 1"
  using in_flight_never_exceeds_limit [OF conc_demo_reachable, of 1 "''k''"]
  by (simp add: sle_int)

text \<open>No slot leaks: in every reachable state in which no goroutine of a key is between its
  \<open>Add(1)\<close> and the matching \<open>Add(-1)\<close>, refused requests included, \<open>InFlight\<close> of that key is 0.\<close>

theorem idle_key_has_no_slots:
  assumes "conc_reachable (m, gs)" "\<forall>g \<in> set gs. g_key g = k \<longrightarrow> 
      g_phase g = Start \<or> g_phase g = Loaded \<or> g_phase g = Done"
  shows "conc_InFlight m k = 0"
proof -
  have "\<not> conc_counted k g" if "g \<in> set gs" for g
    using assms(2) that by (cases g) auto
  then have "filter (conc_counted k) gs = []" by (simp add: filter_empty_conv)
  then show ?thesis
    using conc_reachable_inv [OF assms(1)] by (simp add: conc_InFlight_alt del: lookup_or_def)
qed

theorem idle_key_has_no_slots_witness:
  "conc_InFlight [''k'' \<mapsto> 2] ''other'' = 0"
  using idle_key_has_no_slots [OF conc_demo_reachable, of "''other''"] by simp

end
