(* ===== verification/Rates.thy ===== *)
theory Rates
  imports Prelude
begin

text \<open>
  \<open>internal/rates\<close>: the per-key limits on requests per second and per minute. A key's state is two
  sliding windows (\<open>keyState\<close>); \<open>Memory\<close> is the map from key IDs to them. The mutex of a key makes
  one \<open>Allow\<close> an atomic step, so a history is a list of calls, each with the clock reading it used.
  The second half states what the two windows are for: a specification that remembers the time of
  every counted request, the refinement of \<open>Allow\<close> to it, and the bounds it gives.
\<close>

record windowCounter =
  windowStart :: i64
  prevCount :: i64
  currCount :: i64

record keyState =
  ks_sec :: windowCounter
  ks_min :: windowCounter

type_synonym rates_memory = "string \<Rightarrow> keyState option"

text \<open>The errors of \<open>Store.Allow\<close>: \<open>ErrRateLimited\<close>, the error that wraps it with a number of
  seconds, and any other error an implementation may return. \<open>is_rate_limited\<close> is
  \<open>errors.Is(err, ErrRateLimited)\<close>.\<close>

datatype rates_error = ErrRateLimited | retryAfterError (seconds: i64) | OtherRatesError string

definition is_rate_limited :: "rates_error \<Rightarrow> bool" where
  "is_rate_limited e = (case e of ErrRateLimited \<Rightarrow> True | retryAfterError _ \<Rightarrow> True | OtherRatesError _ \<Rightarrow> False)"

definition secWindowNS :: i64 where "secWindowNS = 1000000000"
definition minWindowNS :: i64 where "minWindowNS = 60000000000"

definition rates_NewMemory :: rates_memory where
  "rates_NewMemory = (\<lambda>_. None)"

definition new_windowCounter :: windowCounter where
  "new_windowCounter = \<lparr>windowStart = 0, prevCount = 0, currCount = 0\<rparr>"

definition new_keyState :: keyState where
  "new_keyState = \<lparr>ks_sec = new_windowCounter, ks_min = new_windowCounter\<rparr>"

definition newRetryAfterError :: "i64 \<Rightarrow> rates_error" where
  "newRetryAfterError s =
     (let s = (if s <s 1 then 1 else s); s = (if 60 <s s then 60 else s) in retryAfterError s)"

definition RetryAfter :: "rates_error \<Rightarrow> i64 \<times> bool" where
  "RetryAfter e = (case e of retryAfterError s \<Rightarrow> (s, True) | _ \<Rightarrow> (0, False))"

text \<open>\<open>estimateCount\<close> updates the window it is given a pointer to: the updated window is the first
  component of the result.\<close>

definition estimateCount :: "windowCounter \<Rightarrow> i64 \<Rightarrow> i64 \<Rightarrow> windowCounter \<times> i64" where
  "estimateCount w now windowNS =
     (let elapsed = now - windowStart w;
          w = (if windowNS \<le>s elapsed then
                 let windows = go_div elapsed windowNS
                 in w\<lparr>prevCount := (if windows = 1 then currCount w else 0), currCount := 0,
                      windowStart := now - go_mod elapsed windowNS\<rparr>
               else w);
          elapsed = now - windowStart w
      in (w, go_div (prevCount w * (windowNS - elapsed)) windowNS + currCount w))"

text \<open>The body of one of the two checks of \<open>Allow\<close>: the advanced window, and the error when the
  estimate leaves no room.\<close>

definition rates_check :: "windowCounter \<Rightarrow> i64 \<Rightarrow> i64 \<Rightarrow> i64 \<Rightarrow> windowCounter \<times> rates_error option" where
  "rates_check w now windowNS limit =
     (let (w, est) = estimateCount w now windowNS
      in if limit <s est + 1 then
           let remaining = windowNS - (now - windowStart w);
               retryS = go_div remaining secWindowNS + 1
           in (w, Some (newRetryAfterError retryS))
         else (w, None))"

definition incr :: "windowCounter \<Rightarrow> windowCounter" where
  "incr w = w\<lparr>currCount := currCount w + 1\<rparr>"

definition Allow :: "rates_memory \<Rightarrow> i64 \<Rightarrow> string \<Rightarrow> i64 \<Rightarrow> i64 \<Rightarrow> rates_memory \<times> rates_error option" where
  "Allow m now keyID rpsLimit rpmLimit =
     (if rpsLimit \<le>s 0 \<and> rpmLimit \<le>s 0 then (m, None)
      else
        let ks = lookup_or new_keyState m keyID;
            (sec, e1) = (if 0 <s rpsLimit then rates_check (ks_sec ks) now secWindowNS rpsLimit
                         else (ks_sec ks, None));
            ks = ks\<lparr>ks_sec := sec\<rparr>
        in case e1 of Some e \<Rightarrow> (m(keyID \<mapsto> ks), Some e)
           | None \<Rightarrow>
             let (mn, e2) = (if 0 <s rpmLimit then rates_check (ks_min ks) now minWindowNS rpmLimit
                              else (ks_min ks, None));
                 ks = ks\<lparr>ks_min := mn\<rparr>
             in case e2 of Some e \<Rightarrow> (m(keyID \<mapsto> ks), Some e)
                | None \<Rightarrow>
                  let ks = (if 0 <s rpsLimit then ks\<lparr>ks_sec := incr (ks_sec ks)\<rparr> else ks);
                      ks = (if 0 <s rpmLimit then ks\<lparr>ks_min := incr (ks_min ks)\<rparr> else ks)
                  in (m(keyID \<mapsto> ks), None))"

section \<open>The interface\<close>

locale rates_store =
  fixes allow :: "'s \<Rightarrow> i64 \<Rightarrow> string \<Rightarrow> i64 \<Rightarrow> i64 \<Rightarrow> 's \<times> rates_error option"
  assumes allow_unlimited: "rps \<le>s 0 \<Longrightarrow> rpm \<le>s 0 \<Longrightarrow> allow s now k rps rpm = (s, None)"
    and allow_refused: "allow s now k rps rpm = (s', Some e) \<Longrightarrow> is_rate_limited e \<and> snd (RetryAfter e)"
    and allow_retry: "allow s now k rps rpm = (s', Some e) \<Longrightarrow> 1 \<le> sint (fst (RetryAfter e)) \<and> sint (fst (RetryAfter e)) \<le> 60"
begin

text \<open>What the proxy relies on: a refusal always carries a usable \<open>Retry-After\<close>, and only a key
  with a limit can be refused.\<close>

lemma refused_has_limit_and_retry:
  assumes "allow s now k rps rpm = (s', Some e)"
  obtains n where "is_rate_limited e" "RetryAfter e = (n, True)" "1 \<le> sint n" "sint n \<le> 60" "0 <s rps \<or> 0 <s rpm"
proof -
  have "0 <s rps \<or> 0 <s rpm"
    using allow_unlimited [of rps rpm s now k] assms
    by (cases "rps \<le>s 0"; cases "rpm \<le>s 0") (auto simp: sless_int sle_int)
  with that [of "fst (RetryAfter e)"] allow_refused [OF assms] allow_retry [OF assms]
  show ?thesis by (cases "RetryAfter e") auto
qed

end

lemma RetryAfter_new:
  "RetryAfter (newRetryAfterError s) = (word_of_int (max 1 (min 60 (sint s))), True)"
proof -
  have "(if s <s 1 then 1 else if 60 <s s then 60 else s) = word_of_int (max 1 (min 60 (sint s)))"
    by (auto simp: sless_int)
  then show ?thesis by (auto simp: newRetryAfterError_def RetryAfter_def Let_def sless_int)
qed

lemma rates_check_error:
  "rates_check w now W l = (w', Some e) \<Longrightarrow> \<exists>s. e = newRetryAfterError s"
  by (auto simp: rates_check_def Let_def split: prod.splits if_splits)

lemma Allow_error: "Allow m now k rps rpm = (m', Some e) \<Longrightarrow> \<exists>s. e = newRetryAfterError s"
  by (auto simp: Allow_def Let_def split: if_splits prod.splits option.splits dest: rates_check_error)

interpretation rates_mem: rates_store Allow
proof
  fix s s' now k rps rpm e
  show "rps \<le>s 0 \<Longrightarrow> rpm \<le>s 0 \<Longrightarrow> Allow s now k rps rpm = (s, None)" by (simp add: Allow_def)
  assume "Allow s now k rps rpm = (s', Some e)"
  then obtain n where e: "e = newRetryAfterError n" using Allow_error by blast
  show "is_rate_limited e \<and> snd (RetryAfter e)"
    by (simp add: e RetryAfter_new) (simp add: newRetryAfterError_def is_rate_limited_def Let_def)
  show "1 \<le> sint (fst (RetryAfter e)) \<and> sint (fst (RetryAfter e)) \<le> 60"
    by (simp add: e RetryAfter_new sint_of_int_i64 max_def min_def)
qed

section \<open>What the windows compute\<close>

text \<open>The specification keeps, per key, the times of the admitted requests that counted against
  the per-second and the per-minute limit. The estimate of a window of length \<open>W\<close> at time \<open>now\<close>
  weighs the requests of the previous aligned window by the part of it the sliding window still
  covers, and adds those of the current one.\<close>

definition count_in :: "int list \<Rightarrow> int \<Rightarrow> int \<Rightarrow> int" where
  "count_in adm a b = int (length (filter (\<lambda>t. a \<le> t \<and> t < b) adm))"

definition spec_estimate :: "int \<Rightarrow> int list \<Rightarrow> int \<Rightarrow> int" where
  "spec_estimate W adm now =
     (let ws = now - now mod W
      in count_in adm (ws - W) ws * (W - now mod W) div W + count_in adm ws (ws + W))"

type_synonym spec_state = "string \<Rightarrow> int list \<times> int list"

definition spec_Allow :: "spec_state \<Rightarrow> int \<Rightarrow> string \<Rightarrow> int \<Rightarrow> int \<Rightarrow> spec_state \<times> bool" where
  "spec_Allow st now k rps rpm =
     (if 0 < rps \<and> rps < spec_estimate 1000000000 (fst (st k)) now + 1 then (st, False)
      else if 0 < rpm \<and> rpm < spec_estimate 60000000000 (snd (st k)) now + 1 then (st, False)
      else (st(k := (if 0 < rps then fst (st k) @ [now] else fst (st k),
                     if 0 < rpm then snd (st k) @ [now] else snd (st k))), True))"

text \<open>A window and the requests it has counted.\<close>

definition wc_rel :: "int \<Rightarrow> windowCounter \<Rightarrow> int list \<Rightarrow> int \<Rightarrow> bool" where
  "wc_rel W w adm t \<longleftrightarrow>
     0 \<le> sint (windowStart w) \<and> sint (windowStart w) mod W = 0 \<and> sint (windowStart w) \<le> t \<and>
     (\<forall>a \<in> set adm. a < sint (windowStart w) + W) \<and>
     sint (currCount w) = count_in adm (sint (windowStart w)) (sint (windowStart w) + W) \<and>
     sint (prevCount w) = count_in adm (sint (windowStart w) - W) (sint (windowStart w))"

definition aligned_le :: "int \<Rightarrow> int list \<Rightarrow> int \<Rightarrow> bool" where
  "aligned_le W adm L \<longleftrightarrow> (\<forall>j. count_in adm (j * W) (j * W + W) \<le> L)"

lemma count_in_nonneg [simp]: "0 \<le> count_in adm a b"
  by (simp add: count_in_def)

lemma count_in_snoc [simp]:
  "count_in (adm @ [t]) a b = count_in adm a b + of_bool (a \<le> t \<and> t < b)"
  by (simp add: count_in_def)

lemma count_in_0: "\<forall>t \<in> set adm. t < a \<Longrightarrow> count_in adm a b = 0"
  by (force simp: count_in_def filter_empty_conv)

lemma count_in_Nil [simp]: "count_in [] a b = 0"
  by (simp add: count_in_def)

lemma aligned_leD: "aligned_le W adm L \<Longrightarrow> a mod W = 0 \<Longrightarrow> count_in adm a (a + W) \<le> L"
  unfolding aligned_le_def by (metis div_mult_mod_eq add_0_right)

lemma window_elapsed:
  assumes "(ws :: int) mod W = 0"
  shows "(now - ws) mod W = now mod W"
proof -
  have "(now - ws mod W) mod W = (now - ws) mod W" by (rule mod_diff_right_eq)
  then show ?thesis using assms by simp
qed

lemma window_same:
  assumes "(ws :: int) mod W = 0" "ws \<le> now" "now < ws + W"
  shows "now mod W = now - ws"
  using window_elapsed [OF assms(1), of now] assms(2,3) by simp

lemma scaled_le:
  assumes "0 \<le> (p :: int)" "p \<le> L" "0 \<le> r" "r \<le> W"
  shows "0 \<le> p * r" "p * r \<le> L * W"
  using assms mult_mono [of p L r W] by auto

text \<open>Advancing the window, read on the integers.\<close>

definition advance :: "windowCounter \<Rightarrow> i64 \<Rightarrow> i64 \<Rightarrow> windowCounter" where
  "advance w now W64 = fst (estimateCount w now W64)"

lemma advance_keep: "\<not> W64 \<le>s now - windowStart w \<Longrightarrow> advance w now W64 = w"
  by (simp add: advance_def estimateCount_def Let_def)

lemma advance_move:
  assumes "W64 \<le>s now - windowStart w" "0 < sint W64" "0 \<le> sint now" "0 \<le> sint (windowStart w)"
    "sint (windowStart w) \<le> sint now" "sint (windowStart w) mod sint W64 = 0"
  shows "sint (windowStart (advance w now W64)) = sint now - sint now mod sint W64"
    "currCount (advance w now W64) = 0"
    "prevCount (advance w now W64) =
      (if (sint now - sint (windowStart w)) div sint W64 = 1 then currCount w else 0)"
proof -
  have el: "sint (now - windowStart w) = sint now - sint (windowStart w)"
    using assms(3-5) sint_i64_le [of now] by (intro sint_sub_i64) auto
  have m: "sint (go_mod (now - windowStart w) W64) = sint now mod sint W64"
    using assms el by (simp add: sint_go_mod window_elapsed)
  have r: "0 \<le> sint now mod sint W64" "sint now mod sint W64 \<le> sint now"
    using assms(2,3) by (simp_all add: zmod_le_nonneg_dividend)
  have "sint (now - go_mod (now - windowStart w) W64) = sint now - sint now mod sint W64"
    using r sint_i64_le [of now] by (subst sint_sub_i64) (auto simp: m)
  moreover have "go_div (now - windowStart w) W64 = 1 \<longleftrightarrow>
      (sint now - sint (windowStart w)) div sint W64 = 1"
    using assms el by (simp add: sint_go_div sint_eq_iff)
  ultimately show "sint (windowStart (advance w now W64)) = sint now - sint now mod sint W64"
    "currCount (advance w now W64) = 0"
    "prevCount (advance w now W64) =
      (if (sint now - sint (windowStart w)) div sint W64 = 1 then currCount w else 0)"
    using assms(1) by (simp_all add: advance_def estimateCount_def Let_def)
qed

lemma advance_rel:
  assumes rel: "wc_rel W w adm t" and t: "t \<le> sint now" and W: "sint W64 = W" "1 < W"
  shows "wc_rel W (advance w now W64) adm (sint now) \<and>
    sint (windowStart (advance w now W64)) = sint now - sint now mod W"
proof -
  define ws n where "ws = sint (windowStart w)" and "n = sint now"
  have ws: "0 \<le> ws" "ws mod W = 0" "ws \<le> n" using rel t by (auto simp: wc_rel_def ws_def n_def)
  have el: "sint (now - windowStart w) = n - ws"
    using ws sint_i64_le [of now] by (subst sint_sub_i64) (auto simp: n_def [symmetric] ws_def [symmetric])
  show ?thesis
  proof (cases "n - ws < W")
    case True
    then have "advance w now W64 = w" using el W(1) by (intro advance_keep) (simp add: sle_int)
    with rel True ws window_same [of ws W n] show ?thesis
      by (auto simp: wc_rel_def ws_def [symmetric] n_def [symmetric])
  next
    case False
    define ws' where "ws' = n - n mod W"
    define q where "q = (n - ws) div W"
    have "n - ws = q * W + n mod W" using window_elapsed [OF ws(2), of n] div_mult_mod_eq [of "n - ws" W] by (simp add: q_def)
    then have ws': "ws' = ws + q * W" by (simp add: ws'_def)
    have q: "1 \<le> q" using False W(2) zdiv_mono1 [of W "n - ws" W] by (simp add: q_def)
    have mv: "W64 \<le>s now - windowStart w" using False el W(1) by (simp add: sle_int)
    note adv = advance_move [OF mv, unfolded W(1) n_def [symmetric] ws_def [symmetric] q_def [symmetric]]
    have "W \<le> q * W" using q W(2) by simp
    then have lt: "\<forall>a \<in> set adm. a < ws'" using rel by (auto simp: wc_rel_def ws' ws_def)
    have sw: "sint (windowStart (advance w now W64)) = ws'"
      using adv(1) ws W(2) by (simp add: ws'_def)
    have prev: "sint (prevCount (advance w now W64)) = count_in adm (ws' - W) ws'"
    proof (cases "q = 1")
      case True
      then show ?thesis
        using adv(3) ws W(2) rel by (auto simp: wc_rel_def ws' ws_def)
    next
      case False
      then have "2 * W \<le> q * W" using q W(2) by simp
      then have "\<forall>a \<in> set adm. a < ws' - W" using rel by (auto simp: wc_rel_def ws' ws_def)
      then show ?thesis using adv(3) ws W(2) False by (simp add: count_in_0)
    qed
    have "0 \<le> ws'" using ws(1) W(2) \<open>W \<le> q * W\<close> unfolding ws' by linarith
    moreover have "ws' \<le> n" using W(2) by (simp add: ws'_def)
    moreover have "ws' mod W = 0" by (simp add: ws'_def minus_mod_eq_mult_div)
    ultimately show ?thesis
      using lt sw prev adv(2) ws W(2) count_in_0 [OF lt]
      by (auto simp: wc_rel_def n_def [symmetric] ws'_def [symmetric])
  qed
qed

lemma estimateCount_spec:
  assumes rel: "wc_rel W w adm t" and t: "t \<le> sint now"
    and W: "sint W64 = W" "1 < W"
    and L: "aligned_le W adm L" "L * W + L + 1 \<le> i64_max"
    and est: "estimateCount w now W64 = (w', est)"
  shows "wc_rel W w' adm (sint now)" "sint (windowStart w') = sint now - sint now mod W"
    "sint est = spec_estimate W adm (sint now)" "0 \<le> sint est" "sint est < i64_max"
proof -
  have w': "w' = advance w now W64" using est by (simp add: advance_def)
  then show rel': "wc_rel W w' adm (sint now)" and
    ws: "sint (windowStart w') = sint now - sint now mod W"
    using advance_rel [OF rel t W] by simp_all
  define r where "r = sint now mod W"
  have r: "0 \<le> r" "r < W" using W(2) by (simp_all add: r_def)
  have "sint (now - windowStart w') = r"
    using r ws W(2) sint_i64_le [of W64] by (subst sint_sub_i64) (auto simp: r_def [symmetric] W(1))
  then have rest: "sint (W64 - (now - windowStart w')) = W - r"
    using r sint_i64_le [of W64] by (subst sint_sub_i64) (auto simp: W(1))
  define p c where "p = sint (prevCount w')" and "c = sint (currCount w')"
  have mods: "sint (windowStart w') mod W = 0" "(sint (windowStart w') - W) mod W = 0"
    using rel' by (simp_all add: wc_rel_def)
  have p: "0 \<le> p" "p \<le> L" "p = count_in adm (sint (windowStart w') - W) (sint (windowStart w'))"
    using rel' aligned_leD [OF L(1) mods(2)] by (auto simp: wc_rel_def p_def)
  have c: "0 \<le> c" "c \<le> L" "c = count_in adm (sint (windowStart w')) (sint (windowStart w') + W)"
    using rel' aligned_leD [OF L(1) mods(1)] by (auto simp: wc_rel_def c_def)
  have pr: "0 \<le> p * (W - r)" "p * (W - r) \<le> L * W"
    using scaled_le [of p L "W - r" W] p(1,2) r by simp_all
  have prod: "sint (prevCount w' * (W64 - (now - windowStart w'))) = p * (W - r)"
    using pr L(2) c(1,2) by (subst sint_mul_i64) (auto simp: rest p_def [symmetric])
  have quot: "sint (go_div (prevCount w' * (W64 - (now - windowStart w'))) W64) = p * (W - r) div W"
    using pr(1) W(2) by (simp add: sint_go_div prod W(1))
  define q where "q = p * (W - r) div W"
  have q: "0 \<le> q" "q \<le> L * W"
    using pr W(2) zdiv_mono2 [of "p * (W - r)" 1 W] by (auto simp: q_def pos_imp_zdiv_nonneg_iff)
  have "est = go_div (prevCount w' * (W64 - (now - windowStart w'))) W64 + currCount w'"
    using est by (auto simp: estimateCount_def Let_def)
  then have est': "sint est = q + c"
    using q c(1,2) L(2) by (simp add: sint_add_i64 quot q_def [symmetric] c_def [symmetric])
  then show "sint est = spec_estimate W adm (sint now)"
    using p(3) c(3) ws by (simp add: spec_estimate_def q_def r_def Let_def)
  show "0 \<le> sint est" "sint est < i64_max" using est' q c L(2) by simp_all
qed

lemma spec_estimate_ge: "0 < W \<Longrightarrow> count_in adm (now - now mod W) (now - now mod W + W) \<le> spec_estimate W adm now"
  using pos_mod_bound [of W now]
  by (simp add: spec_estimate_def Let_def pos_imp_zdiv_nonneg_iff mult_nonneg_nonneg order_less_imp_le)

text \<open>Admitting a request whose estimate leaves room keeps every aligned window within the bound.\<close>

lemma aligned_le_admit:
  assumes "aligned_le W adm L" "0 < W" "spec_estimate W adm now + 1 \<le> L"
  shows "aligned_le W (adm @ [now]) L"
proof -
  have "count_in adm (j * W) (j * W + W) + 1 \<le> L" if "j * W \<le> now" "now < j * W + W" for j
  proof -
    have "now - now mod W = j * W" using window_same [of "j * W" W now] that by simp
    then show ?thesis using spec_estimate_ge [of W adm now] assms(2,3) by simp
  qed
  then show ?thesis using assms(1) by (auto simp: aligned_le_def)
qed

lemma aligned_le_mono: "aligned_le W adm L \<Longrightarrow> L \<le> L' \<Longrightarrow> aligned_le W adm L'"
  by (meson aligned_le_def order_trans)

text \<open>Any interval of length \<open>W\<close> meets at most two aligned windows.\<close>

lemma count_in_append: "count_in adm a b \<le> count_in adm a c + count_in adm c b"
  unfolding count_in_def by (induction adm) auto

lemma count_in_mono: "a' \<le> a \<Longrightarrow> b \<le> b' \<Longrightarrow> count_in adm a b \<le> count_in adm a' b'"
  unfolding count_in_def by (induction adm) auto

lemma sliding_le:
  assumes "aligned_le W adm L" "0 < W"
  shows "count_in adm a (a + W) \<le> 2 * L"
proof -
  define j where "j = a div W"
  have j: "j * W \<le> a" "a < j * W + W"
    using div_mult_mod_eq [of a W] pos_mod_sign [OF assms(2), of a] pos_mod_bound [OF assms(2), of a]
    unfolding j_def by linarith+
  have "count_in adm a (a + W) \<le> count_in adm a (j * W + W) + count_in adm (j * W + W) (a + W)"
    by (rule count_in_append)
  also have "count_in adm a (j * W + W) \<le> count_in adm (j * W) (j * W + W)"
    using j by (intro count_in_mono) auto
  also have "count_in adm (j * W + W) (a + W) \<le> count_in adm ((j + 1) * W) ((j + 1) * W + W)"
    using j by (intro count_in_mono) (auto simp: algebra_simps)
  also have "count_in adm (j * W) (j * W + W) \<le> L" using assms(1) by (simp add: aligned_le_def)
  also have "count_in adm ((j + 1) * W) ((j + 1) * W + W) \<le> L"
    using assms(1) unfolding aligned_le_def by blast
  finally show ?thesis by simp
qed

lemma wc_rel_later: "wc_rel W w adm t \<Longrightarrow> t \<le> t' \<Longrightarrow> wc_rel W w adm t'"
  by (auto simp: wc_rel_def)

lemma wc_rel_new: "0 \<le> t \<Longrightarrow> 0 < W \<Longrightarrow> wc_rel W new_windowCounter [] t"
  by (simp add: wc_rel_def new_windowCounter_def)

lemma wc_rel_incr:
  assumes "wc_rel W w adm n" "sint (windowStart w) = n - n mod W" "0 < W" "sint (currCount w) < i64_max"
  shows "wc_rel W (incr w) (adm @ [n]) n"
proof -
  have "sint (currCount w + 1) = sint (currCount w) + 1"
    using assms(4) sint_i64_range(1) [of "currCount w"] by (subst sint_add_i64) auto
  moreover define ws where "ws = n - n mod W"
  moreover have "n < ws + W" "ws \<le> n"
    using pos_mod_bound [OF assms(3), of n] pos_mod_sign [OF assms(3), of n]
    unfolding ws_def by linarith+
  ultimately show ?thesis
    using assms unfolding ws_def [symmetric] by (auto simp: wc_rel_def incr_def)
qed

text \<open>One check of \<open>Allow\<close> decides as the specification does and keeps the window related.\<close>

lemma rates_check_spec:
  assumes rel: "wc_rel W w adm t" and t: "t \<le> sint now"
    and W: "sint W64 = W" "1 < W"
    and L: "aligned_le W adm L" "L * W + L + 1 \<le> i64_max"
    and chk: "rates_check w now W64 limit = (w', e)"
  shows "wc_rel W w' adm (sint now)"
    "e = None \<longleftrightarrow> \<not> sint limit < spec_estimate W adm (sint now) + 1"
    "e = None \<Longrightarrow> wc_rel W (incr w') (adm @ [sint now]) (sint now)"
proof -
  obtain est where est: "estimateCount w now W64 = (w', est)"
    using chk by (auto simp: rates_check_def Let_def split: prod.splits if_splits)
  note sp = estimateCount_spec [OF rel t W L est]
  have "sint (est + 1) = sint est + 1" using sp(4,5) by (subst sint_add_i64) auto
  then show e: "e = None \<longleftrightarrow> \<not> sint limit < spec_estimate W adm (sint now) + 1"
    using chk est sp(3) by (auto simp: rates_check_def Let_def sless_int split: if_splits)
  show "wc_rel W w' adm (sint now)" by (rule sp(1))
  assume "e = None"
  have "sint (currCount w') \<le> L"
    using sp(1) aligned_leD [OF L(1), of "sint (windowStart w')"] by (auto simp: wc_rel_def)
  moreover have "0 \<le> L" using sp(1) \<open>_ \<le> L\<close> count_in_nonneg by (metis wc_rel_def order_trans)
  then have "0 \<le> L * W" using W(2) by simp
  ultimately have "sint (currCount w') < i64_max" using L(2) by linarith
  then show "wc_rel W (incr w') (adm @ [sint now]) (sint now)"
    using wc_rel_incr [OF sp(1,2)] W(2) by simp
qed

section \<open>Refinement\<close>

text \<open>Limits for which no product in \<open>estimateCount\<close> leaves 64 bits.\<close>

abbreviation "max_rps \<equiv> (9000000000 :: int)"
abbreviation "max_rpm \<equiv> (150000000 :: int)"

definition rates_rel :: "rates_memory \<Rightarrow> spec_state \<Rightarrow> int \<Rightarrow> bool" where
  "rates_rel m st t \<longleftrightarrow> 0 \<le> t \<and> (\<forall>k.
     wc_rel 1000000000 (ks_sec (lookup_or new_keyState m k)) (fst (st k)) t \<and>
     aligned_le 1000000000 (fst (st k)) max_rps \<and>
     wc_rel 60000000000 (ks_min (lookup_or new_keyState m k)) (snd (st k)) t \<and>
     aligned_le 60000000000 (snd (st k)) max_rpm)"

lemma rates_rel_init: "rates_rel rates_NewMemory (\<lambda>_. ([], [])) 0"
  by (simp add: rates_rel_def rates_NewMemory_def new_keyState_def wc_rel_new aligned_le_def)

lemma rates_rel_upd:
  assumes "rates_rel m st t" "t \<le> t'"
    "wc_rel 1000000000 (ks_sec ks) as t'" "aligned_le 1000000000 as max_rps"
    "wc_rel 60000000000 (ks_min ks) am t'" "aligned_le 60000000000 am max_rpm"
  shows "rates_rel (m(k \<mapsto> ks)) (st(k := (as, am))) t'"
  using assms wc_rel_later [OF _ assms(2)] by (auto simp: rates_rel_def)

text \<open>The decision for one limit, as \<open>Allow\<close> takes it: no check when the limit is not positive.\<close>

definition limit_check :: "windowCounter \<Rightarrow> i64 \<Rightarrow> i64 \<Rightarrow> i64 \<Rightarrow> windowCounter \<times> rates_error option" where
  "limit_check w now W64 limit = (if 0 <s limit then rates_check w now W64 limit else (w, None))"

definition limit_count :: "windowCounter \<Rightarrow> i64 \<Rightarrow> windowCounter" where
  "limit_count w limit = (if 0 <s limit then incr w else w)"

definition spec_count :: "int list \<Rightarrow> int \<Rightarrow> int \<Rightarrow> int list" where
  "spec_count adm now limit = (if 0 < limit then adm @ [now] else adm)"

lemma limit_check_spec:
  assumes "wc_rel W w adm t" "t \<le> sint now" "sint W64 = W" "1 < W"
    "aligned_le W adm L" "L * W + L + 1 \<le> i64_max" "sint limit \<le> L"
    "limit_check w now W64 limit = (w', e)"
  shows "wc_rel W w' adm (sint now)"
    "e = None \<longleftrightarrow> \<not> (0 < sint limit \<and> sint limit < spec_estimate W adm (sint now) + 1)"
    "e = None \<Longrightarrow> wc_rel W (limit_count w' limit) (spec_count adm (sint now) (sint limit)) (sint now)"
    "e = None \<Longrightarrow> aligned_le W (spec_count adm (sint now) (sint limit)) L"
proof -
  have "wc_rel W w' adm (sint now) \<and>
    (e = None \<longleftrightarrow> \<not> (0 < sint limit \<and> sint limit < spec_estimate W adm (sint now) + 1)) \<and>
    (e = None \<longrightarrow> wc_rel W (limit_count w' limit) (spec_count adm (sint now) (sint limit)) (sint now) \<and>
      aligned_le W (spec_count adm (sint now) (sint limit)) L)"
  proof (cases "0 <s limit")
    case True
    then have "rates_check w now W64 limit = (w', e)" using assms(8) by (simp add: limit_check_def)
    note r = rates_check_spec [OF assms(1-6) this]
    show ?thesis
      using True r aligned_le_admit [OF assms(5)] assms(4,7)
      by (auto simp: limit_count_def spec_count_def sless_int)
  next
    case False
    then show ?thesis
      using assms wc_rel_later [OF assms(1,2)]
      by (auto simp: limit_check_def limit_count_def spec_count_def sless_int)
  qed
  then show "wc_rel W w' adm (sint now)"
    "e = None \<longleftrightarrow> \<not> (0 < sint limit \<and> sint limit < spec_estimate W adm (sint now) + 1)"
    "e = None \<Longrightarrow> wc_rel W (limit_count w' limit) (spec_count adm (sint now) (sint limit)) (sint now)"
    "e = None \<Longrightarrow> aligned_le W (spec_count adm (sint now) (sint limit)) L"
    by blast+
qed

lemma Allow_alt:
  "Allow m now k rps rpm =
    (if rps \<le>s 0 \<and> rpm \<le>s 0 then (m, None)
     else let ks = lookup_or new_keyState m k; (s, e1) = limit_check (ks_sec ks) now secWindowNS rps
       in if e1 \<noteq> None then (m(k \<mapsto> ks\<lparr>ks_sec := s\<rparr>), e1)
       else let (mn, e2) = limit_check (ks_min ks) now minWindowNS rpm
         in if e2 \<noteq> None then (m(k \<mapsto> \<lparr>ks_sec = s, ks_min = mn\<rparr>), e2)
         else (m(k \<mapsto> \<lparr>ks_sec = limit_count s rps, ks_min = limit_count mn rpm\<rparr>), None))"
  by (auto simp: Allow_def limit_check_def limit_count_def Let_def split: prod.splits option.splits)

lemma spec_Allow_alt:
  "spec_Allow st now k rps rpm =
     (if 0 < rps \<and> rps < spec_estimate 1000000000 (fst (st k)) now + 1 then (st, False)
      else if 0 < rpm \<and> rpm < spec_estimate 60000000000 (snd (st k)) now + 1 then (st, False)
      else (st(k := (spec_count (fst (st k)) now rps, spec_count (snd (st k)) now rpm)), True))"
  by (simp add: spec_Allow_def spec_count_def)

lemma Allow_refines:
  assumes rel: "rates_rel m st t" and t: "t \<le> sint now" and lim: "sint rps \<le> max_rps" "sint rpm \<le> max_rpm"
    and code: "Allow m now k rps rpm = (m', e)" and spec: "spec_Allow st (sint now) k (sint rps) (sint rpm) = (st', b)"
  shows "rates_rel m' st' (sint now) \<and> (b \<longleftrightarrow> e = None)"
proof -
  define ks where "ks = lookup_or new_keyState m k"
  have R: "wc_rel 1000000000 (ks_sec ks) (fst (st k)) t" "aligned_le 1000000000 (fst (st k)) max_rps"
    "wc_rel 60000000000 (ks_min ks) (snd (st k)) t" "aligned_le 60000000000 (snd (st k)) max_rpm"
    using rel by (auto simp: rates_rel_def ks_def)
  obtain s e1 where c1: "limit_check (ks_sec ks) now secWindowNS rps = (s, e1)" by fastforce
  obtain mn e2 where c2: "limit_check (ks_min ks) now minWindowNS rpm = (mn, e2)" by fastforce
  have W: "sint secWindowNS = 1000000000" "sint minWindowNS = 60000000000"
    by (simp_all add: secWindowNS_def minWindowNS_def)
  note sec = limit_check_spec [OF R(1) t W(1) _ R(2) _ lim(1) c1, simplified]
  note mn = limit_check_spec [OF R(3) t W(2) _ R(4) _ lim(2) c2, simplified]
  note upd = rates_rel_upd [OF rel t]
  have ms: "rates_rel (m(k \<mapsto> ks\<lparr>ks_sec := s\<rparr>)) st (sint now)"
    using upd [of "ks\<lparr>ks_sec := s\<rparr>" "fst (st k)" "snd (st k)" k] sec(1) R wc_rel_later [OF R(3) t] by simp
  have mm: "rates_rel (m(k \<mapsto> \<lparr>ks_sec = s, ks_min = mn\<rparr>)) st (sint now)"
    using upd [of "\<lparr>ks_sec = s, ks_min = mn\<rparr>" "fst (st k)" "snd (st k)" k] sec(1) mn(1) R by simp
  have mk: "rates_rel (m(k \<mapsto> \<lparr>ks_sec = limit_count s rps, ks_min = limit_count mn rpm\<rparr>))
      (st(k := (spec_count (fst (st k)) (sint now) (sint rps), spec_count (snd (st k)) (sint now) (sint rpm)))) (sint now)"
    if "e1 = None" "e2 = None" using that by (intro upd) (simp_all add: sec(3,4) mn(3,4))
  have same: "rates_rel m st (sint now)"
    using rel t wc_rel_later [OF _ t] by (auto simp: rates_rel_def)
  note c = code [unfolded Allow_alt Let_def ks_def [symmetric] c1 c2 prod.case]
  note sp = spec [unfolded spec_Allow_alt]
  consider "rps \<le>s 0" "rpm \<le>s 0" | "\<not> (rps \<le>s 0 \<and> rpm \<le>s 0)" "e1 \<noteq> None"
    | "\<not> (rps \<le>s 0 \<and> rpm \<le>s 0)" "e1 = None" "e2 \<noteq> None"
    | "\<not> (rps \<le>s 0 \<and> rpm \<le>s 0)" "e1 = None" "e2 = None" by blast
  then show ?thesis
  proof cases
    case 1
    then show ?thesis using c sp same by (auto simp: sle_int spec_count_def)
  next
    case 2
    then show ?thesis using c sp ms sec(2) by (auto split: if_splits)
  next
    case 3
    then show ?thesis using c sp mm sec(2) mn(2) by (auto split: if_splits)
  next
    case 4
    then show ?thesis using c sp mk sec(2) mn(2) by (auto split: if_splits)
  qed
qed

text \<open>A history: the clock reading, the key and its two limits, for each call in the order the key
  mutexes serialise them. The code reads the clock before it takes the mutex, so the readings may come in
  another order; \<open>calls_ok\<close> is the condition that they do not, and that the limits fit.\<close>

type_synonym rates_call = "i64 \<times> string \<times> i64 \<times> i64"

fun rates_run :: "rates_memory \<Rightarrow> rates_call list \<Rightarrow> bool list" where
  "rates_run m [] = []"
| "rates_run m ((now, k, rps, rpm) # cs) =
     (let (m, e) = Allow m now k rps rpm in (e = None) # rates_run m cs)"

fun spec_run :: "spec_state \<Rightarrow> rates_call list \<Rightarrow> bool list" where
  "spec_run st [] = []"
| "spec_run st ((now, k, rps, rpm) # cs) =
     (let (st, b) = spec_Allow st (sint now) k (sint rps) (sint rpm) in b # spec_run st cs)"

fun calls_ok :: "int \<Rightarrow> rates_call list \<Rightarrow> bool" where
  "calls_ok t [] = True"
| "calls_ok t ((now, k, rps, rpm) # cs) =
     (t \<le> sint now \<and> sint rps \<le> max_rps \<and> sint rpm \<le> max_rpm \<and> calls_ok (sint now) cs)"

lemma run_refines: "rates_rel m st t \<Longrightarrow> calls_ok t cs \<Longrightarrow> rates_run m cs = spec_run st cs"
proof (induction cs arbitrary: m st t)
  case (Cons c cs)
  obtain now k rps rpm where c: "c = (now, k, rps, rpm)" by (cases c)
  obtain m' e st' b where a: "Allow m now k rps rpm = (m', e)"
    "spec_Allow st (sint now) k (sint rps) (sint rpm) = (st', b)" by fastforce
  have "rates_rel m' st' (sint now) \<and> (b \<longleftrightarrow> e = None)"
    using Cons.prems c a by (intro Allow_refines [of m st t]) auto
  with Cons c a show ?case by auto
qed simp

text \<open>C4: Over any sequence of \<open>Allow\<close> calls with a non-decreasing clock and limits whose products fit in
  64 bits, the two counters per window decide exactly as the specification that remembers the time
  of every counted request: 64-bit arithmetic, truncating division, window advance and the
  both-or-none counting of the two limits included.\<close>

theorem sliding_window_refinement:
  "calls_ok 0 cs \<Longrightarrow> rates_run rates_NewMemory cs = spec_run (\<lambda>_. ([], [])) cs"
  by (rule run_refines [OF rates_rel_init])

theorem sliding_window_refinement_witness:
  "rates_run rates_NewMemory [(100, ''k'', 1, 0), (200, ''k'', 1, 0), (2000000000, ''k'', 1, 5)] = [True, False, True]"
  using sliding_window_refinement [of "[(100, ''k'', 1, 0), (200, ''k'', 1, 0), (2000000000, ''k'', 1, 5)]"]
  by (simp add: spec_Allow_def spec_estimate_def count_in_def Let_def)

text \<open>The times of the admitted requests of a key that counted against its per-second limit, and
  against its per-minute limit.\<close>

definition admitted_times :: "(rates_call \<Rightarrow> i64) \<Rightarrow> string \<Rightarrow> rates_call list \<Rightarrow> bool list \<Rightarrow> int list" where
  "admitted_times lim k cs res =
     map (\<lambda>(c, _). sint (fst c)) (filter (\<lambda>(c, ok). ok \<and> fst (snd c) = k \<and> 0 <s lim c) (zip cs res))"

abbreviation call_rps :: "rates_call \<Rightarrow> i64" where "call_rps c \<equiv> fst (snd (snd c))"
abbreviation call_rpm :: "rates_call \<Rightarrow> i64" where "call_rpm c \<equiv> snd (snd (snd c))"

lemma spec_run_bounds:
  assumes "\<forall>c \<in> set cs. fst (snd c) = k \<longrightarrow> sint (call_rps c) \<le> L \<and> sint (call_rpm c) \<le> M"
    "aligned_le 1000000000 (fst (st k)) L" "aligned_le 60000000000 (snd (st k)) M"
  shows "aligned_le 1000000000 (fst (st k) @ admitted_times call_rps k cs (spec_run st cs)) L \<and>
    aligned_le 60000000000 (snd (st k) @ admitted_times call_rpm k cs (spec_run st cs)) M"
  using assms
proof (induction cs arbitrary: st)
  case Nil
  then show ?case by (simp add: admitted_times_def)
next
  case (Cons c cs)
  obtain now k' rps rpm where c: "c = (now, k', rps, rpm)" by (cases c)
  obtain st' b where a: "spec_Allow st (sint now) k' (sint rps) (sint rpm) = (st', b)" by fastforce
  have step: "aligned_le 1000000000 (fst (st' k)) L" "aligned_le 60000000000 (snd (st' k)) M"
    using a Cons.prems c aligned_le_admit [of 1000000000 "fst (st k)" L "sint now"]
      aligned_le_admit [of 60000000000 "snd (st k)" M "sint now"]
    by (auto simp: spec_Allow_def split: if_splits)
  have eq: "fst (st' k) @ admitted_times call_rps k cs (spec_run st' cs) =
      fst (st k) @ admitted_times call_rps k (c # cs) (spec_run st (c # cs))"
    "snd (st' k) @ admitted_times call_rpm k cs (spec_run st' cs) =
      snd (st k) @ admitted_times call_rpm k (c # cs) (spec_run st (c # cs))"
    using a by (auto simp: c admitted_times_def spec_Allow_def sless_int split: if_splits)
  show ?case using Cons.IH [of st', OF _ step] Cons.prems(1) unfolding eq by simp
qed

text \<open>Keys have counters and a mutex of their own: the decisions on one key are those of its own calls
  alone.\<close>

lemma Allow_local:
  "j \<noteq> k \<Longrightarrow> fst (Allow m now j rps rpm) k = m k"
  by (auto simp: Allow_def Let_def split: option.split prod.split)

lemma Allow_same:
  assumes "m k = m' k"
  shows "snd (Allow m now k rps rpm) = snd (Allow m' now k rps rpm) \<and>
    fst (Allow m now k rps rpm) k = fst (Allow m' now k rps rpm) k"
proof -
  have "lookup_or new_keyState m k = lookup_or new_keyState m' k" using assms by (simp add: lookup_or_def)
  then show ?thesis using assms
    by (simp add: Allow_def Let_def split: option.split prod.split)
qed

lemma rates_run_key:
  "m k = m' k \<Longrightarrow> filter (\<lambda>(c, ok). fst (snd c) = k) (zip cs (rates_run m cs)) =
    zip (filter (\<lambda>c. fst (snd c) = k) cs) (rates_run m' (filter (\<lambda>c. fst (snd c) = k) cs))"
proof (induction cs arbitrary: m m')
  case (Cons c cs)
  obtain now j rps rpm where c: "c = (now, j, rps, rpm)" by (cases c)
  show ?case
  proof (cases "j = k")
    case True
    from Allow_same [where m = m and m' = m' and k = k and now = now and rps = rps and rpm = rpm, OF Cons.prems] Cons.IH [of "fst (Allow m now k rps rpm)" "fst (Allow m' now k rps rpm)"] True
    show ?thesis by (simp add: c split_beta)
  next
    case False
    then have "fst (Allow m now j rps rpm) k = m' k" using Allow_local Cons.prems by metis
    from Cons.IH [where m = "fst (Allow m now j rps rpm)" and m' = m', OF this] False show ?thesis by (simp add: c split_beta)
  qed
qed simp

lemma admitted_times_key:
  "admitted_times lim k cs (rates_run rates_NewMemory cs) =
    admitted_times lim k (filter (\<lambda>c. fst (snd c) = k) cs)
      (rates_run rates_NewMemory (filter (\<lambda>c. fst (snd c) = k) cs))"
  (is "_ = admitted_times lim k ?cs ?res")
proof -
  have all: "filter (\<lambda>(c, ok). ok \<and> fst (snd c) = k \<and> 0 <s lim c) zs =
      filter (\<lambda>(c, ok). ok \<and> fst (snd c) = k \<and> 0 <s lim c) (filter (\<lambda>(c, ok). fst (snd c) = k) zs)" for zs
    by (induction zs) auto
  have own: "filter (\<lambda>(c, ok). fst (snd c) = k) (zip ?cs ?res) = zip ?cs ?res"
    by (rule filter_True) (auto dest: set_zip_leftD)
  show ?thesis
    unfolding admitted_times_def all [of "zip cs (rates_run rates_NewMemory cs)"] all [of "zip ?cs ?res"] own
      rates_run_key [of rates_NewMemory k rates_NewMemory, OF refl] ..
qed

text \<open>C8: Take the \<open>Allow\<close> calls in the order in which the key mutexes serialise them, and suppose the
  readings of one key do not go back in that order and start after 1970, and that its limits fit (at most
  \<open>max_rps\<close> and \<open>max_rpm\<close>). Then, whatever the other keys' calls do, of the key's requests admitted
  under limits of at most \<open>L\<close> per second and \<open>M\<close> per minute no clock-aligned second holds more than
  \<open>L\<close> and no interval of one second more than \<open>2 L\<close>; the same with \<open>M\<close> for minutes. The order is an
  assumption: \<open>Allow\<close> reads the clock before it takes the lock (\<open>stale_reading_exceeds_limit\<close>).\<close>

theorem admitted_rate_bounded:
  assumes "calls_ok 0 (filter (\<lambda>c. fst (snd c) = k) cs)" "0 \<le> L" "0 \<le> M"
    "\<forall>c \<in> set cs. fst (snd c) = k \<longrightarrow> sint (call_rps c) \<le> L \<and> sint (call_rpm c) \<le> M"
  defines "res \<equiv> rates_run rates_NewMemory cs"
  shows "count_in (admitted_times call_rps k cs res) (j * 1000000000) (j * 1000000000 + 1000000000) \<le> L \<and>
    count_in (admitted_times call_rps k cs res) a (a + 1000000000) \<le> 2 * L \<and>
    count_in (admitted_times call_rpm k cs res) (j * 60000000000) (j * 60000000000 + 60000000000) \<le> M \<and>
    count_in (admitted_times call_rpm k cs res) a (a + 60000000000) \<le> 2 * M"
proof -
  let ?cs = "filter (\<lambda>c. fst (snd c) = k) cs"
  have lim: "\<forall>c \<in> set ?cs. fst (snd c) = k \<longrightarrow> sint (call_rps c) \<le> L \<and> sint (call_rpm c) \<le> M" using assms(4) by simp
  have "rates_run rates_NewMemory ?cs = spec_run (\<lambda>_. ([], [])) ?cs"
    by (rule run_refines [OF rates_rel_init assms(1)])
  then have *: "aligned_le 1000000000 (admitted_times call_rps k cs res) L"
    "aligned_le 60000000000 (admitted_times call_rpm k cs res) M"
    using spec_run_bounds [OF lim, of "\<lambda>_. ([], [])"] assms(2,3)
    unfolding res_def admitted_times_key [of _ k cs] by (simp_all add: aligned_le_def)
  then show ?thesis
    using sliding_le [OF *(1), of a] sliding_le [OF *(2), of a] by (simp add: aligned_le_def)
qed

theorem admitted_rate_bounded_witness:
  "count_in (admitted_times call_rps ''k'' [(100, ''k'', 1, 9), (50, ''j'', 7, 0), (200, ''k'', 1, 9)]
     (rates_run rates_NewMemory [(100, ''k'', 1, 9), (50, ''j'', 7, 0), (200, ''k'', 1, 9)])) 0 1000000000 \<le> 1"
  using admitted_rate_bounded [of "''k''" "[(100, ''k'', 1, 9), (50, ''j'', 7, 0), (200, ''k'', 1, 9)]" 1 9 0 0] by simp

text \<open>A request that read the clock in one second and gets the lock after requests of a later one is
  judged by the later window: with a limit of two per second three requests of the same second are
  admitted.\<close>

lemma stale_reading_exceeds_limit:
  "let cs = [(1900000000, ''k'', 2, 0), (1910000000, ''k'', 2, 0), (3500000000, ''k'', 2, 0), (1950000000, ''k'', 2, 0)];
       res = rates_run rates_NewMemory cs in
    res = [True, True, True, True] \<and> count_in (admitted_times call_rps ''k'' cs res) 1000000000 2000000000 = 3"
proof -
  let ?cs = "[(1900000000, ''k'', 2, 0), (1910000000, ''k'', 2, 0), (3500000000, ''k'', 2, 0), (1950000000, ''k'', 2, 0)] :: rates_call list"
  have r: "rates_run rates_NewMemory ?cs = [True, True, True, True]" by code_simp
  show ?thesis unfolding Let_def r by code_simp
qed

text \<open>The documentation says that a limit of 10 per second lets through at most about 11 requests in
  any rolling second. The window weighs the previous second as if its requests were spread evenly:
  ten requests just before the end of one second and ten just before the end of the next are all
  admitted, twenty within 0.96 seconds, so twice the limit is the best bound there is.\<close>

theorem burst_of_twice_the_limit:
  "let cs = replicate 10 (1950000000, ''k'', 10, 0) @ replicate 10 (2901000000, ''k'', 10, 0) in
    calls_ok 0 cs \<and> rates_run rates_NewMemory cs = replicate 20 True \<and>
    count_in (admitted_times call_rps ''k'' cs (rates_run rates_NewMemory cs)) 1950000000 2910000000 = 20"
proof -
  let ?cs = "replicate 10 (1950000000, ''k'', 10, 0) @ replicate 10 (2901000000, ''k'', 10, 0) :: rates_call list"
  have r: "rates_run rates_NewMemory ?cs = replicate 20 True" by code_simp
  show ?thesis unfolding Let_def r by code_simp
qed

section \<open>Retry-After\<close>

definition rates_after :: "rates_memory \<Rightarrow> rates_call list \<Rightarrow> rates_memory" where
  "rates_after = foldl (\<lambda>m (now, k, rps, rpm). fst (Allow m now k rps rpm))"

definition next_window :: "int \<Rightarrow> int \<Rightarrow> int" where
  "next_window W now = now - now mod W + W"

lemma rates_after_rel:
  "rates_rel m st t \<Longrightarrow> calls_ok t (cs @ [(now, c)]) \<Longrightarrow>
    \<exists>st' t'. rates_rel (rates_after m cs) st' t' \<and> t' \<le> sint now"
proof (induction cs arbitrary: m st t)
  case Nil
  then show ?case by (cases c) (auto simp: rates_after_def)
next
  case (Cons x cs)
  obtain n k rps rpm where x: "x = (n, k, rps, rpm)" by (cases x)
  obtain m' e st' b where a: "Allow m n k rps rpm = (m', e)"
    "spec_Allow st (sint n) k (sint rps) (sint rpm) = (st', b)" by fastforce
  have "rates_rel m' st' (sint n)"
    using Allow_refines [OF Cons.prems(1) _ _ _ a] Cons.prems(2) x by simp
  from Cons.IH [OF this] Cons.prems(2) show ?case by (simp add: x rates_after_def a)
qed

lemma rates_check_retry:
  assumes rel: "wc_rel W w adm t" "t \<le> sint now" and W: "sint W64 = W" "1 < W" "W \<le> 60000000000"
    and chk: "rates_check w now W64 limit = (w', Some e)"
  shows "\<exists>s. e = retryAfterError s \<and> 1 \<le> sint s \<and> sint s \<le> 60 \<and>
    next_window W (sint now) \<le> sint now + sint s * 1000000000"
proof -
  have w': "w' = advance w now W64"
    using chk by (auto simp: rates_check_def advance_def Let_def split: prod.splits if_splits)
  have ws: "sint (windowStart w') = sint now - sint now mod W"
    using advance_rel [OF rel W(1,2)] by (simp add: w')
  define r where "r = sint now mod W"
  have r: "0 \<le> r" "r < W" using W(2) by (simp_all add: r_def)
  have "sint (now - windowStart w') = r"
    using r ws W(3) by (subst sint_sub_i64) (auto simp: r_def [symmetric])
  then have rest: "sint (W64 - (now - windowStart w')) = W - r"
    using r W(1,3) by (subst sint_sub_i64) auto
  define q where "q = (W - r) div 1000000000"
  have q: "0 \<le> q" "W - r < q * 1000000000 + 1000000000" "q \<le> 60"
    using r W(3) by (auto simp: q_def)
  have "sint (go_div (W64 - (now - windowStart w')) secWindowNS) = q"
    using rest r by (subst sint_go_div) (auto simp: secWindowNS_def q_def)
  then have s: "sint (go_div (W64 - (now - windowStart w')) secWindowNS + 1) = q + 1"
    using q by (subst sint_add_i64) auto
  let ?s = "word_of_int (max 1 (min 60 (q + 1))) :: i64"
  have e: "e = newRetryAfterError (go_div (W64 - (now - windowStart w')) secWindowNS + 1)"
    using chk by (auto simp: rates_check_def Let_def split: prod.splits if_splits)
  then have "RetryAfter e = (?s, True)" by (simp add: RetryAfter_new s)
  then have e: "e = retryAfterError ?s" by (cases e) (auto simp: RetryAfter_def)
  have "sint ?s = min 60 (q + 1)" using q by (subst sint_of_int_i64) auto
  then show ?thesis
    using e q r W(3) by (cases "q = 60") (auto simp: next_window_def r_def [symmetric])
qed


lemma next_window_sec_min: "next_window 1000000000 n \<le> next_window 60000000000 n"
proof -
  have "n mod (1000000000 * 60) = 1000000000 * (n div 1000000000 mod 60) + n mod 1000000000"
    by (rule zmod_zmult2_eq) simp
  moreover have "n div 1000000000 mod 60 \<le> 59" using pos_mod_bound [of 60 "n div 1000000000"] by simp
  ultimately show ?thesis by (simp add: next_window_def)
qed

lemma Allow_SomeE:
  assumes "Allow m now k rps rpm = (m', Some e)"
  obtains w' where "0 <s rps" "rates_check (ks_sec (lookup_or new_keyState m k)) now secWindowNS rps = (w', Some e)"
  | w' where "0 <s rpm" "rates_check (ks_min (lookup_or new_keyState m k)) now minWindowNS rpm = (w', Some e)"
  using assms by (auto simp: Allow_alt limit_check_def Let_def split: if_splits prod.splits)

text \<open>The error of a refused call carries a \<open>Retry-After\<close> between 1 and 60 seconds that reaches the end
  of the current one-second window, and the end of the current minute when only the per-minute
  limit is set.\<close>

theorem retry_after_covers_window:
  assumes "calls_ok 0 (cs @ [(now, k, rps, rpm)])"
    "Allow (rates_after rates_NewMemory cs) now k rps rpm = (m', Some e)"
  shows "\<exists>s. RetryAfter e = (s, True) \<and> 1 \<le> sint s \<and> sint s \<le> 60 \<and>
    next_window 1000000000 (sint now) \<le> sint now + sint s * 1000000000 \<and>
    (rps \<le>s 0 \<longrightarrow> next_window 60000000000 (sint now) \<le> sint now + sint s * 1000000000)"
proof -
  obtain st t where rel: "rates_rel (rates_after rates_NewMemory cs) st t" "t \<le> sint now"
    using rates_after_rel [OF rates_rel_init assms(1)] by blast
  let ?ks = "lookup_or new_keyState (rates_after rates_NewMemory cs) k"
  have R: "wc_rel 1000000000 (ks_sec ?ks) (fst (st k)) t" "wc_rel 60000000000 (ks_min ?ks) (snd (st k)) t"
    using rel(1) by (auto simp: rates_rel_def)
  show ?thesis
    using assms(2)
  proof (cases rule: Allow_SomeE)
    case (1 w')
    then show ?thesis
      using rates_check_retry [OF R(1) rel(2) _ _ _ 1(2)]
      by (auto simp: secWindowNS_def RetryAfter_def sless_int sle_int)
  next
    case (2 w')
    then show ?thesis
      using rates_check_retry [OF R(2) rel(2) _ _ _ 2(2)] next_window_sec_min [of "sint now"]
      by (force simp: minWindowNS_def RetryAfter_def)
  qed
qed

theorem retry_after_covers_window_witness:
  "\<exists>s. RetryAfter (retryAfterError 60) = (s, True) \<and>
    next_window 60000000000 100 \<le> 100 + sint s * 1000000000"
proof -
  have "calls_ok 0 ([(0, ''k'', 0, 1)] @ [(100, ''k'', 0, 1)])" by simp
  moreover have "snd (Allow (rates_after rates_NewMemory [(0, ''k'', 0, 1)]) 100 ''k'' 0 1) = Some (retryAfterError 60)"
    by code_simp
  then have "Allow (rates_after rates_NewMemory [(0, ''k'', 0, 1)]) 100 ''k'' 0 1 =
      (fst (Allow (rates_after rates_NewMemory [(0, ''k'', 0, 1)]) 100 ''k'' 0 1), Some (retryAfterError 60))"
    by (metis prod.collapse)
  ultimately show ?thesis
    using retry_after_covers_window by fastforce
qed

end
