(* ===== verification/Civil_Time.thy ===== *)
theory Civil_Time
  imports Prelude
begin

text \<open>
  Go's \<open>time.Time\<close> as the program uses it: an instant is the \<open>int\<close> number of nanoseconds since
  1970-01-01T00:00:00Z, every comparison of the source (\<open>Before\<close>, \<open>After\<close>, \<open>Equal\<close>) compares
  instants, and \<open>UTC()\<close> changes the presentation only. The proleptic Gregorian calendar of
  \<open>Time.Format\<close> is computed here, with the facts the spend buckets need: a day number and its
  date determine each other.
\<close>

type_synonym instant = int

definition ns_per_s :: int where
  "ns_per_s = 1000000000"

definition ns_per_day :: int where
  "ns_per_day = 86400 * 1000000000"

text \<open>The UTC day of an instant, counted from 1970-01-01.\<close>

definition utc_day :: "instant \<Rightarrow> int" where
  "utc_day t = t div ns_per_day"

section \<open>Years\<close>

definition is_leap :: "int \<Rightarrow> bool" where
  "is_leap y = (y mod 4 = 0 \<and> (y mod 100 \<noteq> 0 \<or> y mod 400 = 0))"

text \<open>Days from 1970-01-01 to the first of January of year \<open>y\<close>.\<close>

definition year_start :: "int \<Rightarrow> int" where
  "year_start y = 365 * (y - 1) + (y - 1) div 4 - (y - 1) div 100 + (y - 1) div 400 - 719162"

definition year_length :: "int \<Rightarrow> int" where
  "year_length y = (if is_leap y then 366 else 365)"

lemma year_start_1970: "year_start 1970 = 0"
  by (simp add: year_start_def)

lemma div_bounds:
  fixes x m :: int
  assumes "0 < m"
  shows "m * (x div m) \<le> x" "x < m * (x div m) + m"
  using pos_mod_bound [OF assms, of x] pos_mod_sign [OF assms, of x] mult_div_mod_eq [of m x]
  by linarith+

lemma div_pred:
  fixes y m :: int
  assumes "0 < m"
  shows "y div m = (y - 1) div m + of_bool (y mod m = 0)"
proof -
  have "y div m = (y - 1) div m + of_bool (m dvd y)"
  proof (cases "m dvd y")
    case True
    then obtain k where y: "y = m * k" by auto
    have "(m * k - 1) div m = k - 1"
      using assms by (intro div_pos_neg_trivial int_div_pos_eq [where r = "m - 1"]) (auto simp: algebra_simps)
    then show ?thesis using assms y by simp
  next
    case False
    then have "0 < y mod m" using assms by (simp add: dvd_eq_mod_eq_0 order_le_neq_trans)
    moreover have "y mod m < m" using assms by simp
    ultimately have "(y - 1) div m = y div m"
      using mult_div_mod_eq [of m y] by (intro int_div_pos_eq [where r = "y mod m - 1"]) linarith+
    then show ?thesis using False by simp
  qed
  then show ?thesis by (simp add: dvd_eq_mod_eq_0)
qed

lemma year_start_Suc: "year_start (y + 1) = year_start y + year_length y"
proof -
  have "y mod 4 \<noteq> 0 \<Longrightarrow> y mod 100 \<noteq> 0" "y mod 100 \<noteq> 0 \<Longrightarrow> y mod 400 \<noteq> 0"
    using dvd_trans [of 4 100 y] dvd_trans [of 100 400 y] by (auto simp flip: dvd_eq_mod_eq_0)
  moreover have "year_start (y + 1) = year_start y + 365 + of_bool (y mod 4 = 0)
      - of_bool (y mod 100 = 0) + of_bool (y mod 400 = 0)"
    unfolding year_start_def add_diff_cancel_right'
      div_pred [of 4 y, OF zero_less_numeral] div_pred [of 100 y, OF zero_less_numeral]
      div_pred [of 400 y, OF zero_less_numeral]
    by (simp only: algebra_simps)
  ultimately show ?thesis
    unfolding year_length_def is_leap_def
    by (cases "y mod 4 = 0"; cases "y mod 100 = 0"; cases "y mod 400 = 0") simp_all
qed

lemma year_start_mono:
  assumes "a \<le> b" shows "year_start a \<le> year_start b"
proof -
  have "year_start a \<le> year_start (a + int n)" for n
  proof (induction n)
    case (Suc n)
    have "year_start (a + int (Suc n)) = year_start (a + int n) + year_length (a + int n)"
      using year_start_Suc [of "a + int n"] by (simp add: algebra_simps)
    with Suc show ?case by (simp add: year_length_def split: if_splits)
  qed simp
  from this [of "nat (b - a)"] show ?thesis using assms by simp
qed

text \<open>The year of a day: an estimate from the mean length of a year (146097 days in 400 years),
  one too small at most.\<close>

definition year_of_day :: "int \<Rightarrow> int" where
  "year_of_day d = (let y = (d + 719162) * 400 div 146097 + 1
                    in if year_start (y + 1) \<le> d then y + 1 else y)"

lemma year_start_le:
  "year_start (k + 1) \<le> d" if "146097 * k \<le> 400 * d + 287664800"
proof -
  define a b c where "a = k div 4" and "b = k div 100" and "c = k div 400"
  have "4 * a \<le> k" "k < 100 * b + 100" "400 * c \<le> k"
    unfolding a_def b_def c_def by (rule div_bounds, simp)+
  with that have "365 * k + a - b + c - 719162 \<le> d" by linarith
  then show ?thesis by (simp add: year_start_def a_def b_def c_def)
qed

lemma less_year_start:
  "d < year_start (k + 1)" if "400 * d + 287664800 < 146097 * k - 146097"
proof -
  define a b c where "a = k div 4" and "b = k div 100" and "c = k div 400"
  have "k < 4 * a + 4" "100 * b \<le> k" "k < 400 * c + 400"
    unfolding a_def b_def c_def by (rule div_bounds, simp)+
  with that have "d < 365 * k + a - b + c - 719162" by linarith
  then show ?thesis by (simp add: year_start_def a_def b_def c_def)
qed

lemma year_of_day_bounds:
  "year_start (year_of_day d) \<le> d" "d < year_start (year_of_day d + 1)"
proof -
  define k where "k = (d + 719162) * 400 div 146097"
  have "146097 * k \<le> (d + 719162) * 400" "(d + 719162) * 400 < 146097 * k + 146097"
    unfolding k_def by (rule div_bounds, simp)+
  then have k: "146097 * k \<le> 400 * d + 287664800" "400 * d + 287664800 < 146097 * k + 146097"
    by simp_all
  have "year_start (k + 1) \<le> d" using k(1) by (rule year_start_le)
  moreover have "d < year_start (k + 1 + 1 + 1)"
    using k(2) by (intro less_year_start) simp
  ultimately show "year_start (year_of_day d) \<le> d" "d < year_start (year_of_day d + 1)"
    unfolding year_of_day_def k_def [symmetric] Let_def by auto
qed

lemma year_of_day_unique:
  assumes "year_start y \<le> d" "d < year_start (y + 1)"
  shows "year_of_day d = y"
proof -
  have "\<not> year_of_day d < y"
    using year_start_mono [of "year_of_day d + 1" y] year_of_day_bounds [of d] assms by force
  moreover have "\<not> y < year_of_day d"
    using year_start_mono [of "y + 1" "year_of_day d"] year_of_day_bounds [of d] assms by force
  ultimately show ?thesis by linarith
qed

section \<open>Months and days\<close>

definition month_lengths :: "int \<Rightarrow> int list" where
  "month_lengths y = [31, if is_leap y then 29 else 28, 31, 30, 31, 30, 31, 31, 30, 31, 30, 31]"

text \<open>The month that holds day \<open>d\<close> of the year (counted from 0) and the day of that month.\<close>

fun month_scan :: "nat \<Rightarrow> int list \<Rightarrow> int \<Rightarrow> nat \<times> nat" where
  "month_scan m [] d = (m, nat (d + 1))"
| "month_scan m (l # ls) d = (if d < l then (m, nat (d + 1)) else month_scan (Suc m) ls (d - l))"

definition date_of_day :: "int \<Rightarrow> int \<times> nat \<times> nat" where
  "date_of_day d = (let y = year_of_day d in (y, month_scan 1 (month_lengths y) (d - year_start y)))"

definition day_of_date :: "int \<times> nat \<times> nat \<Rightarrow> int" where
  "day_of_date = (\<lambda>(y, m, d). year_start y + sum_list (take (m - 1) (month_lengths y)) + int d - 1)"

lemma month_scan_ge: "month_scan m ls d = (m', k) \<Longrightarrow> m \<le> m'"
  by (induction m ls d rule: month_scan.induct) (auto split: if_splits)

lemma month_scan_value:
  "month_scan m ls d = (m', k) \<Longrightarrow> 0 \<le> d \<Longrightarrow> d = sum_list (take (m' - m) ls) + int k - 1"
proof (induction m ls d rule: month_scan.induct)
  case (2 m l ls d)
  show ?case
  proof (cases "d < l")
    case False
    with 2 have "d - l = sum_list (take (m' - Suc m) ls) + int k - 1" by simp
    moreover have "m' - m = Suc (m' - Suc m)"
      using 2(2) False month_scan_ge [of "Suc m" ls "d - l" m' k] by simp
    ultimately show ?thesis by simp
  qed (use 2 in auto)
qed auto

lemma month_scan_bounds:
  assumes "month_scan m ls d = (m', k)" "0 \<le> d" "d < sum_list ls" "\<forall>l \<in> set ls. l \<le> b"
  shows "m' < m + length ls \<and> 1 \<le> k \<and> int k \<le> b"
  using assms
proof (induction m ls d rule: month_scan.induct)
  case (2 m l ls d)
  then show ?case by (cases "d < l") auto
qed auto

lemma sum_month_lengths: "sum_list (month_lengths y) = year_length y"
  by (simp add: month_lengths_def year_length_def)

lemma date_of_dayE:
  assumes "date_of_day d = (y, m, k)"
  shows "y = year_of_day d" "1 \<le> m" "m \<le> 12" "1 \<le> k" "k \<le> 31" "day_of_date (y, m, k) = d"
proof -
  let ?r = "d - year_start (year_of_day d)"
  have s: "month_scan 1 (month_lengths (year_of_day d)) ?r = (m, k)" and y: "y = year_of_day d"
    using assms unfolding date_of_day_def Let_def by blast+
  have r: "0 \<le> ?r" "?r < sum_list (month_lengths (year_of_day d))"
    using year_of_day_bounds [of d] by (simp_all add: sum_month_lengths year_start_Suc)
  have "\<forall>l \<in> set (month_lengths (year_of_day d)). l \<le> 31"
    by (simp add: month_lengths_def)
  from month_scan_bounds [OF s r this] month_scan_ge [OF s]
  show "1 \<le> m" "m \<le> 12" "1 \<le> k" "k \<le> 31" by (simp_all add: month_lengths_def)
  show "day_of_date (y, m, k) = d"
    using month_scan_value [OF s r(1)] by (simp add: day_of_date_def y)
  show "y = year_of_day d" by (rule y)
qed

lemma date_of_day_inverse [simp]: "day_of_date (date_of_day d) = d"
  by (cases "date_of_day d") (simp add: date_of_dayE)

lemma date_of_day_inj: "date_of_day d = date_of_day e \<Longrightarrow> d = e"
  by (metis date_of_day_inverse)

section \<open>Decimal fields\<close>

definition digit :: "nat \<Rightarrow> char" where
  "digit n = char_of (48 + n)"

fun dec :: "nat \<Rightarrow> string" where
  "dec n = (if n < 10 then [digit n] else dec (n div 10) @ [digit (n mod 10)])"

declare dec.simps [simp del]

text \<open>\<open>appendInt\<close> of package \<open>time\<close>: zero-padded to a width, a minus sign in front.\<close>

definition zpad :: "nat \<Rightarrow> nat \<Rightarrow> string" where
  "zpad w n = replicate (w - length (dec n)) CHR ''0'' @ dec n"

definition append_int :: "nat \<Rightarrow> int \<Rightarrow> string" where
  "append_int w k = (if k < 0 then CHR ''-'' # zpad w (nat (- k)) else zpad w (nat k))"

definition dec_value :: "string \<Rightarrow> nat" where
  "dec_value s = foldl (\<lambda>a c. 10 * a + (of_char c - 48)) 0 s"

lemma of_char_digit: "n < 10 \<Longrightarrow> (of_char (digit n) :: nat) = 48 + n"
  by (simp add: digit_def)

lemma dec_value_append: "dec_value (s @ [c]) = 10 * dec_value s + (of_char c - 48)"
  by (simp add: dec_value_def)

lemma dec_value_dec [simp]: "dec_value (dec n) = n"
proof (induction n rule: dec.induct)
  case (1 n)
  then show ?case
    by (subst dec.simps) (simp add: dec_value_append, simp add: dec_value_def of_char_digit)
qed

lemma dec_value_zpad [simp]: "dec_value (zpad w n) = n"
proof -
  have "dec_value (replicate k CHR ''0'' @ s) = dec_value s" for k s
    by (induction k) (simp_all add: dec_value_def)
  then show ?thesis by (simp add: zpad_def)
qed

lemma zpad_inj: "zpad w a = zpad w b \<Longrightarrow> a = b"
  by (metis dec_value_zpad)

lemma set_dec: "set (dec n) \<subseteq> digit ` {..<10}"
proof (induction n rule: dec.induct)
  case (1 n)
  then show ?case by (subst dec.simps) auto
qed

lemma set_zpad: "set (zpad w n) \<subseteq> digit ` {..<10}"
proof -
  have "CHR ''0'' = digit 0" by code_simp
  then show ?thesis using set_dec [of n] by (auto simp: zpad_def)
qed

lemma digit_ne:
  assumes "c \<in> digit ` {..<10}"
  shows "c \<noteq> CHR ''-''" "c \<noteq> CHR ''|''" "c \<noteq> CHR '':''" "c \<noteq> CHR ''d''" "c \<noteq> CHR ''m''"
proof -
  from assms obtain n where "c = digit n" "n < 10" by auto
  then have "(of_char c :: nat) = 48 + n" "n < 10" by (simp_all add: of_char_digit)
  then show "c \<noteq> CHR ''-''" "c \<noteq> CHR ''|''" "c \<noteq> CHR '':''" "c \<noteq> CHR ''d''" "c \<noteq> CHR ''m''"
    by auto
qed

lemma zpad_ne [simp]: "zpad w n \<noteq> []"
  by (subst zpad_def, subst dec.simps) simp

lemma append_int_inj: "append_int w a = append_int w b \<Longrightarrow> a = b"
proof -
  have "CHR ''-'' # s \<noteq> zpad w n" for s n
    using set_zpad [of w n] digit_ne(1) [of "CHR ''-''"] by (metis list.set_intros(1) subsetD)
  then show "append_int w a = append_int w b \<Longrightarrow> a = b"
    by (auto simp: append_int_def dest!: zpad_inj split: if_splits) metis
qed

lemma length_zpad_2:
  assumes "n < 100" shows "length (zpad 2 n) = 2"
proof -
  have "n div 10 < 10" using assms by (simp add: less_mult_imp_div_less)
  then have "length (dec n) = (if n < 10 then 1 else 2)"
    by (subst dec.simps) (simp add: dec.simps [of "n div 10"])
  then show ?thesis by (simp add: zpad_def)
qed

text \<open>\<open>t.UTC().Format("2006-01-02")\<close> and \<open>t.UTC().Format("2006-01")\<close>.\<close>

definition format_day :: "instant \<Rightarrow> string" where
  "format_day t = (case date_of_day (utc_day t) of (y, m, d) \<Rightarrow>
     append_int 4 y @ ''-'' @ zpad 2 m @ ''-'' @ zpad 2 d)"

definition format_month :: "instant \<Rightarrow> string" where
  "format_month t = (case date_of_day (utc_day t) of (y, m, d) \<Rightarrow>
     append_int 4 y @ ''-'' @ zpad 2 m)"

lemma append_eq_same_length:
  "length b = length d \<Longrightarrow> a @ b = c @ d \<longleftrightarrow> a = c \<and> b = d"
  by auto

lemma format_day_eq: "format_day s = format_day t \<longleftrightarrow> utc_day s = utc_day t"
proof
  obtain y m d where s: "date_of_day (utc_day s) = (y, m, d)" by (metis prod_cases3)
  obtain y' m' d' where t: "date_of_day (utc_day t) = (y', m', d')" by (metis prod_cases3)
  assume "format_day s = format_day t"
  moreover have "length (zpad 2 m) = 2" "length (zpad 2 m') = 2" "length (zpad 2 d) = 2"
    "length (zpad 2 d') = 2"
    using date_of_dayE [OF s] date_of_dayE [OF t] by (auto intro!: length_zpad_2)
  ultimately have "append_int 4 y = append_int 4 y'" "zpad 2 m = zpad 2 m'" "zpad 2 d = zpad 2 d'"
    by (simp_all add: format_day_def s t append_eq_same_length)
  then have "date_of_day (utc_day s) = date_of_day (utc_day t)"
    unfolding s t by (metis append_int_inj zpad_inj)
  then show "utc_day s = utc_day t" by (rule date_of_day_inj)
qed (simp add: format_day_def)

definition utc_month :: "instant \<Rightarrow> int \<times> nat" where
  "utc_month t = (case date_of_day (utc_day t) of (y, m, _) \<Rightarrow> (y, m))"

lemma format_month_eq: "format_month s = format_month t \<longleftrightarrow> utc_month s = utc_month t"
proof
  obtain y m d where s: "date_of_day (utc_day s) = (y, m, d)" by (metis prod_cases3)
  obtain y' m' d' where t: "date_of_day (utc_day t) = (y', m', d')" by (metis prod_cases3)
  assume "format_month s = format_month t"
  moreover have "length (zpad 2 m) = 2" "length (zpad 2 m') = 2"
    using date_of_dayE [OF s] date_of_dayE [OF t] by (auto intro!: length_zpad_2)
  ultimately have "append_int 4 y = append_int 4 y'" "zpad 2 m = zpad 2 m'"
    by (simp_all add: format_month_def s t append_eq_same_length)
  then show "utc_month s = utc_month t"
    by (auto simp: utc_month_def s t dest: append_int_inj zpad_inj)
qed (auto simp: format_month_def utc_month_def split: prod.splits)

lemma utc_day_month: "utc_day s = utc_day t \<Longrightarrow> utc_month s = utc_month t"
  by (simp add: utc_month_def)

lemma bar_not_in_format: "CHR ''|'' \<notin> set (format_day t)" "CHR ''|'' \<notin> set (format_month t)"
proof -
  have z: "CHR ''|'' \<notin> set (zpad w n)" for w n
    using set_zpad [of w n] digit_ne(2) [of "CHR ''|''"] by (meson subsetD)
  then have "CHR ''|'' \<notin> set (append_int w k)" for w k by (simp add: append_int_def)
  with z show "CHR ''|'' \<notin> set (format_day t)" "CHR ''|'' \<notin> set (format_month t)"
    by (auto simp: format_day_def format_month_def split: prod.splits)
qed

end
