(* ===== verification/Float64.thy ===== *)
theory Float64
  imports Complex_Main Prelude "HOL-Library.Log_Nat"
begin

text \<open>
  Go's \<open>float64\<close>: IEEE 754 binary64 with round-to-nearest-even, executable on rationals. USD
  amounts (prices, costs, caps, spend totals) are float64 in the source, so every sum and product
  of the model rounds where the compiled code rounds. The sign of a zero is not kept: no operation
  the program performs on an amount can tell the two zeros apart; it would show only in JSON that is
  decoded and printed again, where a number \<open>-0\<close> comes out as \<open>0\<close> and Go keeps the sign. Go may fuse a product and a sum
  into one rounding on some architectures; the model rounds after each operation, as on amd64.

  The facts the components use: rounding is monotone and leaves representable values alone, so
  adding a non-negative amount never lowers a total (\<open>f64_add_ge\<close>) and addition is monotone in
  both arguments (\<open>f64_add_mono\<close>), although it is not associative.
\<close>

section \<open>Values and order\<close>

datatype f64 = Fin rat | PosInf | NegInf | NaN

text \<open>IEEE comparison: a comparison with NaN is false.\<close>

fun f64_le :: "f64 \<Rightarrow> f64 \<Rightarrow> bool" where
  "f64_le NaN _ = False"
| "f64_le _ NaN = False"
| "f64_le NegInf _ = True"
| "f64_le _ PosInf = True"
| "f64_le (Fin a) (Fin b) = (a \<le> b)"
| "f64_le _ _ = False"

fun f64_lt :: "f64 \<Rightarrow> f64 \<Rightarrow> bool" where
  "f64_lt NaN _ = False"
| "f64_lt _ NaN = False"
| "f64_lt NegInf b = (b \<noteq> NegInf)"
| "f64_lt a PosInf = (a \<noteq> PosInf)"
| "f64_lt (Fin a) (Fin b) = (a < b)"
| "f64_lt _ _ = False"

abbreviation f64_zero :: f64 where
  "f64_zero \<equiv> Fin 0"

abbreviation f64_nonneg :: "f64 \<Rightarrow> bool" where
  "f64_nonneg x \<equiv> f64_le f64_zero x"

lemma f64_le_refl [simp]: "f64_le x x \<longleftrightarrow> x \<noteq> NaN"
  by (cases x) auto

lemma f64_le_trans [trans]: "f64_le x y \<Longrightarrow> f64_le y z \<Longrightarrow> f64_le x z"
  by (cases x; cases y; cases z) auto

lemma f64_le_lt_trans: "f64_le x y \<Longrightarrow> f64_lt y z \<Longrightarrow> f64_lt x z"
  by (cases x; cases y; cases z) auto

lemma f64_lt_le: "f64_lt x y \<Longrightarrow> f64_le x y"
  by (cases x; cases y) auto

lemma f64_not_le: "x \<noteq> NaN \<Longrightarrow> y \<noteq> NaN \<Longrightarrow> \<not> f64_le x y \<longleftrightarrow> f64_lt y x"
  by (cases x; cases y) auto

lemma f64_nonneg_not_NaN: "f64_nonneg x \<Longrightarrow> x \<noteq> NaN"
  by auto

lemma f64_le_not_NaN: "f64_le x y \<Longrightarrow> x \<noteq> NaN \<and> y \<noteq> NaN"
  by (cases x; cases y) auto

section \<open>Rounding to nearest, ties to even\<close>

text \<open>The binary exponent of a positive rational: \<open>2 powi ilog2 x \<le> x < 2 powi (ilog2 x + 1)\<close>.\<close>

definition ilog2 :: "rat \<Rightarrow> int" where
  "ilog2 x = (let (n, d) = quotient_of x; e = bitlen n - bitlen d
              in if 2 powi e \<le> x then e else e - 1)"

text \<open>The nearest integer, the even one of two that are equally near.\<close>

definition rne :: "rat \<Rightarrow> int" where
  "rne y = (let f = \<lfloor>y\<rfloor>; r = y - of_int f
            in if r < 1/2 then f else if 1/2 < r then f + 1 else if even f then f else f + 1)"

text \<open>The exponent of the last significand bit: 53 bits of precision, and no smaller than the
  subnormal spacing.\<close>

definition qexp :: "rat \<Rightarrow> int" where
  "qexp x = max (ilog2 x - 52) (- 1074)"

definition rnd_pos :: "rat \<Rightarrow> rat" where
  "rnd_pos x = of_int (rne (x / 2 powi qexp x)) * 2 powi qexp x"

definition rnd :: "rat \<Rightarrow> rat" where
  "rnd x = (if x = 0 then 0 else if 0 < x then rnd_pos x else - rnd_pos (- x))"

definition round64 :: "rat \<Rightarrow> f64" where
  "round64 x = (let r = rnd x in
     if 2 ^ 1024 \<le> r then PosInf else if r \<le> - (2 ^ 1024) then NegInf else Fin r)"

text \<open>The arithmetic the source uses. Division occurs only by a positive constant.\<close>

fun f64_add :: "f64 \<Rightarrow> f64 \<Rightarrow> f64" where
  "f64_add NaN _ = NaN"
| "f64_add _ NaN = NaN"
| "f64_add PosInf NegInf = NaN"
| "f64_add NegInf PosInf = NaN"
| "f64_add PosInf _ = PosInf"
| "f64_add _ PosInf = PosInf"
| "f64_add NegInf _ = NegInf"
| "f64_add _ NegInf = NegInf"
| "f64_add (Fin a) (Fin b) = round64 (a + b)"

fun f64_neg :: "f64 \<Rightarrow> f64" where
  "f64_neg (Fin a) = Fin (- a)"
| "f64_neg PosInf = NegInf"
| "f64_neg NegInf = PosInf"
| "f64_neg NaN = NaN"

fun f64_inf_times :: "f64 \<Rightarrow> f64" where
  "f64_inf_times (Fin b) = (if b = 0 then NaN else if 0 < b then PosInf else NegInf)"
| "f64_inf_times b = b"

fun f64_mul :: "f64 \<Rightarrow> f64 \<Rightarrow> f64" where
  "f64_mul NaN _ = NaN"
| "f64_mul PosInf b = f64_inf_times b"
| "f64_mul NegInf b = f64_neg (f64_inf_times b)"
| "f64_mul a PosInf = f64_inf_times a"
| "f64_mul a NegInf = f64_neg (f64_inf_times a)"
| "f64_mul a NaN = NaN"
| "f64_mul (Fin a) (Fin b) = round64 (a * b)"

fun f64_div_const :: "f64 \<Rightarrow> rat \<Rightarrow> f64" where
  "f64_div_const (Fin a) c = round64 (a / c)"
| "f64_div_const a _ = a"

definition f64_of_int :: "i64 \<Rightarrow> f64" where
  "f64_of_int k = round64 (of_int (sint k))"

text \<open>A value the format holds.\<close>

fun wf64 :: "f64 \<Rightarrow> bool" where
  "wf64 (Fin a) = (rnd a = a \<and> \<bar>a\<bar> < 2 ^ 1024)"
| "wf64 _ = True"

section \<open>Rounding is monotone and exact on representable values\<close>

lemma powi_2_pos [simp]: "0 < (2 :: rat) powi k"
  by (simp add: zero_less_power_int)

lemma powi_2_less: "(2 :: rat) powi a < 2 powi b \<longleftrightarrow> a < b"
  using power_int_strict_increasing [of a b "2 :: rat"] power_int_increasing [of b a "2 :: rat"] by (cases "a < b") auto

lemma bitlen_powi:
  assumes "0 < (k :: int)"
  shows "(2 :: rat) powi (bitlen k - 1) \<le> of_int k" "(of_int k :: rat) < 2 powi bitlen k"
proof -
  have b: "1 \<le> bitlen k" using assms bitlen_nonneg [of k] bitlen_eq_zero_iff [of k] by linarith
  have "2 ^ nat (bitlen k - 1) \<le> k" "k < 2 ^ nat (bitlen k)"
    using bitlen_bounds [OF assms] by auto
  then have "(of_int (2 ^ nat (bitlen k - 1)) :: rat) \<le> of_int k"
    "(of_int k :: rat) < of_int (2 ^ nat (bitlen k))"
    by (simp_all only: of_int_le_iff of_int_less_iff)
  then show "(2 :: rat) powi (bitlen k - 1) \<le> of_int k" "(of_int k :: rat) < 2 powi bitlen k"
    using b by (simp_all add: power_int_def)
qed

lemma ilog2_bounds:
  assumes "0 < x"
  shows "2 powi ilog2 x \<le> x" "x < 2 powi (ilog2 x + 1)"
proof -
  obtain n d where q: "quotient_of x = (n, d)" by (cases "quotient_of x")
  have d: "0 < d" using quotient_of_denom_pos [OF q] .
  have x: "x = of_int n / of_int d" using quotient_of_div [OF q] .
  have n: "0 < n" using assms d unfolding x by (simp add: zero_less_divide_iff)
  define e where "e = bitlen n - bitlen d"
  have "x < 2 powi bitlen n / 2 powi (bitlen d - 1)"
    unfolding x using bitlen_powi [OF n] bitlen_powi [OF d] n d
    by (intro frac_less) (auto intro: less_imp_le)
  then have up: "x < 2 powi (e + 1)"
    by (simp add: e_def power_int_diff power_int_add field_simps)
  have "2 powi (bitlen n - 1) / 2 powi bitlen d \<le> x"
    unfolding x using bitlen_powi [OF n] bitlen_powi [OF d] n d
    by (intro frac_le) (auto intro: less_imp_le)
  then have lo: "2 powi (e - 1) \<le> x"
    by (simp add: e_def power_int_diff power_int_add field_simps)
  have "ilog2 x = (if 2 powi e \<le> x then e else e - 1)"
    by (simp add: ilog2_def q e_def)
  with up lo show "2 powi ilog2 x \<le> x" "x < 2 powi (ilog2 x + 1)"
    by (auto split: if_splits)
qed

lemma ilog2_less: "0 < x \<Longrightarrow> x < 2 powi k \<Longrightarrow> ilog2 x < k"
  using ilog2_bounds(1) [of x] powi_2_less [of "ilog2 x" k] by linarith

lemma ilog2_ge: "0 < x \<Longrightarrow> 2 powi k \<le> x \<Longrightarrow> k \<le> ilog2 x"
  using ilog2_bounds(2) [of x] powi_2_less [of k "ilog2 x + 1"] by linarith

lemma rne_near: "\<lfloor>y\<rfloor> \<le> rne y" "rne y \<le> \<lfloor>y\<rfloor> + 1"
  by (simp_all add: rne_def Let_def)

lemma rne_of_int [simp]: "rne (of_int k) = k"
  by (simp add: rne_def)

lemma rne_mono:
  assumes "y \<le> z" shows "rne y \<le> rne z"
proof (cases "\<lfloor>y\<rfloor> = \<lfloor>z\<rfloor>")
  case True
  then show ?thesis using assms by (auto simp: rne_def Let_def)
next
  case False
  with floor_mono [OF assms] have "\<lfloor>y\<rfloor> + 1 \<le> \<lfloor>z\<rfloor>" by linarith
  with rne_near [of y] rne_near [of z] show ?thesis by linarith
qed

lemma rne_le_int: "y \<le> of_int k \<Longrightarrow> rne y \<le> k"
  using rne_mono [of y "of_int k"] by simp

lemma rne_ge_int: "of_int k \<le> y \<Longrightarrow> k \<le> rne y"
  using rne_mono [of "of_int k" y] by simp

lemma rnd_pos_nonneg: "0 < x \<Longrightarrow> 0 \<le> rnd_pos x"
  unfolding rnd_pos_def by (intro mult_nonneg_nonneg) (simp_all add: rne_ge_int)

lemma powi_2_grid: "q \<le> k \<Longrightarrow> (2 :: rat) powi k = of_int (2 ^ nat (k - q)) * 2 powi q"
  by (simp add: power_int_add [symmetric] flip: power_int_of_nat)

lemma rnd_pos_exact:
  assumes "x = of_int m * 2 powi j" "qexp x \<le> j"
  shows "rnd_pos x = x"
proof -
  let ?k = "m * 2 ^ nat (j - qexp x)"
  have e: "x = of_int ?k * 2 powi qexp x"
    using assms(1) powi_2_grid [OF assms(2)] by simp
  then have "x / 2 powi qexp x = of_int ?k"
    by (metis powi_2_pos less_irrefl nonzero_mult_div_cancel_right)
  then have "rne (x / 2 powi qexp x) = ?k" by (metis rne_of_int)
  then show ?thesis unfolding rnd_pos_def using e by metis
qed

lemma rnd_pos_grid_le:
  assumes "x \<le> of_int m * 2 powi j" "qexp x \<le> j"
  shows "rnd_pos x \<le> of_int m * 2 powi j"
proof -
  let ?k = "m * 2 ^ nat (j - qexp x)"
  have e: "of_int m * 2 powi j = of_int ?k * (2 :: rat) powi qexp x"
    using powi_2_grid [OF assms(2)] by simp
  have "x / 2 powi qexp x \<le> of_int ?k"
    using assms(1) unfolding e by (simp add: pos_divide_le_eq)
  then have "rne (x / 2 powi qexp x) \<le> ?k" by (rule rne_le_int)
  then have "(of_int (rne (x / 2 powi qexp x)) :: rat) \<le> of_int ?k"
    by (simp only: of_int_le_iff)
  then show ?thesis
    unfolding e rnd_pos_def by (intro mult_right_mono) simp_all
qed

lemma rnd_pos_grid_ge:
  assumes "of_int m * 2 powi j \<le> x" "qexp x \<le> j"
  shows "of_int m * 2 powi j \<le> rnd_pos x"
proof -
  let ?k = "m * 2 ^ nat (j - qexp x)"
  have e: "of_int m * 2 powi j = of_int ?k * (2 :: rat) powi qexp x"
    using powi_2_grid [OF assms(2)] by simp
  have "of_int ?k \<le> x / 2 powi qexp x"
    using assms(1) unfolding e by (simp add: pos_le_divide_eq)
  then have "?k \<le> rne (x / 2 powi qexp x)" by (rule rne_ge_int)
  then have "(of_int ?k :: rat) \<le> of_int (rne (x / 2 powi qexp x))"
    by (simp only: of_int_le_iff)
  then show ?thesis
    unfolding e rnd_pos_def by (intro mult_right_mono) simp_all
qed

lemma rnd_pos_mono:
  assumes "0 < x" "x \<le> y"
  shows "rnd_pos x \<le> rnd_pos y"
proof (cases "qexp x = qexp y")
  case True
  have "x / 2 powi qexp x \<le> y / 2 powi qexp x"
    using assms by (simp add: divide_right_mono)
  then show ?thesis
    unfolding rnd_pos_def True by (intro mult_right_mono) (simp_all add: rne_mono)
next
  case False
  have y: "0 < y" using assms by simp
  have "ilog2 x \<le> ilog2 y"
    using ilog2_ge [OF y, of "ilog2 x"] ilog2_bounds(1) [OF assms(1)] assms(2) by linarith
  with False have lt: "qexp x < qexp y" "qexp y = ilog2 y - 52" "qexp x \<le> ilog2 y"
    "ilog2 x < ilog2 y"
    by (auto simp: qexp_def max_def split: if_splits)
  have "x < 2 powi ilog2 y"
    using ilog2_bounds(2) [OF assms(1)] power_int_increasing [of "ilog2 x + 1" "ilog2 y" "2 :: rat"]
      lt(4) by simp
  then have "rnd_pos x \<le> of_int 1 * 2 powi ilog2 y"
    using lt by (intro rnd_pos_grid_le) simp_all
  also have "\<dots> \<le> rnd_pos y"
    using ilog2_bounds(1) [OF y] lt by (intro rnd_pos_grid_ge) simp_all
  finally show ?thesis .
qed

lemma rnd_mono:
  assumes "x \<le> y" shows "rnd x \<le> rnd y"
proof -
  consider "0 < x" | "x \<le> 0" "0 \<le> y" | "y < 0" using assms by linarith
  then show ?thesis
  proof cases
    case 1
    then show ?thesis using assms rnd_pos_mono [of x y] by (simp add: rnd_def)
  next
    case 2
    then have "rnd x \<le> 0" "0 \<le> rnd y"
      using rnd_pos_nonneg [of y] rnd_pos_nonneg [of "- x"] by (simp_all add: rnd_def)
    then show ?thesis by linarith
  next
    case 3
    then show ?thesis using assms rnd_pos_mono [of "- y" "- x"] by (simp add: rnd_def)
  qed
qed

lemma rnd_0 [simp]: "rnd 0 = 0"
  by (simp add: rnd_def)

lemma rnd_minus: "rnd (- x) = - rnd x"
  by (simp add: rnd_def)

lemma rnd_nonneg: "0 \<le> x \<Longrightarrow> 0 \<le> rnd x"
  using rnd_mono [of 0 x] by simp

text \<open>A number on a grid of at most 53 significant bits is not changed.\<close>

lemma rnd_grid:
  assumes "\<bar>m\<bar> \<le> 2 ^ 53" "- 1074 \<le> j"
  shows "rnd (of_int m * 2 powi j) = of_int m * 2 powi j"
proof -
  have pos: "rnd_pos x = x" if x: "x = of_int n * 2 powi j" and n: "0 < n" "n \<le> 2 ^ 53" for x n
  proof (cases "n = 2 ^ 53")
    case True
    then have "x = of_int 1 * 2 powi (j + 53)"
      using x by (simp add: power_int_add mult.commute)
    moreover have "ilog2 x < j + 54"
      using calculation by (intro ilog2_less) (simp_all add: powi_2_less)
    ultimately show ?thesis
      using assms(2) by (intro rnd_pos_exact [of x 1 "j + 53"]) (auto simp: qexp_def)
  next
    case False
    with n have "n < 2 ^ 53" by simp
    then have "(of_int n :: rat) < of_int (2 ^ 53)" by (simp only: of_int_less_iff)
    then have "of_int n * 2 powi j < (2 :: rat) powi 53 * 2 powi j"
      by (intro mult_strict_right_mono) simp_all
    then have "x < 2 powi (53 + j)" by (simp add: x power_int_add)
    then have "ilog2 x < 53 + j" using n by (intro ilog2_less) (simp_all add: x)
    then show ?thesis
      using assms(2) by (intro rnd_pos_exact [OF x]) (auto simp: qexp_def)
  qed
  consider "m = 0" | "0 < m" | "m < 0" by linarith
  then show ?thesis
  proof cases
    case 2
    then show ?thesis using pos [of _ m] assms by (simp add: rnd_def)
  next
    case 3
    then have "rnd_pos (- (of_int m * 2 powi j)) = - (of_int m * 2 powi j)"
      using pos [of _ "- m"] assms by simp
    moreover have "of_int m * (2 :: rat) powi j < 0" using 3 by (simp add: mult_neg_pos)
    ultimately show ?thesis by (simp add: rnd_def)
  qed simp
qed

lemma rnd_idem [simp]: "rnd (rnd x) = rnd x"
proof -
  have pos: "rnd (rnd_pos y) = rnd_pos y" if y: "0 < y" for y
  proof -
    have "ilog2 y + 1 \<le> qexp y + 53" by (simp add: qexp_def)
    then have "(2 :: rat) powi (ilog2 y + 1) \<le> 2 powi (qexp y + 53)"
      by (intro power_int_increasing) simp_all
    with ilog2_bounds(2) [OF y] have "y \<le> 2 powi (qexp y + 53)" by linarith
    then have "y / 2 powi qexp y \<le> of_int (2 ^ 53)"
      by (simp add: pos_divide_le_eq power_int_add mult.commute)
    then have "rne (y / 2 powi qexp y) \<le> 2 ^ 53" by (rule rne_le_int)
    moreover have "0 \<le> rne (y / 2 powi qexp y)"
      using y by (intro rne_ge_int) simp
    ultimately show ?thesis
      unfolding rnd_pos_def by (intro rnd_grid) (auto simp: qexp_def)
  qed
  show ?thesis
    using pos [of x] pos [of "- x"] by (auto simp: rnd_def [of x] rnd_minus)
qed

section \<open>Facts the components use\<close>

lemma round64_mono: "x \<le> y \<Longrightarrow> f64_le (round64 x) (round64 y)"
  using rnd_mono [of x y] by (auto simp: round64_def Let_def)

lemma round64_not_NaN [simp]: "round64 x \<noteq> NaN"
  by (simp add: round64_def Let_def)

lemma f64_le_PosInf [simp]: "f64_le x PosInf \<longleftrightarrow> x \<noteq> NaN"
  by (cases x) auto

lemma round64_0 [simp]: "round64 0 = Fin 0"
  by (simp add: round64_def)

lemma wf64_round64 [simp]: "wf64 (round64 x)"
  by (simp add: round64_def Let_def abs_less_iff not_le)

lemma round64_wf64: "wf64 (Fin a) \<Longrightarrow> round64 a = Fin a"
  by (auto simp: round64_def Let_def abs_less_iff)

lemma round64_nonneg: "0 \<le> x \<Longrightarrow> f64_nonneg (round64 x)"
  using round64_mono [of 0 x] by simp

lemma wf64_add [simp]: "wf64 (f64_add x y)"
  by (cases x; cases y) auto

lemma f64_add_nonneg: "f64_nonneg x \<Longrightarrow> f64_nonneg y \<Longrightarrow> f64_nonneg (f64_add x y)"
  by (cases x; cases y) (auto intro: round64_nonneg)

lemma f64_le_Fin_finite: "f64_le x (Fin b) \<Longrightarrow> f64_nonneg x \<Longrightarrow> \<exists>a. x = Fin a \<and> a \<le> b"
  by (cases x) auto

text \<open>Addition of non-negative amounts is monotone in both arguments.\<close>

lemma f64_add_mono:
  assumes "f64_le a b" "f64_le c d" "f64_nonneg a" "f64_nonneg c"
  shows "f64_le (f64_add a c) (f64_add b d)"
  using assms
  by (cases a; cases b; cases c; cases d) (auto intro: round64_mono)

lemma f64_add_ge:
  assumes "wf64 a" "f64_nonneg a" "f64_nonneg c"
  shows "f64_le a (f64_add a c)"
proof (cases a)
  case (Fin x)
  show ?thesis
  proof (cases c)
    case (Fin y)
    have "f64_le (round64 x) (round64 (x + y))"
      using assms(3) by (intro round64_mono) (simp add: Fin)
    then show ?thesis
      using assms(1) round64_wf64 [of x] by (simp add: Fin \<open>a = Fin x\<close>)
  qed (use assms Fin in auto)
qed (use assms in \<open>cases c; auto\<close>)+

lemma f64_add_zero: "wf64 a \<Longrightarrow> a \<noteq> NaN \<Longrightarrow> f64_add a (Fin 0) = a"
  by (cases a) (simp_all add: round64_wf64)

text \<open>Exact values: a dyadic rational of at most 53 bits is its own rounding, so amounts in whole
  or binary-fraction dollars are computed exactly.\<close>

lemma round64_dyadic:
  assumes "x * 2 ^ k = of_int m" "\<bar>m\<bar> \<le> 2 ^ 53" "k \<le> 1074"
  shows "round64 x = Fin x"
proof -
  have x: "x = of_int m * 2 powi (- int k)"
    using assms(1) by (simp add: power_int_minus field_simps)
  have "rnd x = x"
    using assms(2,3) unfolding x by (intro rnd_grid) simp_all
  moreover have "\<bar>x\<bar> \<le> of_int (2 ^ 53)"
  proof -
    have "\<bar>x\<bar> * 1 \<le> \<bar>x\<bar> * 2 ^ k" by (intro mult_left_mono) simp_all
    also have "\<dots> = \<bar>x * 2 ^ k\<bar>" by (simp add: abs_mult)
    also have "\<dots> = of_int \<bar>m\<bar>" unfolding assms(1) by simp
    also have "\<dots> \<le> of_int (2 ^ 53)" using assms(2) by (simp only: of_int_le_iff)
    finally show ?thesis by simp
  qed
  ultimately show ?thesis by (intro round64_wf64) simp
qed

lemma round64_int: "\<bar>m\<bar> \<le> 2 ^ 53 \<Longrightarrow> round64 (of_int m) = Fin (of_int m)"
  by (rule round64_dyadic [of _ 0]) simp_all

lemma round64_numeral [simp]:
  "numeral n \<le> (2 ^ 53 :: int) \<Longrightarrow> round64 (numeral n) = Fin (numeral n)"
  using round64_int [of "numeral n"] by simp

lemma round64_1 [simp]: "round64 1 = Fin 1"
  using round64_int [of 1] by simp

lemma wf64_Fin_int: "\<bar>m\<bar> \<le> 2 ^ 53 \<Longrightarrow> wf64 (Fin (of_int m))"
  using wf64_round64 [of "of_int m"] by (simp only: round64_int)

lemma wf64_0 [simp]: "wf64 (Fin 0)"
  by simp

end
