(* ===== verification/Keys.thy ===== *)
theory Keys
  imports Civil_Time Float64
begin

text \<open>
  \<open>internal/keys/keys.go\<close>: virtual keys, patches, identifiers and the in-memory store. \<open>Memory\<close>
  keeps one heap cell per key, which \<open>byID\<close> and \<open>byToken\<close> both point to; the heap is explicit here,
  since a revocation through the ID must be seen by a lookup through the token. Results with an
  error are sums with the error on the left, nil pointers are options, Go's unspecified iteration
  order of a map is an argument. The locale \<open>key_store\<close> is the interface \<open>Store\<close>, stated over the
  abstract content of a store (the key of each ID) and interpreted on \<open>Memory\<close>.
\<close>

record VirtualKey =
  ID :: string
  Token :: string
  Name :: string
  Upstream :: string
  UpstreamKey :: string
  DailyBudgetUSD :: f64
  MonthBudgetUSD :: f64
  UpstreamBaseURL :: string
  RPSLimit :: i64
  RPMLimit :: i64
  MaxConcurrent :: i64
  UpstreamTimeoutSeconds :: i64
  CreatedAt :: instant
  RevokedAt :: "instant option"
  ExpiresAt :: "instant option"

record KeyPatch =
  p_Name :: "string option"
  p_DailyBudgetUSD :: "f64 option"
  p_MonthBudgetUSD :: "f64 option"
  p_RPSLimit :: "i64 option"
  p_RPMLimit :: "i64 option"
  p_MaxConcurrent :: "i64 option"
  p_UpstreamBaseURL :: "string option"
  p_UpstreamTimeoutSeconds :: "i64 option"
  p_ExpiresAt :: "instant option"
  p_ClearExpiresAt :: bool

datatype keys_error = ErrNotFound | ErrRevoked | NilKey | MissingIDOrToken
  | UnsupportedUpstream string | IDExists string | TokenCollision | StoreFailure string

definition UpstreamOpenAI :: string where "UpstreamOpenAI = ''openai''"
definition UpstreamAnthropic :: string where "UpstreamAnthropic = ''anthropic''"
definition idPrefix :: string where "idPrefix = ''key_''"
definition tokenPrefix :: string where "tokenPrefix = ''rein_live_''"

definition IsRevoked :: "VirtualKey option \<Rightarrow> bool" where
  "IsRevoked k = (case k of None \<Rightarrow> False | Some k \<Rightarrow> RevokedAt k \<noteq> None)"

definition IsExpired :: "VirtualKey option \<Rightarrow> instant \<Rightarrow> bool" where
  "IsExpired k now = (case k of None \<Rightarrow> False
     | Some k \<Rightarrow> (case ExpiresAt k of None \<Rightarrow> False | Some e \<Rightarrow> \<not> now < e))"

definition ApplyTo :: "KeyPatch \<Rightarrow> VirtualKey \<Rightarrow> VirtualKey" where
  "ApplyTo p k =
     (let k = (case p_Name p of None \<Rightarrow> k | Some v \<Rightarrow> k\<lparr>Name := v\<rparr>);
          k = (case p_DailyBudgetUSD p of None \<Rightarrow> k | Some v \<Rightarrow> k\<lparr>DailyBudgetUSD := v\<rparr>);
          k = (case p_MonthBudgetUSD p of None \<Rightarrow> k | Some v \<Rightarrow> k\<lparr>MonthBudgetUSD := v\<rparr>);
          k = (case p_RPSLimit p of None \<Rightarrow> k | Some v \<Rightarrow> k\<lparr>RPSLimit := v\<rparr>);
          k = (case p_RPMLimit p of None \<Rightarrow> k | Some v \<Rightarrow> k\<lparr>RPMLimit := v\<rparr>);
          k = (case p_MaxConcurrent p of None \<Rightarrow> k | Some v \<Rightarrow> k\<lparr>MaxConcurrent := v\<rparr>);
          k = (case p_UpstreamBaseURL p of None \<Rightarrow> k | Some v \<Rightarrow> k\<lparr>UpstreamBaseURL := v\<rparr>);
          k = (case p_UpstreamTimeoutSeconds p of None \<Rightarrow> k
               | Some v \<Rightarrow> k\<lparr>UpstreamTimeoutSeconds := v\<rparr>)
      in if p_ClearExpiresAt p then k\<lparr>ExpiresAt := None\<rparr>
         else case p_ExpiresAt p of None \<Rightarrow> k | Some e \<Rightarrow> k\<lparr>ExpiresAt := Some e\<rparr>)"

section \<open>Identifiers\<close>

definition hex_digit :: "nat \<Rightarrow> char" where
  "hex_digit n = ''0123456789abcdef'' ! n"

definition hex_EncodeToString :: "8 word list \<Rightarrow> string" where
  "hex_EncodeToString bs = concat (map (\<lambda>b. [hex_digit (unat b div 16), hex_digit (unat b mod 16)]) bs)"

text \<open>The argument is the outcome of \<open>rand.Read\<close> on a buffer of \<open>n\<close> bytes.\<close>

definition randomHex :: "string + 8 word list \<Rightarrow> string + string" where
  "randomHex r = (case r of Inl err \<Rightarrow> Inl err | Inr buf \<Rightarrow> Inr (hex_EncodeToString buf))"

definition GenerateID :: "(nat \<Rightarrow> string + 8 word list) \<Rightarrow> string + string" where
  "GenerateID rand_Read = (case randomHex (rand_Read 8) of Inl err \<Rightarrow> Inl err | Inr b \<Rightarrow> Inr (idPrefix @ b))"

definition GenerateToken :: "(nat \<Rightarrow> string + 8 word list) \<Rightarrow> string + string" where
  "GenerateToken rand_Read =
     (case randomHex (rand_Read 32) of Inl err \<Rightarrow> Inl err | Inr b \<Rightarrow> Inr (tokenPrefix @ b))"

definition IsReinToken :: "string \<Rightarrow> bool" where
  "IsReinToken s = HasPrefix s tokenPrefix"

text \<open>The pattern \<open>^key_[a-f0-9]{16}$\<close>; in Go's syntax \<open>$\<close> matches at the end of the text only.\<close>

definition hex_char :: "char \<Rightarrow> bool" where
  "hex_char c = (c \<in> set ''abcdef0123456789'')"

definition ValidID :: "string \<Rightarrow> bool" where
  "ValidID s = (HasPrefix s ''key_'' \<and> length (drop 4 s) = 16 \<and> list_all hex_char (drop 4 s))"

section \<open>The in-memory store\<close>

record keys_memory =
  byID :: "string \<Rightarrow> nat option"
  byToken :: "string \<Rightarrow> nat option"
  cells :: "nat \<Rightarrow> VirtualKey option"
  next_cell :: nat

definition keys_NewMemory :: keys_memory where
  "keys_NewMemory = \<lparr>byID = (\<lambda>_. None), byToken = (\<lambda>_. None), cells = (\<lambda>_. None), next_cell = 0\<rparr>"

definition deref :: "keys_memory \<Rightarrow> nat \<Rightarrow> VirtualKey" where
  "deref m a = the (cells m a)"

definition assign :: "keys_memory \<Rightarrow> nat \<Rightarrow> VirtualKey \<Rightarrow> keys_memory" where
  "assign m a k = m\<lparr>cells := (cells m)(a \<mapsto> k)\<rparr>"

definition keys_Create :: "keys_memory \<Rightarrow> VirtualKey option \<Rightarrow> keys_memory \<times> (keys_error + unit)" where
  "keys_Create m k = (case k of None \<Rightarrow> (m, Inl NilKey) | Some k \<Rightarrow>
     if ID k = '''' \<or> Token k = '''' then (m, Inl MissingIDOrToken)
     else if Upstream k \<noteq> UpstreamOpenAI \<and> Upstream k \<noteq> UpstreamAnthropic
       then (m, Inl (UnsupportedUpstream (Upstream k)))
     else if byID m (ID k) \<noteq> None then (m, Inl (IDExists (ID k)))
     else if byToken m (Token k) \<noteq> None then (m, Inl TokenCollision)
     else let cp = next_cell m
          in (m\<lparr>cells := (cells m)(cp \<mapsto> k), next_cell := Suc cp,
                byID := (byID m)(ID k \<mapsto> cp), byToken := (byToken m)(Token k \<mapsto> cp)\<rparr>, Inr ()))"

definition keys_GetByToken :: "keys_memory \<Rightarrow> string \<Rightarrow> keys_error + VirtualKey" where
  "keys_GetByToken m token =
     (case byToken m token of None \<Rightarrow> Inl ErrNotFound | Some a \<Rightarrow> Inr (deref m a))"

definition keys_GetByID :: "keys_memory \<Rightarrow> string \<Rightarrow> keys_error + VirtualKey" where
  "keys_GetByID m kid = (case byID m kid of None \<Rightarrow> Inl ErrNotFound | Some a \<Rightarrow> Inr (deref m a))"

text \<open>\<open>ids\<close> is the order in which the range loop visits the keys of \<open>byID\<close>.\<close>

definition range_order :: "('k \<Rightarrow> 'v option) \<Rightarrow> 'k list \<Rightarrow> bool" where
  "range_order m ids \<longleftrightarrow> distinct ids \<and> set ids = dom m"

definition keys_List :: "keys_memory \<Rightarrow> string list \<Rightarrow> keys_error + VirtualKey list" where
  "keys_List m ids = Inr (map (\<lambda>kid. deref m (the (byID m kid))) ids)"

definition keys_Revoke :: "keys_memory \<Rightarrow> instant \<Rightarrow> string \<Rightarrow> keys_memory \<times> (keys_error + unit)" where
  "keys_Revoke m now kid = (case byID m kid of None \<Rightarrow> (m, Inl ErrNotFound)
     | Some a \<Rightarrow> (assign m a ((deref m a)\<lparr>RevokedAt := Some now\<rparr>), Inr ()))"

definition keys_RevokeAt :: "keys_memory \<Rightarrow> string \<Rightarrow> instant \<Rightarrow> keys_memory \<times> (keys_error + unit)" where
  "keys_RevokeAt m kid ts = (case byID m kid of None \<Rightarrow> (m, Inl ErrNotFound)
     | Some a \<Rightarrow> if RevokedAt (deref m a) \<noteq> None then (m, Inr ())
                 else (assign m a ((deref m a)\<lparr>RevokedAt := Some ts\<rparr>), Inr ()))"

text \<open>The loop body of \<open>ListExpiring\<close>: whether a key is appended.\<close>

definition expiring :: "instant \<Rightarrow> VirtualKey \<Rightarrow> bool" where
  "expiring asOf k = (if RevokedAt k \<noteq> None then False
     else case ExpiresAt k of None \<Rightarrow> False | Some e \<Rightarrow> \<not> asOf < e)"

definition keys_ListExpiring :: "keys_memory \<Rightarrow> string list \<Rightarrow> instant \<Rightarrow> keys_error + VirtualKey list" where
  "keys_ListExpiring m ids asOf =
     Inr (filter (expiring asOf) (map (\<lambda>kid. deref m (the (byID m kid))) ids))"

definition keys_Update :: "keys_memory \<Rightarrow> string \<Rightarrow> KeyPatch \<Rightarrow> keys_memory \<times> (keys_error + VirtualKey)" where
  "keys_Update m kid patch = (case byID m kid of None \<Rightarrow> (m, Inl ErrNotFound)
     | Some a \<Rightarrow> if IsRevoked (Some (deref m a)) then (m, Inl ErrRevoked)
                 else let k = ApplyTo patch (deref m a) in (assign m a k, Inr k))"

section \<open>The interface\<close>

text \<open>A state-changing call of a store, and its effect on the state.\<close>

datatype key_op = OpCreate "VirtualKey option" | OpRevoke instant string
  | OpRevokeAt string instant | OpUpdate string KeyPatch

fun key_effect :: "('s \<Rightarrow> VirtualKey option \<Rightarrow> 's \<times> (keys_error + unit)) \<Rightarrow>
    ('s \<Rightarrow> instant \<Rightarrow> string \<Rightarrow> 's \<times> (keys_error + unit)) \<Rightarrow>
    ('s \<Rightarrow> string \<Rightarrow> instant \<Rightarrow> 's \<times> (keys_error + unit)) \<Rightarrow>
    ('s \<Rightarrow> string \<Rightarrow> KeyPatch \<Rightarrow> 's \<times> (keys_error + VirtualKey)) \<Rightarrow> 's \<Rightarrow> key_op \<Rightarrow> 's" where
  "key_effect create revoke revokeAt update s (OpCreate k) = fst (create s k)"
| "key_effect create revoke revokeAt update s (OpRevoke now i) = fst (revoke s now i)"
| "key_effect create revoke revokeAt update s (OpRevokeAt i ts) = fst (revokeAt s i ts)"
| "key_effect create revoke revokeAt update s (OpUpdate i p) = fst (update s i p)"

text \<open>How a stored key may develop: its identity and credentials never change, and once revoked
  nothing but the revocation time does.\<close>

definition key_evolves :: "VirtualKey \<Rightarrow> VirtualKey \<Rightarrow> bool" where
  "key_evolves k k' \<longleftrightarrow> ID k' = ID k \<and> Token k' = Token k \<and> Upstream k' = Upstream k \<and>
     UpstreamKey k' = UpstreamKey k \<and> CreatedAt k' = CreatedAt k \<and>
     (RevokedAt k \<noteq> None \<longrightarrow> (\<exists>t. k' = k\<lparr>RevokedAt := Some t\<rparr>))"

lemma ApplyTo_keeps [simp]:
  "ID (ApplyTo p k) = ID k" "Token (ApplyTo p k) = Token k" "Upstream (ApplyTo p k) = Upstream k"
  "UpstreamKey (ApplyTo p k) = UpstreamKey k" "CreatedAt (ApplyTo p k) = CreatedAt k"
  "RevokedAt (ApplyTo p k) = RevokedAt k"
  by (simp_all add: ApplyTo_def Let_def split: option.split)

lemma RevokedAt_idem: "RevokedAt k = Some t \<Longrightarrow> k\<lparr>RevokedAt := Some t\<rparr> = k"
  by (cases k) simp

lemma key_evolves_refl [simp]: "key_evolves k k"
  by (auto simp: key_evolves_def intro: RevokedAt_idem [symmetric])

lemma key_evolves_trans: "key_evolves k k' \<Longrightarrow> key_evolves k' k'' \<Longrightarrow> key_evolves k k''"
proof (cases "RevokedAt k")
  case None
  then show "key_evolves k k' \<Longrightarrow> key_evolves k' k'' \<Longrightarrow> key_evolves k k''" by (simp add: key_evolves_def)
next
  case (Some t)
  assume a: "key_evolves k k'" "key_evolves k' k''"
  then obtain t' where k': "k' = k\<lparr>RevokedAt := Some t'\<rparr>" using Some by (auto simp: key_evolves_def)
  then obtain t'' where "k'' = k'\<lparr>RevokedAt := Some t''\<rparr>" using a(2) by (auto simp: key_evolves_def)
  with k' show ?thesis unfolding key_evolves_def by (intro conjI impI exI [of _ t'']) simp_all
qed

lemma key_evolves_Revoke [simp]: "key_evolves k (k\<lparr>RevokedAt := Some t\<rparr>)"
  by (auto simp: key_evolves_def)

lemma key_evolves_ApplyTo: "RevokedAt k = None \<Longrightarrow> key_evolves k (ApplyTo p k)"
  by (simp add: key_evolves_def)

text \<open>The contract of \<open>Store\<close> over the abstract content of a store, \<open>abs s id\<close>: what a lookup
  finds, what each update changes, and that a failed update changes nothing. \<open>inv\<close> is the
  representation invariant of the implementation.\<close>

locale key_store =
  fixes inv :: "'s \<Rightarrow> bool"
    and abs :: "'s \<Rightarrow> string \<Rightarrow> VirtualKey option"
    and create :: "'s \<Rightarrow> VirtualKey option \<Rightarrow> 's \<times> (keys_error + unit)"
    and getByToken :: "'s \<Rightarrow> string \<Rightarrow> keys_error + VirtualKey"
    and getByID :: "'s \<Rightarrow> string \<Rightarrow> keys_error + VirtualKey"
    and revoke :: "'s \<Rightarrow> instant \<Rightarrow> string \<Rightarrow> 's \<times> (keys_error + unit)"
    and revokeAt :: "'s \<Rightarrow> string \<Rightarrow> instant \<Rightarrow> 's \<times> (keys_error + unit)"
    and update :: "'s \<Rightarrow> string \<Rightarrow> KeyPatch \<Rightarrow> 's \<times> (keys_error + VirtualKey)"
  assumes ID_abs: "inv s \<Longrightarrow> abs s i = Some k \<Longrightarrow> ID k = i"
    and token_abs: "inv s \<Longrightarrow> abs s i = Some k \<Longrightarrow> abs s j = Some k' \<Longrightarrow> Token k = Token k' \<Longrightarrow> i = j"
    and getByID_abs: "inv s \<Longrightarrow> getByID s i = Inr k \<Longrightarrow> abs s i = Some k"
    and getByToken_abs: "inv s \<Longrightarrow> getByToken s t = Inr k \<Longrightarrow> abs s (ID k) = Some k \<and> Token k = t"
    and create_ok: "inv s \<Longrightarrow> create s (Some k) = (s', Inr ()) \<Longrightarrow>
      inv s' \<and> abs s (ID k) = None \<and> (\<exists>k'. abs s' = (abs s)(ID k \<mapsto> k') \<and> ID k' = ID k \<and> Token k' = Token k \<and>
        (RevokedAt k = None \<longrightarrow> k' = k))"
    and create_nil: "create s None = (s, Inl NilKey)"
    and create_fails: "inv s \<Longrightarrow> create s (Some k) = (s', Inl e) \<Longrightarrow> inv s' \<and> abs s' = abs s"
    and revoke_ok: "inv s \<Longrightarrow> revoke s now i = (s', Inr ()) \<Longrightarrow>
      inv s' \<and> (\<exists>k t. abs s i = Some k \<and> (RevokedAt k = None \<longrightarrow> t = now) \<and> abs s' = (abs s)(i \<mapsto> k\<lparr>RevokedAt := Some t\<rparr>))"
    and revoke_fails: "inv s \<Longrightarrow> revoke s now i = (s', Inl e) \<Longrightarrow> inv s' \<and> abs s' = abs s"
    and revokeAt_ok: "inv s \<Longrightarrow> revokeAt s i ts = (s', Inr ()) \<Longrightarrow>
      inv s' \<and> (\<exists>k. abs s i = Some k \<and>
        abs s' = (abs s)(i \<mapsto> (if RevokedAt k = None then k\<lparr>RevokedAt := Some ts\<rparr> else k)))"
    and revokeAt_fails: "inv s \<Longrightarrow> revokeAt s i ts = (s', Inl e) \<Longrightarrow> inv s' \<and> abs s' = abs s"
    and update_ok: "inv s \<Longrightarrow> update s i p = (s', Inr k') \<Longrightarrow>
      inv s' \<and> (\<exists>k. abs s i = Some k \<and> RevokedAt k = None \<and> k' = ApplyTo p k \<and> abs s' = (abs s)(i \<mapsto> k'))"
    and update_fails: "inv s \<Longrightarrow> update s i p = (s', Inl e) \<Longrightarrow> inv s' \<and> abs s' = abs s"
begin

abbreviation "effect \<equiv> key_effect create revoke revokeAt update"

lemma effect_step:
  assumes "inv s" "abs s i = Some k"
  shows "inv (effect s op) \<and> (\<exists>k'. abs (effect s op) i = Some k' \<and> key_evolves k k')"
proof (cases op)
  case (OpCreate x)
  then show ?thesis
    using assms create_nil create_ok [OF assms(1)] create_fails [OF assms(1)]
    by (cases x; cases "create s x"; cases "snd (create s x)") (fastforce split: if_splits)+
next
  case (OpRevoke now j)
  then show ?thesis
    using assms revoke_ok [OF assms(1), of now j] revoke_fails [OF assms(1), of now j]
    by (cases "revoke s now j"; cases "snd (revoke s now j)") fastforce+
next
  case (OpRevokeAt j t)
  then show ?thesis
    using assms revokeAt_ok [OF assms(1), of j t] revokeAt_fails [OF assms(1), of j t]
    by (cases "revokeAt s j t"; cases "snd (revokeAt s j t)") fastforce+
next
  case (OpUpdate j p)
  then show ?thesis
    using assms update_ok [OF assms(1), of j p] update_fails [OF assms(1), of j p] key_evolves_ApplyTo
    by (cases "update s j p"; cases "snd (update s j p)") fastforce+
qed

lemma effects_step:
  "inv s \<Longrightarrow> abs s i = Some k \<Longrightarrow>
    inv (foldl effect s ops) \<and> (\<exists>k'. abs (foldl effect s ops) i = Some k' \<and> key_evolves k k')"
proof (induction ops arbitrary: s k)
  case (Cons op ops)
  then obtain k' where "inv (effect s op)" "abs (effect s op) i = Some k'" "key_evolves k k'"
    using effect_step by blast
  with Cons.IH [of "effect s op" k'] show ?case using key_evolves_trans by auto
qed simp

end

text \<open>A store whose listing of expired keys is exact.\<close>

locale expiring_store = key_store +
  fixes listExpiring :: "'a \<Rightarrow> string list \<Rightarrow> instant \<Rightarrow> keys_error + VirtualKey list"
  assumes listExpiring_ok: "inv s \<Longrightarrow> range_order (abs s) ord \<Longrightarrow> listExpiring s ord asOf = Inr ks \<Longrightarrow>
      distinct ks \<and> set ks = {k. abs s (ID k) = Some k \<and> expiring asOf k}"

section \<open>Memory implements the interface\<close>

definition keys_abs :: "keys_memory \<Rightarrow> string \<Rightarrow> VirtualKey option" where
  "keys_abs m i = (case byID m i of None \<Rightarrow> None | Some a \<Rightarrow> cells m a)"

definition keys_inv :: "keys_memory \<Rightarrow> bool" where
  "keys_inv m \<longleftrightarrow>
     (\<forall>i a. byID m i = Some a \<longrightarrow> a < next_cell m \<and>
        (\<exists>k. cells m a = Some k \<and> ID k = i \<and> byToken m (Token k) = Some a)) \<and>
     (\<forall>t a. byToken m t = Some a \<longrightarrow> (\<exists>k. cells m a = Some k \<and> Token k = t \<and> byID m (ID k) = Some a))"

lemma keys_inv_NewMemory [intro]: "keys_inv keys_NewMemory"
  by (simp add: keys_inv_def keys_NewMemory_def)

lemma keys_abs_NewMemory [simp]: "keys_abs keys_NewMemory = (\<lambda>_. None)"
  by (simp add: keys_abs_def keys_NewMemory_def fun_eq_iff)

lemma keys_invD:
  assumes "keys_inv m"
  shows "byID m i = Some a \<Longrightarrow> \<exists>k. cells m a = Some k \<and> ID k = i \<and> byToken m (Token k) = Some a \<and> a < next_cell m"
    "byToken m t = Some a \<Longrightarrow> \<exists>k. cells m a = Some k \<and> Token k = t \<and> byID m (ID k) = Some a"
  using assms by (auto simp: keys_inv_def)

lemma keys_invI:
  assumes "\<And>i a. byID m i = Some a \<Longrightarrow> a < next_cell m \<and>
      (\<exists>k. cells m a = Some k \<and> ID k = i \<and> byToken m (Token k) = Some a)"
    "\<And>t a. byToken m t = Some a \<Longrightarrow> \<exists>k. cells m a = Some k \<and> Token k = t \<and> byID m (ID k) = Some a"
  shows "keys_inv m"
  using assms by (simp add: keys_inv_def)

lemma keys_deref: "keys_inv m \<Longrightarrow> byID m i = Some a \<Longrightarrow> keys_abs m i = Some (deref m a)"
  by (auto simp: keys_abs_def deref_def dest: keys_invD)

lemma keys_abs_byID: "keys_inv m \<Longrightarrow> keys_abs m i = None \<longleftrightarrow> byID m i = None"
  by (auto simp: keys_abs_def split: option.split dest: keys_invD)

lemma keys_deref_ID: "keys_inv m \<Longrightarrow> byID m i = Some a \<Longrightarrow> ID (deref m a) = i"
  by (auto simp: deref_def dest: keys_invD)

lemma keys_abs_ID: "keys_inv m \<Longrightarrow> keys_abs m i = Some k \<Longrightarrow> ID k = i"
  by (auto simp: keys_abs_def split: option.splits dest: keys_invD)

text \<open>Writing through a pointer that keeps ID and token is an update of the abstract content.\<close>

lemma keys_assign:
  assumes "keys_inv m" "byID m i = Some a" "ID k = i" "Token k = Token (deref m a)"
  shows "keys_inv (assign m a k)" "keys_abs (assign m a k) = (keys_abs m)(i \<mapsto> k)"
proof -
  have same: "j = i" if "byID m j = Some a" for j using keys_invD(1) [OF assms(1) that] keys_invD(1) [OF assms(1,2)] by auto
  show "keys_abs (assign m a k) = (keys_abs m)(i \<mapsto> k)"
  proof
    fix j
    show "keys_abs (assign m a k) j = ((keys_abs m)(i \<mapsto> k)) j"
      using assms(2) same [of j] by (cases "j = i") (auto simp: keys_abs_def assign_def split: option.split)
  qed
  show "keys_inv (assign m a k)"
  proof (rule keys_invI)
    fix j b assume j: "byID (assign m a k) j = Some b"
    show "b < next_cell (assign m a k) \<and> (\<exists>k'. cells (assign m a k) b = Some k' \<and> ID k' = j \<and>
        byToken (assign m a k) (Token k') = Some b)"
      using keys_invD(1) [OF assms(1), of j b] j assms(3,4) same [of j] by (cases "b = a") (auto simp: assign_def deref_def)
  next
    fix t b assume t: "byToken (assign m a k) t = Some b"
    show "\<exists>k'. cells (assign m a k) b = Some k' \<and> Token k' = t \<and> byID (assign m a k) (ID k') = Some b"
      using keys_invD(2) [OF assms(1), of t b] t assms(2,3,4) by (cases "b = a") (auto simp: assign_def deref_def)
  qed
qed

lemma keys_Create_ok:
  assumes "keys_inv m" "keys_Create m (Some k) = (m', Inr ())"
  shows "keys_inv m'" "keys_abs m (ID k) = None" "keys_abs m' = (keys_abs m)(ID k \<mapsto> k)"
proof -
  have c: "byID m (ID k) = None" "byToken m (Token k) = None"
    "m' = m\<lparr>cells := (cells m)(next_cell m \<mapsto> k), next_cell := Suc (next_cell m),
        byID := (byID m)(ID k \<mapsto> next_cell m), byToken := (byToken m)(Token k \<mapsto> next_cell m)\<rparr>"
    using assms(2) by (auto simp: keys_Create_def Let_def split: if_splits)
  have fresh: "byID m i \<noteq> Some (next_cell m)" "byToken m t \<noteq> Some (next_cell m)" for i t
    using keys_invD [OF assms(1)] by fastforce+
  show "keys_abs m (ID k) = None" using c by (simp add: keys_abs_def)
  show "keys_abs m' = (keys_abs m)(ID k \<mapsto> k)"
    using fresh(1) c by (auto simp: keys_abs_def fun_eq_iff split: option.split)
  show "keys_inv m'"
  proof (rule keys_invI)
    fix j b assume j: "byID m' j = Some b"
    show "b < next_cell m' \<and> (\<exists>k'. cells m' b = Some k' \<and> ID k' = j \<and> byToken m' (Token k') = Some b)"
    proof (cases "j = ID k")
      case False
      then have "byID m j = Some b" using j c(3) by simp
      from keys_invD(1) [OF assms(1) this] obtain k' where
        "cells m b = Some k'" "ID k' = j" "byToken m (Token k') = Some b" "b < next_cell m" by blast
      then show ?thesis using c(2,3) by (intro conjI exI [of _ k']) auto
    qed (use j c in auto)
  next
    fix t b assume t: "byToken m' t = Some b"
    show "\<exists>k'. cells m' b = Some k' \<and> Token k' = t \<and> byID m' (ID k') = Some b"
    proof (cases "t = Token k")
      case False
      then have "byToken m t = Some b" using t c(3) by simp
      from keys_invD(2) [OF assms(1) this] obtain k' where
        "cells m b = Some k'" "Token k' = t" "byID m (ID k') = Some b" by blast
      then show ?thesis using c(1,3) fresh(1) [of "ID k'"] by (intro exI [of _ k']) auto
    qed (use t c in auto)
  qed
qed

lemma keys_fails [simp]:
  "keys_Create m k = (m', Inl e) \<Longrightarrow> m' = m"
  "keys_Revoke m now i = (m', Inl e) \<Longrightarrow> m' = m"
  "keys_RevokeAt m i ts = (m', Inl e) \<Longrightarrow> m' = m"
  "keys_Update m i p = (m', Inl e) \<Longrightarrow> m' = m"
  by (auto simp: keys_Create_def keys_Revoke_def keys_RevokeAt_def keys_Update_def Let_def
    split: option.splits if_splits)

lemma keys_write:
  assumes "keys_inv m" "byID m i = Some a" "k = f (deref m a)"
    "\<And>k. ID (f k) = ID k" "\<And>k. Token (f k) = Token k"
  shows "keys_inv (assign m a k) \<and> keys_abs m i = Some (deref m a) \<and>
    keys_abs (assign m a k) = (keys_abs m)(i \<mapsto> f (deref m a))"
proof -
  have "ID k = i" "Token k = Token (deref m a)"
    using assms(3-5) keys_deref_ID [OF assms(1,2)] by simp_all
  then show ?thesis
    using keys_assign [OF assms(1,2)] keys_deref [OF assms(1,2)] assms(3) by blast
qed

lemma keys_Revoke_ok:
  assumes "keys_inv m" "keys_Revoke m now i = (m', Inr ())"
  shows "keys_inv m' \<and> (\<exists>k. keys_abs m i = Some k \<and> keys_abs m' = (keys_abs m)(i \<mapsto> k\<lparr>RevokedAt := Some now\<rparr>))"
proof (cases "byID m i")
  case (Some a)
  have "m' = assign m a ((deref m a)\<lparr>RevokedAt := Some now\<rparr>)"
    using assms(2) Some by (simp add: keys_Revoke_def)
  then show ?thesis
    using keys_write [OF assms(1) Some refl, of "\<lambda>k. k\<lparr>RevokedAt := Some now\<rparr>"] by auto
qed (use assms(2) in \<open>simp add: keys_Revoke_def\<close>)

lemma keys_RevokeAt_ok:
  assumes "keys_inv m" "keys_RevokeAt m i ts = (m', Inr ())"
  shows "keys_inv m' \<and> (\<exists>k. keys_abs m i = Some k \<and>
    keys_abs m' = (keys_abs m)(i \<mapsto> (if RevokedAt k = None then k\<lparr>RevokedAt := Some ts\<rparr> else k)))"
proof (cases "byID m i")
  case (Some a)
  note w = keys_write [OF assms(1) Some refl, of "\<lambda>k. k\<lparr>RevokedAt := Some ts\<rparr>"]
  show ?thesis
  proof (cases "RevokedAt (deref m a)")
    case None
    then have "m' = assign m a ((deref m a)\<lparr>RevokedAt := Some ts\<rparr>)"
      using assms(2) Some by (simp add: keys_RevokeAt_def)
    with w None show ?thesis by auto
  next
    case t: (Some t)
    then have "m' = m" using assms(2) Some by (simp add: keys_RevokeAt_def)
    with t assms(1) keys_deref [OF assms(1) Some] show ?thesis by (simp add: fun_upd_idem)
  qed
qed (use assms(2) in \<open>simp add: keys_RevokeAt_def\<close>)

lemma keys_Update_ok:
  assumes "keys_inv m" "keys_Update m i p = (m', Inr k')"
  shows "keys_inv m' \<and> (\<exists>k. keys_abs m i = Some k \<and> RevokedAt k = None \<and> k' = ApplyTo p k \<and>
    keys_abs m' = (keys_abs m)(i \<mapsto> k'))"
proof (cases "byID m i")
  case (Some a)
  then have "RevokedAt (deref m a) = None" "k' = ApplyTo p (deref m a)" "m' = assign m a (ApplyTo p (deref m a))"
    using assms(2) by (auto simp: keys_Update_def IsRevoked_def Let_def split: if_splits)
  then show ?thesis
    using keys_write [OF assms(1) Some refl, of "ApplyTo p"] by auto
qed (use assms(2) in \<open>simp add: keys_Update_def\<close>)

lemma keys_GetByToken_ok:
  "keys_inv m \<Longrightarrow> keys_GetByToken m t = Inr k \<longleftrightarrow> keys_abs m (ID k) = Some k \<and> Token k = t"
  unfolding keys_GetByToken_def keys_abs_def deref_def
  by (fastforce split: option.splits dest: keys_invD)

lemma keys_GetByID_ok:
  "keys_inv m \<Longrightarrow> keys_GetByID m i = (case keys_abs m i of None \<Rightarrow> Inl ErrNotFound | Some k \<Rightarrow> Inr k)"
  unfolding keys_GetByID_def keys_abs_def deref_def
  by (fastforce split: option.splits dest: keys_invD)

lemma keys_abs_token:
  assumes "keys_inv m" "keys_abs m i = Some k" "keys_abs m j = Some k'" "Token k = Token k'"
  shows "i = j"
proof -
  have "keys_GetByToken m (Token k) = Inr k" "keys_GetByToken m (Token k) = Inr k'"
    using assms keys_abs_ID [OF assms(1,2)] keys_abs_ID [OF assms(1,3)] by (simp_all add: keys_GetByToken_ok)
  then have "k = k'" by simp
  with keys_abs_ID [OF assms(1,2)] keys_abs_ID [OF assms(1,3)] show ?thesis by simp
qed

lemma keys_range:
  assumes "keys_inv m" "range_order (keys_abs m) ids"
  shows "map (\<lambda>i. deref m (the (byID m i))) ids = map (\<lambda>i. the (keys_abs m i)) ids"
  using assms by (auto simp: range_order_def keys_abs_def deref_def split: option.split)

lemma keys_ListExpiring_ok:
  assumes "keys_inv m" "range_order (keys_abs m) ids" "keys_ListExpiring m ids asOf = Inr ks"
  shows "distinct ks \<and> set ks = {k. keys_abs m (ID k) = Some k \<and> expiring asOf k}"
proof -
  let ?ks = "map (\<lambda>i. the (keys_abs m i)) ids"
  have ks: "ks = filter (expiring asOf) ?ks"
    using assms(3) keys_range [OF assms(1,2)] by (simp add: keys_ListExpiring_def)
  have "inj_on (\<lambda>i. the (keys_abs m i)) (set ids)"
  proof (rule inj_onI)
    fix i j assume ij: "i \<in> set ids" "j \<in> set ids" "the (keys_abs m i) = the (keys_abs m j)"
    then obtain k k' where "keys_abs m i = Some k" "keys_abs m j = Some k'"
      using assms(2) by (auto simp: range_order_def)
    with ij(3) keys_abs_ID [OF assms(1), of i k] keys_abs_ID [OF assms(1), of j k'] show "i = j" by simp
  qed
  then have "distinct ?ks" using assms(2) by (simp add: distinct_map range_order_def)
  moreover have "set ?ks = {k. keys_abs m (ID k) = Some k}"
  proof (intro set_eqI iffI)
    fix k assume "k \<in> set ?ks"
    then obtain i where "keys_abs m i = Some k" using assms(2) by (auto simp: range_order_def)
    with keys_abs_ID [OF assms(1), of i k] show "k \<in> {k. keys_abs m (ID k) = Some k}" by simp
  next
    fix k assume "k \<in> {k. keys_abs m (ID k) = Some k}"
    then have "ID k \<in> set ids" "k = the (keys_abs m (ID k))" using assms(2) by (auto simp: range_order_def)
    then show "k \<in> set ?ks" by (metis (no_types, lifting) image_eqI set_map)
  qed
  ultimately show ?thesis using ks by auto
qed

interpretation keys_mem: expiring_store keys_inv keys_abs keys_Create keys_GetByToken keys_GetByID
  keys_Revoke keys_RevokeAt keys_Update keys_ListExpiring
proof (unfold_locales, goal_cases)
  case (5 s k s')
  from keys_Create_ok [OF this] show ?case by blast
next
  case (7 s k s' e)
  then show ?case using keys_fails(1) by blast
next
  case 8
  then show ?case using keys_Revoke_ok by blast
next
  case 9
  then show ?case using keys_fails(2) by blast
next
  case 10
  then show ?case using keys_RevokeAt_ok by blast
next
  case 11
  then show ?case using keys_fails(3) by blast
next
  case 12
  then show ?case using keys_Update_ok by blast
next
  case 13
  then show ?case using keys_fails(4) by blast
next
  case 14
  then show ?case using keys_ListExpiring_ok by blast
qed (simp_all add: keys_abs_ID keys_abs_token keys_GetByID_ok keys_GetByToken_ok keys_Create_ok
  keys_Create_def [of _ None] split: option.splits)

section \<open>Memory against a map\<close>

definition keys_apply :: "keys_memory \<Rightarrow> key_op \<Rightarrow> keys_memory" where
  "keys_apply = key_effect keys_Create keys_Revoke keys_RevokeAt keys_Update"

text \<open>The specification of a store: one map from IDs to keys, with the token index a search.\<close>

fun spec_apply :: "(string \<Rightarrow> VirtualKey option) \<Rightarrow> key_op \<Rightarrow> string \<Rightarrow> VirtualKey option" where
  "spec_apply S (OpCreate None) = S"
| "spec_apply S (OpCreate (Some k)) =
     (if ID k \<noteq> '''' \<and> Token k \<noteq> '''' \<and> Upstream k \<in> {UpstreamOpenAI, UpstreamAnthropic} \<and>
         S (ID k) = None \<and> (\<nexists>i k'. S i = Some k' \<and> Token k' = Token k)
      then S(ID k \<mapsto> k) else S)"
| "spec_apply S (OpRevoke now i) =
     (case S i of None \<Rightarrow> S | Some k \<Rightarrow> S(i \<mapsto> k\<lparr>RevokedAt := Some now\<rparr>))"
| "spec_apply S (OpRevokeAt i ts) =
     (case S i of None \<Rightarrow> S | Some k \<Rightarrow> if RevokedAt k = None then S(i \<mapsto> k\<lparr>RevokedAt := Some ts\<rparr>) else S)"
| "spec_apply S (OpUpdate i p) =
     (case S i of None \<Rightarrow> S | Some k \<Rightarrow> if RevokedAt k = None then S(i \<mapsto> ApplyTo p k) else S)"

lemma keys_token_taken:
  assumes "keys_inv m"
  shows "byToken m t \<noteq> None \<longleftrightarrow> (\<exists>i k. keys_abs m i = Some k \<and> Token k = t)"
proof
  assume "byToken m t \<noteq> None"
  then obtain k where "keys_GetByToken m t = Inr k" by (auto simp: keys_GetByToken_def)
  then show "\<exists>i k. keys_abs m i = Some k \<and> Token k = t" using assms by (auto simp: keys_GetByToken_ok)
next
  assume "\<exists>i k. keys_abs m i = Some k \<and> Token k = t"
  then obtain i k where k: "keys_abs m i = Some k" "Token k = t" by blast
  then have "keys_GetByToken m t = Inr k"
    using assms keys_abs_ID [OF assms k(1)] by (simp add: keys_GetByToken_ok)
  then show "byToken m t \<noteq> None" by (auto simp: keys_GetByToken_def split: option.splits)
qed

lemma keys_apply_refines:
  assumes "keys_inv m"
  shows "keys_inv (keys_apply m op) \<and> keys_abs (keys_apply m op) = spec_apply (keys_abs m) op"
proof (cases op)
  case (OpCreate x)
  show ?thesis
  proof (cases x)
    case None
    then show ?thesis using assms OpCreate by (simp add: keys_apply_def keys_mem.create_nil)
  next
    case (Some k)
    obtain m' r where r: "keys_Create m (Some k) = (m', r)" by fastforce
    show ?thesis
    proof (cases r)
      case (Inl e)
      then have "m' = m" using r by simp
      moreover have "spec_apply (keys_abs m) (OpCreate (Some k)) = keys_abs m"
        using Inl r keys_abs_byID [OF assms, of "ID k"] keys_token_taken [OF assms, of "Token k"]
        by (auto simp: keys_Create_def Let_def split: if_splits)
      ultimately show ?thesis using assms r OpCreate Some by (simp add: keys_apply_def)
    next
      case (Inr u)
      then have r: "keys_Create m (Some k) = (m', Inr ())" using r by simp
      then have "ID k \<noteq> '''' \<and> Token k \<noteq> '''' \<and> Upstream k \<in> {UpstreamOpenAI, UpstreamAnthropic} \<and>
          byToken m (Token k) = None"
        by (auto simp: keys_Create_def Let_def split: if_splits)
      then show ?thesis
        using keys_Create_ok [OF assms r] keys_token_taken [OF assms, of "Token k"] OpCreate Some r
        by (auto simp: keys_apply_def)
    qed
  qed
next
  case (OpRevoke now i)
  show ?thesis
  proof (cases "byID m i")
    case (Some a)
    then obtain m' where m': "keys_Revoke m now i = (m', Inr ())" by (simp add: keys_Revoke_def)
    then show ?thesis using keys_Revoke_ok [OF assms m'] OpRevoke by (auto simp: keys_apply_def)
  qed (use OpRevoke assms keys_abs_byID [OF assms, of i] in \<open>simp add: keys_apply_def keys_Revoke_def\<close>)
next
  case (OpRevokeAt i t)
  show ?thesis
  proof (cases "byID m i")
    case (Some a)
    then obtain m' where m': "keys_RevokeAt m i t = (m', Inr ())"
      by (cases "RevokedAt (deref m a)") (simp_all add: keys_RevokeAt_def)
    from keys_RevokeAt_ok [OF assms m'] obtain k where k: "keys_inv m'" "keys_abs m i = Some k"
      "keys_abs m' = (keys_abs m)(i \<mapsto> (if RevokedAt k = None then k\<lparr>RevokedAt := Some t\<rparr> else k))"
      by blast
    then show ?thesis
      using OpRevokeAt m' by (cases "RevokedAt k") (simp_all add: keys_apply_def fun_upd_idem)
  qed (use OpRevokeAt assms keys_abs_byID [OF assms, of i] in \<open>simp add: keys_apply_def keys_RevokeAt_def\<close>)
next
  case (OpUpdate i p)
  show ?thesis
  proof (cases "byID m i")
    case (Some a)
    obtain m' r where m': "keys_Update m i p = (m', r)" by fastforce
    show ?thesis
    proof (cases r)
      case (Inl e)
      then have "m' = m" "RevokedAt (deref m a) \<noteq> None"
        using m' Some by (auto simp: keys_Update_def IsRevoked_def Let_def split: if_splits)
      then show ?thesis using m' OpUpdate assms keys_deref [OF assms Some] by (auto simp: keys_apply_def)
    next
      case (Inr k)
      then show ?thesis using keys_Update_ok [OF assms, of i p m' k] m' OpUpdate by (auto simp: keys_apply_def)
    qed
  qed (use OpUpdate assms keys_abs_byID [OF assms, of i] in \<open>simp add: keys_apply_def keys_Update_def\<close>)
qed

lemma keys_run_refines:
  "keys_inv m \<Longrightarrow> keys_inv (foldl keys_apply m ops) \<and>
    keys_abs (foldl keys_apply m ops) = foldl spec_apply (keys_abs m) ops"
  using keys_apply_refines by (induction ops arbitrary: m) auto

lemma keys_reachable_inv: "keys_inv (foldl keys_apply keys_NewMemory ops)"
  using keys_run_refines by blast

text \<open>C21: After any sequence of creations, revocations, expiry stamps and updates, failed ones
  included, the two indexes with their shared heap cells answer every lookup as one map from IDs to
  keys does: by ID the key or \<open>ErrNotFound\<close>, by token the one key that carries it.\<close>

theorem keystore_refines_map:
  fixes ops :: "key_op list"
  defines "m \<equiv> foldl keys_apply keys_NewMemory ops" and "S \<equiv> foldl spec_apply (\<lambda>_. None) ops"
  shows "keys_GetByID m i = (case S i of None \<Rightarrow> Inl ErrNotFound | Some k \<Rightarrow> Inr k) \<and>
    (keys_GetByToken m t = Inr k \<longleftrightarrow> (\<exists>j. S j = Some k \<and> Token k = t)) \<and>
    (keys_GetByToken m t = Inl e \<longleftrightarrow> e = ErrNotFound \<and> (\<nexists>j k. S j = Some k \<and> Token k = t))"
proof -
  have m: "keys_inv m" "keys_abs m = S"
    using keys_run_refines [OF keys_inv_NewMemory, of ops] by (simp_all add: m_def S_def)
  have "keys_GetByToken m t = Inl e \<longleftrightarrow> e = ErrNotFound \<and> byToken m t = None"
    by (auto simp: keys_GetByToken_def split: option.split)
  moreover have "keys_GetByToken m t = Inr k \<longleftrightarrow> (\<exists>j. S j = Some k \<and> Token k = t)"
    using keys_abs_ID [OF m(1)] unfolding keys_GetByToken_ok [OF m(1)] m(2) by blast
  ultimately show ?thesis
    using m keys_token_taken [OF m(1), of t] unfolding keys_GetByID_ok [OF m(1)] by blast
qed

text \<open>C2: In the in-memory store, whatever operations follow, and whichever came before, a token once found keeps being found,
  by the token and by the key's id: for a live key as for a revoked one its id, token, upstream,
  upstream credential and creation time never change. Once it is revoked nothing of it changes but
  the time of the revocation, so it is never live again.\<close>

theorem revocation_is_permanent:
  assumes "keys_GetByToken (foldl keys_apply keys_NewMemory before) t = Inr k"
  shows "\<exists>k'. keys_GetByToken (foldl keys_apply keys_NewMemory (before @ after)) t = Inr k' \<and>
    keys_GetByID (foldl keys_apply keys_NewMemory (before @ after)) (ID k) = Inr k' \<and>
    ID k' = ID k \<and> Token k' = Token k \<and> Upstream k' = Upstream k \<and> UpstreamKey k' = UpstreamKey k \<and>
    CreatedAt k' = CreatedAt k \<and>
    (RevokedAt k \<noteq> None \<longrightarrow> (\<exists>r. k' = k\<lparr>RevokedAt := Some r\<rparr>))"
proof -
  let ?m = "foldl keys_apply keys_NewMemory before"
  let ?m' = "foldl keys_apply ?m after"
  have k: "keys_abs ?m (ID k) = Some k" "Token k = t"
    using assms keys_reachable_inv by (simp_all add: keys_GetByToken_ok)
  obtain k' where k': "keys_inv ?m'" "keys_abs ?m' (ID k) = Some k'" "key_evolves k k'"
    using keys_mem.effects_step [OF keys_reachable_inv k(1), of after]
    unfolding keys_apply_def [symmetric] by blast
  then have "keys_GetByToken ?m' t = Inr k'" "keys_GetByID ?m' (ID k) = Inr k'"
    using k(2) by (simp_all add: keys_GetByToken_ok keys_GetByID_ok key_evolves_def)
  with k'(3) show ?thesis unfolding foldl_append key_evolves_def by blast
qed

definition demo_key :: VirtualKey where
  "demo_key = \<lparr>ID = ''key_0'', Token = ''rein_live_0'', Name = ''demo'', Upstream = ''openai'',
     UpstreamKey = ''sk-1'', DailyBudgetUSD = Fin 1, MonthBudgetUSD = Fin 0, UpstreamBaseURL = '''',
     RPSLimit = 0, RPMLimit = 0, MaxConcurrent = 0, UpstreamTimeoutSeconds = 0, CreatedAt = 0,
     RevokedAt = None, ExpiresAt = None\<rparr>"

definition demo_patch :: KeyPatch where
  "demo_patch = \<lparr>p_Name = Some ''new'', p_DailyBudgetUSD = Some (Fin 2), p_MonthBudgetUSD = None, p_RPSLimit = None,
     p_RPMLimit = None, p_MaxConcurrent = None, p_UpstreamBaseURL = None,
     p_UpstreamTimeoutSeconds = None, p_ExpiresAt = Some 5, p_ClearExpiresAt = False\<rparr>"

lemma demo_key_simps [simp]:
  "ID demo_key = ''key_0''" "Token demo_key = ''rein_live_0''" "Upstream demo_key = UpstreamOpenAI"
  "RevokedAt demo_key = None" "ExpiresAt demo_key = None"
  by (simp_all add: demo_key_def UpstreamOpenAI_def)

theorem revocation_is_permanent_witness:
  "\<exists>r. keys_GetByToken (foldl keys_apply keys_NewMemory
      ([OpCreate (Some demo_key), OpRevoke 7 ''key_0''] @ [OpUpdate ''key_0'' demo_patch])) ''rein_live_0'' =
    Inr (demo_key\<lparr>RevokedAt := Some r\<rparr>)"
proof -
  have "keys_GetByToken (foldl keys_apply keys_NewMemory [OpCreate (Some demo_key), OpRevoke 7 ''key_0'']) ''rein_live_0'' =
      Inr (demo_key\<lparr>RevokedAt := Some 7\<rparr>)"
    by (simp add: keys_apply_def keys_Create_def keys_Revoke_def keys_GetByToken_def keys_NewMemory_def
        assign_def deref_def Let_def)
  from revocation_is_permanent [OF this, of "[OpUpdate ''key_0'' demo_patch]"] show ?thesis by auto
qed

section \<open>Generated identifiers\<close>

lemma hex_digit_char: "n < 16 \<Longrightarrow> hex_char (hex_digit n)"
proof -
  have "\<forall>i \<in> set [0..<16]. hex_char (hex_digit i)" by code_simp
  then show "n < 16 \<Longrightarrow> hex_char (hex_digit n)" by auto
qed

lemma hex_digit_inj: "m < 16 \<Longrightarrow> n < 16 \<Longrightarrow> hex_digit m = hex_digit n \<Longrightarrow> m = n"
proof -
  have "\<forall>i \<in> set [0..<16]. \<forall>j \<in> set [0..<16]. hex_digit i = hex_digit j \<longrightarrow> i = j" by code_simp
  then show "m < 16 \<Longrightarrow> n < 16 \<Longrightarrow> hex_digit m = hex_digit n \<Longrightarrow> m = n" by auto
qed

lemma byte_nibbles: "unat (b :: 8 word) div 16 < 16" "unat b mod 16 < 16"
proof -
  have "unat b < 2 ^ LENGTH(8)" by (rule unsigned_less)
  then show "unat b div 16 < 16" "unat b mod 16 < 16" by simp_all
qed

lemma hex_Encode_chars: "list_all hex_char (hex_EncodeToString bs)"
  by (induction bs) (simp_all add: hex_EncodeToString_def hex_digit_char byte_nibbles)

lemma length_hex_Encode: "length (hex_EncodeToString bs) = 2 * length bs"
  by (induction bs) (simp_all add: hex_EncodeToString_def)

lemma hex_Encode_inj: "hex_EncodeToString bs = hex_EncodeToString cs \<longleftrightarrow> bs = cs"
proof
  show "hex_EncodeToString bs = hex_EncodeToString cs \<Longrightarrow> bs = cs"
  proof (induction bs arbitrary: cs)
    case Nil
    then show ?case using length_hex_Encode [of cs] by (simp add: hex_EncodeToString_def)
  next
    case (Cons b bs)
    then obtain c cs' where c: "cs = c # cs'" by (cases cs) (auto simp: hex_EncodeToString_def)
    have "unat b div 16 = unat c div 16" "unat b mod 16 = unat c mod 16"
      using Cons.prems c byte_nibbles [of b] byte_nibbles [of c]
      by (auto simp: hex_EncodeToString_def intro: hex_digit_inj)
    then have "unat b = unat c" by (metis div_mult_mod_eq)
    then have "b = c" by (simp add: word_unat_eq_iff)
    then show ?case using Cons c by (simp add: hex_EncodeToString_def)
  qed
qed simp

text \<open>As long as the random source fills its buffer, every generated admin identifier passes
  \<open>ValidID\<close>, every generated token passes \<open>IsReinToken\<close> and has 74 characters, and two calls give
  the same token only when they drew the same 32 bytes.\<close>

theorem generated_credentials_wellformed:
  assumes "\<forall>n buf. rand n = Inr buf \<longrightarrow> length buf = n" "GenerateID rand = Inr i" "GenerateToken rand = Inr t"
  shows "ValidID i \<and> IsReinToken t \<and> length t = 74 \<and>
    (\<forall>rand'. GenerateToken rand' = Inr t \<longrightarrow> rand' 32 = rand 32)"
proof -
  obtain b c where b: "rand 8 = Inr b" "i = idPrefix @ hex_EncodeToString b"
    and c: "rand 32 = Inr c" "t = tokenPrefix @ hex_EncodeToString c"
    using assms(2,3) by (auto simp: GenerateID_def GenerateToken_def randomHex_def split: sum.splits)
  have "length b = 8" "length c = 32" using assms(1) b c by blast+
  moreover have "rand' 32 = rand 32" if "GenerateToken rand' = Inr t" for rand'
    using that c by (auto simp: GenerateToken_def randomHex_def hex_Encode_inj split: sum.splits)
  ultimately show ?thesis
    using b c hex_Encode_chars [of b]
    by (auto simp: ValidID_def IsReinToken_def idPrefix_def tokenPrefix_def length_hex_Encode HasPrefix_def)
qed

theorem generated_credentials_wellformed_witness:
  "ValidID ''key_abababababababab''"
proof -
  let ?r = "\<lambda>n. Inr (replicate n 171) :: string + 8 word list"
  have "GenerateID ?r = Inr ''key_abababababababab''" by code_simp
  moreover have "GenerateToken ?r = Inr (tokenPrefix @ hex_EncodeToString (replicate 32 171))"
    by (simp add: GenerateToken_def randomHex_def)
  ultimately show ?thesis
    using generated_credentials_wellformed [of ?r] by simp
qed

end
