(* ===== verification/Sweeper.thy ===== *)
theory Sweeper
  imports Keys
begin

text \<open>
  \<open>internal/keys/sweeper.go\<close>: the background loop that stamps expired keys as revoked. It uses the
  store through two operations of \<open>Store\<close>, which are arguments here; a listed key is a pointer, so
  an option. The loop is driven by the events its \<open>select\<close> waits for. The locale
  \<open>sweepable_store\<close> adds to the store's contract that the two operations do not fail.
\<close>

fun sweep_key :: "('s \<Rightarrow> string \<Rightarrow> instant \<Rightarrow> 's \<times> (keys_error + unit)) \<Rightarrow> 's \<Rightarrow> VirtualKey option \<Rightarrow> 's" where
  "sweep_key revokeAt s None = s"
| "sweep_key revokeAt s (Some k) =
     (case ExpiresAt k of None \<Rightarrow> s | Some e \<Rightarrow> fst (revokeAt s (ID k) e))"

definition sweepOnce :: "('s \<Rightarrow> instant \<Rightarrow> keys_error + VirtualKey option list) \<Rightarrow>
    ('s \<Rightarrow> string \<Rightarrow> instant \<Rightarrow> 's \<times> (keys_error + unit)) \<Rightarrow> 's \<Rightarrow> instant \<Rightarrow> 's" where
  "sweepOnce listExpiring revokeAt s now =
     (case listExpiring s now of Inl err \<Rightarrow> s
      | Inr expired \<Rightarrow> foldl (sweep_key revokeAt) s expired)"

datatype sweeper_event = CtxDone | Tick instant

fun RunExpirySweeper :: "('s \<Rightarrow> instant \<Rightarrow> keys_error + VirtualKey option list) \<Rightarrow>
    ('s \<Rightarrow> string \<Rightarrow> instant \<Rightarrow> 's \<times> (keys_error + unit)) \<Rightarrow> 's \<Rightarrow> sweeper_event list \<Rightarrow> 's" where
  "RunExpirySweeper listExpiring revokeAt s [] = s"
| "RunExpirySweeper listExpiring revokeAt s (CtxDone # evs) = s"
| "RunExpirySweeper listExpiring revokeAt s (Tick now # evs) =
     RunExpirySweeper listExpiring revokeAt (sweepOnce listExpiring revokeAt s now) evs"

text \<open>What one sweep at \<open>now\<close> is for: a live key whose expiry has been reached is revoked as of its
  expiry, every other key is left alone.\<close>

definition swept :: "instant \<Rightarrow> VirtualKey \<Rightarrow> VirtualKey" where
  "swept now k = (if expiring now k then k\<lparr>RevokedAt := ExpiresAt k\<rparr> else k)"

lemma swept_keeps [simp]: "ID (swept now k) = ID k" "ExpiresAt (swept now k) = ExpiresAt k"
  by (simp_all add: swept_def)

text \<open>The ticks the loop handles before its context is cancelled.\<close>

fun handled_ticks :: "sweeper_event list \<Rightarrow> instant list" where
  "handled_ticks [] = []"
| "handled_ticks (CtxDone # evs) = []"
| "handled_ticks (Tick now # evs) = now # handled_ticks evs"

locale sweepable_store = expiring_store +
  assumes revokeAt_total: "inv s \<Longrightarrow> abs s i \<noteq> None \<Longrightarrow> \<exists>s'. revokeAt s i ts = (s', Inr ())"
    and listExpiring_total: "\<exists>ks. listExpiring s ids now = Inr ks"
begin

text \<open>The listing the sweeper calls, with the iteration order a function of the state.\<close>

abbreviation "lister order \<equiv> \<lambda>s now. map_sum id (map Some) (listExpiring s (order s) now)"

lemma sweep_list:
  assumes "inv s" "distinct ks" "\<forall>k \<in> set ks. abs s (ID k) = Some k \<and> expiring now k"
  shows "inv (foldl (sweep_key revokeAt) s (map Some ks)) \<and>
    abs (foldl (sweep_key revokeAt) s (map Some ks)) =
      (\<lambda>i. case abs s i of None \<Rightarrow> None | Some k \<Rightarrow> Some (if k \<in> set ks then swept now k else k))"
  using assms
proof (induction ks arbitrary: s)
  case Nil
  then show ?case by (auto simp: fun_eq_iff split: option.split)
next
  case (Cons k ks)
  then obtain e where e: "ExpiresAt k = Some e" "RevokedAt k = None" "abs s (ID k) = Some k"
    by (auto simp: expiring_def split: if_splits option.splits)
  from Cons.prems(1) e(3) obtain s' where s': "revokeAt s (ID k) e = (s', Inr ())"
    using revokeAt_total [OF Cons.prems(1), of "ID k" e] by auto
  have sw: "swept now k = k\<lparr>RevokedAt := Some e\<rparr>" using Cons.prems(3) e(1) by (simp add: swept_def)
  have inv': "inv s'" and abs': "abs s' = (abs s)(ID k \<mapsto> swept now k)"
    using revokeAt_ok [OF Cons.prems(1) s'] e(2,3) unfolding sw by auto
  have other: "ID k' \<noteq> ID k" if "k' \<in> set ks" for k'
  proof
    assume eq: "ID k' = ID k"
    have "abs s (ID k') = Some k'" by (rule conjunct1, rule bspec [OF Cons.prems(3)]) (simp add: that)
    then have "abs s (ID k) = Some k'" unfolding eq .
    from trans [OF sym [OF e(3)] this] have "k' = k" by simp
    then show False using that Cons.prems(2) by simp
  qed
  have "\<forall>k' \<in> set ks. abs s' (ID k') = Some k' \<and> expiring now k'"
  proof
    fix k' assume k': "k' \<in> set ks"
    then have "abs s (ID k') = Some k' \<and> expiring now k'" using bspec [OF Cons.prems(3), of k'] by simp
    with other [OF k'] show "abs s' (ID k') = Some k' \<and> expiring now k'" by (simp add: abs')
  qed
  from Cons.IH [OF inv' _ this] Cons.prems(2) have
    IH: "inv (foldl (sweep_key revokeAt) s' (map Some ks))"
      "abs (foldl (sweep_key revokeAt) s' (map Some ks)) =
      (\<lambda>i. case abs s' i of None \<Rightarrow> None | Some k \<Rightarrow> Some (if k \<in> set ks then swept now k else k))" by auto
  have notin: "swept now k \<notin> set ks" using other [of "swept now k"] by (auto simp: sw)
  have ne: "k' \<noteq> k" if "abs s i = Some k'" "i \<noteq> ID k" for i k'
    using ID_abs [OF Cons.prems(1) that(1)] that(2) by auto
  have "foldl (sweep_key revokeAt) s (map Some (k # ks)) = foldl (sweep_key revokeAt) s' (map Some ks)"
    using e(1) s' by simp
  moreover have "(case abs s' i of None \<Rightarrow> None | Some k \<Rightarrow> Some (if k \<in> set ks then swept now k else k)) =
      (case abs s i of None \<Rightarrow> None | Some k' \<Rightarrow> Some (if k' \<in> set (k # ks) then swept now k' else k'))" for i
    using e(3) notin ne [of i] by (cases "i = ID k"; cases "abs s i") (simp_all add: abs')
  ultimately show ?case using IH by simp
qed

lemma sweep_abs:
  assumes "inv s" "range_order (abs s) (order s)"
  shows "inv (sweepOnce (lister order) revokeAt s now) \<and>
    abs (sweepOnce (lister order) revokeAt s now) = (\<lambda>i. map_option (swept now) (abs s i))"
proof -
  obtain ks where ks: "listExpiring s (order s) now = Inr ks" using listExpiring_total by blast
  have l: "distinct ks" "set ks = {k. abs s (ID k) = Some k \<and> expiring now k}"
    using listExpiring_ok [OF assms ks] by auto
  have "(if k \<in> set ks then swept now k else k) = swept now k" if "abs s i = Some k" for i k
    using that ID_abs [OF assms(1) that] l(2) by (simp add: swept_def)
  then show ?thesis
    using sweep_list [OF assms(1) l(1), of now] l(2) ks
    by (simp add: sweepOnce_def fun_eq_iff map_option_case split: option.split)
qed

lemma range_order_dom: "dom m = dom m' \<Longrightarrow> range_order m ids = range_order m' ids"
  by (simp add: range_order_def)

lemma run_abs:
  assumes "inv s" "\<And>s'. dom (abs s') = dom (abs s) \<Longrightarrow> range_order (abs s') (order s')"
  shows "inv (RunExpirySweeper (lister order) revokeAt s evs) \<and>
    abs (RunExpirySweeper (lister order) revokeAt s evs) =
      (\<lambda>i. map_option (\<lambda>k. foldl (\<lambda>k now. swept now k) k (handled_ticks evs)) (abs s i))"
  using assms
proof (induction evs arbitrary: s)
  case Nil
  then show ?case by (simp add: option.map_ident)
next
  case (Cons ev evs)
  show ?case
  proof (cases ev)
    case CtxDone
    then show ?thesis using Cons.prems(1) by (simp add: option.map_ident)
  next
    case (Tick now)
    let ?s = "sweepOnce (lister order) revokeAt s now"
    have s: "inv ?s" "abs ?s = (\<lambda>i. map_option (swept now) (abs s i))"
      using sweep_abs [of s order now] Cons.prems(1) Cons.prems(2) [OF refl] by simp_all
    have d: "dom (abs ?s) = dom (abs s)" by (auto simp: s(2))
    have "inv (RunExpirySweeper (lister order) revokeAt ?s evs) \<and>
        abs (RunExpirySweeper (lister order) revokeAt ?s evs) =
        (\<lambda>i. map_option (\<lambda>k. foldl (\<lambda>k now. swept now k) k (handled_ticks evs)) (abs ?s i))"
      by (rule Cons.IH [OF s(1) Cons.prems(2)]) (simp add: d)
    then show ?thesis
      unfolding Tick RunExpirySweeper.simps handled_ticks.simps foldl_Cons s(2) option.map_comp comp_def .
  qed
qed

end

interpretation keys_mem: sweepable_store keys_inv keys_abs keys_Create keys_GetByToken keys_GetByID
  keys_Revoke keys_RevokeAt keys_Update keys_ListExpiring
proof
  fix s i ts
  assume "keys_inv s" "keys_abs s i \<noteq> None"
  then obtain a where "byID s i = Some a" by (auto simp: keys_abs_byID)
  then show "\<exists>s'. keys_RevokeAt s i ts = (s', Inr ())" by (simp add: keys_RevokeAt_def)
next
  fix s ids now
  show "\<exists>ks. keys_ListExpiring s ids now = Inr ks" by (simp add: keys_ListExpiring_def)
qed

lemma swept_all:
  "foldl (\<lambda>k now. swept now k) k ticks =
    (if RevokedAt k = None \<and> (\<exists>e. ExpiresAt k = Some e \<and> (\<exists>now \<in> set ticks. e \<le> now))
     then k\<lparr>RevokedAt := ExpiresAt k\<rparr> else k)"
proof (induction ticks arbitrary: k)
  case Nil
  then show ?case by simp
next
  case (Cons now ticks)
  show ?case
    unfolding foldl_Cons Cons.IH
    by (cases "ExpiresAt k"; cases "RevokedAt k") (auto simp: swept_def expiring_def)
qed

text \<open>C26: When the sweeper stops, the store answers as before except that every key which was live and
  whose expiry some handled tick had reached is now revoked, with \<open>revoked_at\<close> equal to
  \<open>expires_at\<close> however late the tick came; keys revoked by hand keep their time, keys without
  expiry are never touched.\<close>

theorem sweeper_stamps_expiry:
  fixes order :: "keys_memory \<Rightarrow> string list" and evs :: "sweeper_event list" and ops :: "key_op list"
  assumes "\<forall>s. dom (keys_abs s) = dom (keys_abs (foldl keys_apply keys_NewMemory ops)) \<longrightarrow>
    range_order (keys_abs s) (order s)"
  defines "m \<equiv> foldl keys_apply keys_NewMemory ops"
  defines "m' \<equiv> RunExpirySweeper (\<lambda>s now. map_sum id (map Some) (keys_ListExpiring s (order s) now))
    keys_RevokeAt m evs"
  shows "keys_GetByID m' i = (case keys_GetByID m i of Inl err \<Rightarrow> Inl err | Inr k \<Rightarrow>
     Inr (if RevokedAt k = None \<and> (\<exists>e. ExpiresAt k = Some e \<and> (\<exists>now \<in> set (handled_ticks evs). e \<le> now))
          then k\<lparr>RevokedAt := ExpiresAt k\<rparr> else k))"
proof -
  have "keys_inv m" by (simp add: m_def keys_reachable_inv)
  moreover from this have "keys_inv m' \<and> keys_abs m' =
      (\<lambda>i. map_option (\<lambda>k. foldl (\<lambda>k now. swept now k) k (handled_ticks evs)) (keys_abs m i))"
    unfolding m'_def using assms(1) by (intro keys_mem.run_abs) (auto simp: m_def)
  ultimately show ?thesis
    by (simp add: keys_GetByID_ok swept_all split: option.split)
qed

theorem sweeper_stamps_expiry_witness:
  "keys_GetByID (RunExpirySweeper (\<lambda>s now. map_sum id (map Some) (keys_ListExpiring s [''key_0''] now))
      keys_RevokeAt (foldl keys_apply keys_NewMemory [OpCreate (Some demo_key), OpUpdate ''key_0'' demo_patch])
      [Tick 3, Tick 9, CtxDone, Tick 20]) ''key_0'' = Inr ((ApplyTo demo_patch demo_key)\<lparr>RevokedAt := Some 5\<rparr>)"
proof -
  let ?m = "foldl keys_apply keys_NewMemory [OpCreate (Some demo_key), OpUpdate ''key_0'' demo_patch]"
  have a: "keys_abs ?m = [''key_0'' \<mapsto> ApplyTo demo_patch demo_key]"
    using keys_run_refines [OF keys_inv_NewMemory, of "[OpCreate (Some demo_key), OpUpdate ''key_0'' demo_patch]"]
    by simp
  moreover have "range_order (keys_abs s) [''key_0'']" if "dom (keys_abs s) = {''key_0''}" for s
    using that by (simp add: range_order_def)
  moreover have "keys_GetByID ?m ''key_0'' = Inr (ApplyTo demo_patch demo_key)"
    using keys_GetByID_ok [OF keys_reachable_inv, of "[OpCreate (Some demo_key), OpUpdate ''key_0'' demo_patch]"]
    unfolding a by simp
  moreover have "ExpiresAt (ApplyTo demo_patch demo_key) = Some 5"
    by (simp add: ApplyTo_def demo_patch_def Let_def)
  ultimately show ?thesis
    using sweeper_stamps_expiry [of "[OpCreate (Some demo_key), OpUpdate ''key_0'' demo_patch]"
      "\<lambda>_. [''key_0'']" "[Tick 3, Tick 9, CtxDone, Tick 20]" "''key_0''"] by simp
qed

end
