(* ===== verification/Meter.thy ===== *)
theory Meter
  imports Civil_Time Float64
begin

text \<open>
  \<open>internal/meter/meter.go\<close>: spend per key and period. \<open>Memory\<close> is one map whose keys are the key ID
  and the period glued together; \<open>Check\<close> and \<open>Record\<close> read the clock, an argument here. The locale
  \<open>spend_meter\<close> is the interface \<open>Meter\<close>, stated over the day and month totals of a meter. The last
  section gives the totals as sums over the recorded history.
\<close>

datatype meter_error = ErrBudgetExceeded | MeterFailure string

type_synonym meter_memory = "string \<Rightarrow> f64 option"

definition meter_NewMemory :: meter_memory where
  "meter_NewMemory = (\<lambda>_. None)"

definition dayPeriodKey :: "instant \<Rightarrow> string" where
  "dayPeriodKey t = ''d:'' @ format_day t"

definition monthPeriodKey :: "instant \<Rightarrow> string" where
  "monthPeriodKey t = ''m:'' @ format_month t"

definition periodKeys :: "string \<Rightarrow> instant \<Rightarrow> string \<times> string" where
  "periodKeys keyID now = (keyID @ ''|'' @ dayPeriodKey now, keyID @ ''|'' @ monthPeriodKey now)"

definition meter_Check :: "meter_memory \<Rightarrow> instant \<Rightarrow> string \<Rightarrow> f64 \<Rightarrow> f64 \<Rightarrow> meter_error option" where
  "meter_Check m now keyID dailyCap monthCap =
     (if f64_le dailyCap (Fin 0) \<and> f64_le monthCap (Fin 0) then None
      else let (dayKey, monthKey) = periodKeys keyID now in
        if f64_lt (Fin 0) dailyCap \<and> f64_le dailyCap (lookup_or (Fin 0) m dayKey) then Some ErrBudgetExceeded
        else if f64_lt (Fin 0) monthCap \<and> f64_le monthCap (lookup_or (Fin 0) m monthKey) then Some ErrBudgetExceeded
        else None)"

definition meter_Record :: "meter_memory \<Rightarrow> instant \<Rightarrow> string \<Rightarrow> f64 \<Rightarrow> meter_memory \<times> meter_error option" where
  "meter_Record m now keyID cost =
     (if f64_le cost (Fin 0) then (m, None)
      else let (dayKey, monthKey) = periodKeys keyID now;
               m = m(dayKey \<mapsto> f64_add (lookup_or (Fin 0) m dayKey) cost);
               m = m(monthKey \<mapsto> f64_add (lookup_or (Fin 0) m monthKey) cost)
           in (m, None))"

section \<open>The interface\<close>

text \<open>The contract of \<open>Meter\<close>, over \<open>day s k t\<close> and \<open>month s k t\<close>, the totals of key \<open>k\<close> for the
  UTC day and the UTC month that contain \<open>t\<close>: what a check compares, what a recording adds to.\<close>

locale spend_meter =
  fixes init :: 's
    and check :: "'s \<Rightarrow> instant \<Rightarrow> string \<Rightarrow> f64 \<Rightarrow> f64 \<Rightarrow> meter_error option"
    and rec :: "'s \<Rightarrow> instant \<Rightarrow> string \<Rightarrow> f64 \<Rightarrow> 's \<times> meter_error option"
    and day :: "'s \<Rightarrow> string \<Rightarrow> instant \<Rightarrow> f64"
    and month :: "'s \<Rightarrow> string \<Rightarrow> instant \<Rightarrow> f64"
  assumes init_zero: "day init k t = Fin 0" "month init k t = Fin 0"
    and check_sound: "check s now k dc mc = Some ErrBudgetExceeded \<Longrightarrow>
      f64_lt (Fin 0) dc \<and> f64_le dc (day s k now) \<or> f64_lt (Fin 0) mc \<and> f64_le mc (month s k now)"
    and check_complete: "check s now k dc mc = None \<Longrightarrow>
      \<not> (f64_lt (Fin 0) dc \<and> f64_le dc (day s k now)) \<and> \<not> (f64_lt (Fin 0) mc \<and> f64_le mc (month s k now))"
    and record_ok: "rec s now k c = (s', None) \<Longrightarrow> \<not> f64_le c (Fin 0) \<Longrightarrow>
      day s' k' t = (if k' = k \<and> utc_day t = utc_day now then f64_add (day s k' t) c else day s k' t) \<and>
      month s' k' t = (if k' = k \<and> utc_month t = utc_month now then f64_add (month s k' t) c else month s k' t)"
    and record_skips: "rec s now k c = (s', e) \<Longrightarrow> f64_le c (Fin 0) \<or> e \<noteq> None \<Longrightarrow>
      day s' k' t = day s k' t \<and> month s' k' t = month s k' t"
    and same_period: "utc_day t = utc_day t' \<Longrightarrow> day s k t = day s k t'"
      "utc_month t = utc_month t' \<Longrightarrow> month s k t = month s k t'"
begin

abbreviation "records \<equiv> foldl (\<lambda>s (now, k, c). fst (rec s now k c))"

definition amounts :: "'s \<Rightarrow> bool" where
  "amounts s \<longleftrightarrow> (\<forall>k t. wf64 (day s k t) \<and> f64_nonneg (day s k t) \<and> wf64 (month s k t) \<and> f64_nonneg (month s k t))"

lemma record_cases:
  assumes "c \<noteq> NaN"
  shows "(\<exists>s'. rec s now k c = (s', None) \<and> f64_nonneg c \<and> \<not> f64_le c (Fin 0)) \<or>
    (\<forall>k' t. day (fst (rec s now k c)) k' t = day s k' t \<and> month (fst (rec s now k c)) k' t = month s k' t)"
proof -
  obtain s' e where r: "rec s now k c = (s', e)" by fastforce
  have "f64_nonneg c" if "\<not> f64_le c (Fin 0)" using that assms by (cases c) auto
  then show ?thesis using r record_skips [OF r] by (cases e) auto
qed

lemma record_amounts:
  assumes "amounts s" "c \<noteq> NaN"
  shows "amounts (fst (rec s now k c))"
  using record_cases [OF assms(2), of s now k]
proof
  assume "\<exists>s'. rec s now k c = (s', None) \<and> f64_nonneg c \<and> \<not> f64_le c (Fin 0)"
  then show ?thesis
    using assms(1) record_ok [of s now k c] by (auto simp: amounts_def f64_add_nonneg)
next
  assume "\<forall>k' t. day (fst (rec s now k c)) k' t = day s k' t \<and> month (fst (rec s now k c)) k' t = month s k' t"
  then show ?thesis using assms(1) by (simp add: amounts_def)
qed

lemma record_grows:
  assumes "amounts s" "c \<noteq> NaN"
  shows "f64_le (day s k' t) (day (fst (rec s now k c)) k' t) \<and>
    f64_le (month s k' t) (month (fst (rec s now k c)) k' t)"
proof -
  have refl: "f64_le (day s k' t) (day s k' t)" "f64_le (month s k' t) (month s k' t)"
    using assms(1) f64_nonneg_not_NaN by (simp_all add: amounts_def)
  from record_cases [OF assms(2), of s now k] show ?thesis
  proof
    assume "\<exists>s'. rec s now k c = (s', None) \<and> f64_nonneg c \<and> \<not> f64_le c (Fin 0)"
    then obtain s' where s': "rec s now k c = (s', None)" "f64_nonneg c" "\<not> f64_le c (Fin 0)" by blast
    from record_ok [OF s'(1,3), of k' t] show ?thesis
      using f64_add_ge [of "day s k' t" c] f64_add_ge [of "month s k' t" c] assms(1) s'(1,2) refl
      by (auto simp: amounts_def)
  qed (use refl in simp)
qed

lemma records_amounts: "amounts s \<Longrightarrow> \<forall>(now, k, c) \<in> set h. c \<noteq> NaN \<Longrightarrow> amounts (records s h)"
  by (induction h arbitrary: s) (auto simp: record_amounts)

lemma init_amounts: "amounts init"
  by (simp add: amounts_def init_zero)

lemma records_grow:
  "amounts s \<Longrightarrow> \<forall>(now, k, c) \<in> set h. c \<noteq> NaN \<Longrightarrow>
    f64_le (day s k' t) (day (records s h) k' t) \<and> f64_le (month s k' t) (month (records s h) k' t)"
proof (induction h arbitrary: s)
  case Nil
  then show ?case using f64_nonneg_not_NaN by (simp add: amounts_def)
next
  case (Cons r h)
  obtain now k c where r: "r = (now, k, c)" by (cases r)
  then have c: "c \<noteq> NaN" using Cons.prems(2) by simp
  let ?s = "fst (rec s now k c)"
  have "\<forall>(now, k, c) \<in> set h. c \<noteq> NaN" using Cons.prems(2) by simp
  note IH = Cons.IH [OF record_amounts [OF Cons.prems(1) c, of now k] this]
  note g = record_grows [OF Cons.prems(1) c, of k' t now k]
  have "records s (r # h) = records ?s h" by (simp add: r)
  then show ?case
    using f64_le_trans [OF conjunct1 [OF g] conjunct1 [OF IH]] f64_le_trans [OF conjunct2 [OF g] conjunct2 [OF IH]]
    by simp
qed

text \<open>A refused budget stays refused until its period ends.\<close>

lemma exceeded_stays:
  assumes "amounts s" "check s now k dc mc = Some ErrBudgetExceeded" "utc_day now' = utc_day now"
    "\<forall>(now, k, c) \<in> set h. c \<noteq> NaN"
  shows "check (records s h) now' k dc mc \<noteq> None"
proof
  assume n: "check (records s h) now' k dc mc = None"
  note g = records_grow [OF assms(1,4), of k now]
  have p: "day (records s h) k now' = day (records s h) k now" "month (records s h) k now' = month (records s h) k now"
    by (rule same_period(1) [OF assms(3)], rule same_period(2) [OF utc_day_month [OF assms(3)]])
  note c = check_complete [OF n, unfolded p]
  from check_sound [OF assms(2)] show False
  proof (elim disjE conjE)
    assume a: "f64_lt (Fin 0) dc" "f64_le dc (day s k now)"
    from f64_le_trans [OF a(2) conjunct1 [OF g]] a(1) c show False by simp
  next
    assume a: "f64_lt (Fin 0) mc" "f64_le mc (month s k now)"
    from f64_le_trans [OF a(2) conjunct2 [OF g]] a(1) c show False by simp
  qed
qed

end

section \<open>The buckets of Memory\<close>

lemma last_bar:
  assumes "CHR ''|'' \<notin> set x" "CHR ''|'' \<notin> set y"
  shows "a @ CHR ''|'' # x = b @ CHR ''|'' # y \<longleftrightarrow> a = b \<and> x = y"
proof
  assume eq: "a @ CHR ''|'' # x = b @ CHR ''|'' # y"
  have tail: "takeWhile (\<lambda>c. c \<noteq> CHR ''|'') (rev (u @ CHR ''|'' # z)) = rev z" if "CHR ''|'' \<notin> set z" for u z
    using that by (auto simp: takeWhile_append)
  from tail [OF assms(1), of a] tail [OF assms(2), of b] have "rev x = rev y" unfolding eq by (rule trans [OF sym])
  then show "a = b \<and> x = y" using eq by simp
qed simp

text \<open>No two keys and periods share a bucket, whatever bytes a key ID has.\<close>

lemma bucket_eq:
  "fst (periodKeys k t) = fst (periodKeys k' t') \<longleftrightarrow> k = k' \<and> utc_day t = utc_day t'"
  "snd (periodKeys k t) = snd (periodKeys k' t') \<longleftrightarrow> k = k' \<and> utc_month t = utc_month t'"
  "fst (periodKeys k t) \<noteq> snd (periodKeys k' t')" "snd (periodKeys k t) \<noteq> fst (periodKeys k' t')"
  using bar_not_in_format [of t] bar_not_in_format [of t']
  by (auto simp: periodKeys_def dayPeriodKey_def monthPeriodKey_def last_bar format_day_eq format_month_eq)

definition meter_day :: "meter_memory \<Rightarrow> string \<Rightarrow> instant \<Rightarrow> f64" where
  "meter_day m k t = lookup_or (Fin 0) m (fst (periodKeys k t))"

definition meter_month :: "meter_memory \<Rightarrow> string \<Rightarrow> instant \<Rightarrow> f64" where
  "meter_month m k t = lookup_or (Fin 0) m (snd (periodKeys k t))"

lemma meter_Check_alt:
  "meter_Check m now k dc mc =
    (if f64_lt (Fin 0) dc \<and> f64_le dc (meter_day m k now) \<or> f64_lt (Fin 0) mc \<and> f64_le mc (meter_month m k now)
     then Some ErrBudgetExceeded else None)"
proof -
  have "\<not> f64_lt (Fin 0) x" if "f64_le x (Fin 0)" for x using that by (cases x) auto
  then show ?thesis by (auto simp: meter_Check_def meter_day_def meter_month_def Let_def split: prod.split)
qed

lemma meter_Record_totals:
  "meter_day (fst (meter_Record m now k c)) k' t =
    (if \<not> f64_le c (Fin 0) \<and> k' = k \<and> utc_day t = utc_day now then f64_add (meter_day m k' t) c else meter_day m k' t)"
  "meter_month (fst (meter_Record m now k c)) k' t =
    (if \<not> f64_le c (Fin 0) \<and> k' = k \<and> utc_month t = utc_month now then f64_add (meter_month m k' t) c else meter_month m k' t)"
proof -
  obtain dk mk where p: "periodKeys k now = (dk, mk)" by fastforce
  note b = bucket_eq [of k' t k now, unfolded p, simplified]
  show "meter_day (fst (meter_Record m now k c)) k' t =
    (if \<not> f64_le c (Fin 0) \<and> k' = k \<and> utc_day t = utc_day now then f64_add (meter_day m k' t) c else meter_day m k' t)"
    using b by (auto simp: meter_Record_def meter_day_def p Let_def)
  show "meter_month (fst (meter_Record m now k c)) k' t =
    (if \<not> f64_le c (Fin 0) \<and> k' = k \<and> utc_month t = utc_month now then f64_add (meter_month m k' t) c else meter_month m k' t)"
    using b by (auto simp: meter_Record_def meter_month_def p Let_def)
qed

lemma meter_Record_no_error [simp]: "snd (meter_Record m now k c) = None"
  by (simp add: meter_Record_def Let_def split: prod.split)

interpretation meter_mem: spend_meter meter_NewMemory meter_Check meter_Record meter_day meter_month
proof
  fix s s' :: meter_memory and now t t' :: instant and k k' c e
  show "meter_day meter_NewMemory k t = Fin 0" "meter_month meter_NewMemory k t = Fin 0"
    by (simp_all add: meter_day_def meter_month_def meter_NewMemory_def)
  show "utc_day t = utc_day t' \<Longrightarrow> meter_day s k t = meter_day s k t'"
    using bucket_eq(1) [of k t k t'] by (simp add: meter_day_def)
  show "utc_month t = utc_month t' \<Longrightarrow> meter_month s k t = meter_month s k t'"
    using bucket_eq(2) [of k t k t'] by (simp add: meter_month_def)
  show "meter_Record s now k c = (s', None) \<Longrightarrow> \<not> f64_le c (Fin 0) \<Longrightarrow>
      meter_day s' k' t = (if k' = k \<and> utc_day t = utc_day now then f64_add (meter_day s k' t) c else meter_day s k' t) \<and>
      meter_month s' k' t = (if k' = k \<and> utc_month t = utc_month now then f64_add (meter_month s k' t) c else meter_month s k' t)"
    using meter_Record_totals [of s now k c k' t] by simp
  show "meter_Record s now k c = (s', e) \<Longrightarrow> f64_le c (Fin 0) \<or> e \<noteq> None \<Longrightarrow>
      meter_day s' k' t = meter_day s k' t \<and> meter_month s' k' t = meter_month s k' t"
    using meter_Record_totals [of s now k c k' t] meter_Record_no_error [of s now k c] by auto
qed (auto simp: meter_Check_alt split: if_splits)

section \<open>Totals of a history\<close>

type_synonym spend_history = "(instant \<times> string \<times> f64) list"

definition meter_after :: "spend_history \<Rightarrow> meter_memory" where
  "meter_after h = foldl (\<lambda>m (now, k, c). fst (meter_Record m now k c)) meter_NewMemory h"

text \<open>The recorded costs of a key that belong to the period \<open>P\<close>, added up in order.\<close>

definition spent :: "(instant \<Rightarrow> bool) \<Rightarrow> string \<Rightarrow> spend_history \<Rightarrow> f64" where
  "spent P k h = foldl f64_add (Fin 0) (map (\<lambda>(_, _, c). c) (filter (\<lambda>(t, k', c). k' = k \<and> P t \<and> \<not> f64_le c (Fin 0)) h))"

lemma spent_snoc:
  "spent P k (h @ [(t, k', c)]) =
    (if k' = k \<and> P t \<and> \<not> f64_le c (Fin 0) then f64_add (spent P k h) c else spent P k h)"
  by (simp add: spent_def)

lemma meter_after_snoc: "meter_after (h @ [(t, k, c)]) = fst (meter_Record (meter_after h) t k c)"
  by (simp add: meter_after_def)

lemma meter_after_totals:
  "meter_day (meter_after h) k now = spent (\<lambda>t. utc_day t = utc_day now) k h \<and>
   meter_month (meter_after h) k now = spent (\<lambda>t. utc_month t = utc_month now) k h"
proof (induction h rule: rev_induct)
  case Nil
  then show ?case by (simp add: meter_after_def meter_mem.init_zero spent_def)
next
  case (snoc r h)
  obtain t k' c where r: "r = (t, k', c)" by (cases r)
  show ?case
    using snoc unfolding r meter_after_snoc spent_snoc meter_Record_totals by auto
qed

text \<open>C5: A budget check refuses a request exactly when a positive daily cap is at most the sum of
  what the key recorded on the same UTC day, or a positive monthly cap at most the sum for the same
  UTC month, in the order of recording with every addition rounded; the string keys of the buckets
  never mix two keys, two periods or a day with a month.\<close>

theorem budget_check_matches_history:
  "meter_Check (meter_after h) now k dailyCap monthCap =
    (if f64_lt (Fin 0) dailyCap \<and> f64_le dailyCap (spent (\<lambda>t. utc_day t = utc_day now) k h) \<or>
        f64_lt (Fin 0) monthCap \<and> f64_le monthCap (spent (\<lambda>t. utc_month t = utc_month now) k h)
     then Some ErrBudgetExceeded else None)"
  by (simp add: meter_Check_alt meter_after_totals)

text \<open>Once a budget is exhausted it stays exhausted for the rest of the UTC day, whatever any key
  records in between: no rounding and no zero or negative cost ever frees budget.\<close>

theorem exhausted_budget_stays_exhausted:
  assumes "meter_Check (meter_after h) now k dailyCap monthCap = Some ErrBudgetExceeded"
    "utc_day now' = utc_day now" "\<forall>(t, k, c) \<in> set h \<union> set h'. c \<noteq> NaN"
  shows "meter_Check (meter_after (h @ h')) now' k dailyCap monthCap = Some ErrBudgetExceeded"
proof -
  have "\<forall>(t, k, c) \<in> set h. c \<noteq> NaN" "\<forall>(t, k, c) \<in> set h'. c \<noteq> NaN" using assms(3) by auto
  then have "meter_Check (meter_mem.records (meter_after h) h') now' k dailyCap monthCap \<noteq> None"
    using meter_mem.exceeded_stays [OF _ assms(1,2)]
      meter_mem.records_amounts [OF meter_mem.init_amounts] unfolding meter_after_def by blast
  then show ?thesis by (auto simp: meter_after_def meter_Check_alt split: if_splits)
qed

theorem exhausted_budget_stays_exhausted_witness:
  "meter_Check (meter_after ([(5, ''k'', Fin 2)] @ [(6, ''k'', Fin (-1)), (7, ''j'', Fin 1)])) 9 ''k'' (Fin 2) (Fin 0) =
    Some ErrBudgetExceeded"
proof -
  have "meter_Check (meter_after [(5, ''k'', Fin 2)]) 5 ''k'' (Fin 2) (Fin 0) = Some ErrBudgetExceeded"
    by (simp add: meter_Check_alt meter_after_totals spent_def utc_day_def ns_per_day_def)
  from exhausted_budget_stays_exhausted [OF this, of 9] show ?thesis
    by (simp add: utc_day_def ns_per_day_def)
qed

end
