(* ===== verification/Pricing.thy ===== *)
theory Pricing
  imports Civil_Time Float64 "HOL-Library.AList"
begin

text \<open>
  \<open>internal/meter/pricing.go\<close>, \<open>loader.go\<close>, \<open>holder.go\<close> and \<open>poll.go\<close>: the price table, the cost of
  a response, the operator's overrides and their hot reload. A Go map is an association list with
  distinct keys, in the order in which a range loop visits it (\<open>wf_pricer\<close>). The file system and
  \<open>json.Unmarshal\<close> are arguments: the outcome of reading a path and of decoding its bytes. Log
  records are not modelled.
\<close>

record ModelPrice =
  InputPerMToken :: f64
  OutputPerMToken :: f64

type_synonym Pricer = "(string \<times> (string \<times> ModelPrice) list) list"

definition ModelPrice_Cost :: "ModelPrice \<Rightarrow> i64 \<Rightarrow> i64 \<Rightarrow> f64" where
  "ModelPrice_Cost p inputTokens outputTokens =
     f64_add (f64_mul (f64_div_const (f64_of_int inputTokens) 1000000) (InputPerMToken p))
       (f64_mul (f64_div_const (f64_of_int outputTokens) 1000000) (OutputPerMToken p))"

text \<open>The pattern \<open>-\d{8}$|-\d{4}-\d{2}-\d{2}$\<close>: a match ends at the end of the text, so replacing
  all matches removes one suffix.\<close>

definition is_digit :: "char \<Rightarrow> bool" where
  "is_digit c = (c \<in> set ''0123456789'')"

definition compact_date :: "string \<Rightarrow> bool" where
  "compact_date s = (length s = 9 \<and> hd s = CHR ''-'' \<and> list_all is_digit (tl s))"

definition dashed_date :: "string \<Rightarrow> bool" where
  "dashed_date s = (length s = 11 \<and> s ! 0 = CHR ''-'' \<and> list_all is_digit (take 4 (drop 1 s)) \<and>
     s ! 5 = CHR ''-'' \<and> list_all is_digit (take 2 (drop 6 s)) \<and>
     s ! 8 = CHR ''-'' \<and> list_all is_digit (drop 9 s))"

definition dateSuffix_strip :: "string \<Rightarrow> string" where
  "dateSuffix_strip s =
     (if dashed_date (drop (length s - 11) s) then take (length s - 11) s
      else if compact_date (drop (length s - 9) s) then take (length s - 9) s
      else s)"

definition Pricer_Len :: "Pricer \<Rightarrow> nat" where
  "Pricer_Len p = foldl (\<lambda>n (_, table). n + length table) 0 p"

definition Pricer_Cost :: "Pricer \<Rightarrow> string \<Rightarrow> string \<Rightarrow> i64 \<Rightarrow> i64 \<Rightarrow> f64 \<times> bool" where
  "Pricer_Cost p upstream model inputTokens outputTokens =
     (case map_of p upstream of None \<Rightarrow> (Fin 0, False) | Some table \<Rightarrow>
      case map_of table model of Some mp \<Rightarrow> (ModelPrice_Cost mp inputTokens outputTokens, True) | None \<Rightarrow>
      let base = dateSuffix_strip model in
      if base = model then (Fin 0, False)
      else case map_of table base of None \<Rightarrow> (Fin 0, False)
        | Some mp \<Rightarrow> (ModelPrice_Cost mp inputTokens outputTokens, True))"

section \<open>Loading\<close>

record configFile =
  Version :: string
  Models :: Pricer

datatype load_error = BaseRequired | ReadFailed string | ParseFailed string
  | ErrUnknownConfigVersion string string | InvalidEntry string string | NoModels

definition IsUnknownConfigVersion :: "load_error \<Rightarrow> bool" where
  "IsUnknownConfigVersion e = (case e of ErrUnknownConfigVersion _ _ \<Rightarrow> True | _ \<Rightarrow> False)"

definition ConfigSchemaVersion :: string where
  "ConfigSchemaVersion = ''1''"

definition LoadPricer :: "string + Pricer \<Rightarrow> load_error + Pricer" where
  "LoadPricer decoded = (case decoded of Inl err \<Rightarrow> Inl (ParseFailed err)
     | Inr models \<Rightarrow> if length models = 0 then Inl NoModels else Inr models)"

text \<open>\<open>strings.TrimSpace(path) == ""\<close>.\<close>

definition blank :: "string \<Rightarrow> bool" where
  "blank s = (TrimSpace s = '''')"

definition bad_price :: "ModelPrice \<Rightarrow> bool" where
  "bad_price p = (f64_lt (InputPerMToken p) (Fin 0) \<or> f64_lt (OutputPerMToken p) (Fin 0))"

text \<open>The first bad entry in iteration order.\<close>

fun validate_table :: "string \<Rightarrow> (string \<times> ModelPrice) list \<Rightarrow> load_error option" where
  "validate_table u [] = None"
| "validate_table u ((m, p) # t) = (if bad_price p then Some (InvalidEntry u m) else validate_table u t)"

fun validate_models :: "Pricer \<Rightarrow> load_error option" where
  "validate_models [] = None"
| "validate_models ((u, t) # ms) =
     (case validate_table u t of Some e \<Rightarrow> Some e | None \<Rightarrow> validate_models ms)"

fun merge_entry :: "string \<Rightarrow> Pricer \<Rightarrow> string \<times> ModelPrice \<Rightarrow> Pricer" where
  "merge_entry u merged (m, price) =
     AList.update u (AList.update m price (case map_of merged u of None \<Rightarrow> [] | Some t \<Rightarrow> t)) merged"

fun merge_table :: "Pricer \<Rightarrow> string \<times> (string \<times> ModelPrice) list \<Rightarrow> Pricer" where
  "merge_table merged (u, t) =
     foldl (merge_entry u) (if map_of merged u = None then AList.update u [] merged else merged) t"

definition merge_models :: "Pricer \<Rightarrow> Pricer \<Rightarrow> Pricer" where
  "merge_models base models = foldl merge_table base models"

definition LoadConfigFile :: "(string \<Rightarrow> string + string) \<Rightarrow> (string \<Rightarrow> string + configFile) \<Rightarrow>
    string \<Rightarrow> Pricer option \<Rightarrow> load_error + Pricer option" where
  "LoadConfigFile readFile unmarshal path base =
     (if blank path then Inr base
      else case base of None \<Rightarrow> Inl BaseRequired | Some base_models \<Rightarrow>
        case readFile path of Inl err \<Rightarrow> Inl (ReadFailed err) | Inr raw \<Rightarrow>
        case unmarshal raw of Inl err \<Rightarrow> Inl (ParseFailed err) | Inr file \<Rightarrow>
        let version = (if Version file = '''' then ConfigSchemaVersion else Version file) in
        if version \<noteq> ConfigSchemaVersion then Inl (ErrUnknownConfigVersion version ConfigSchemaVersion)
        else case validate_models (Models file) of Some e \<Rightarrow> Inl e
        | None \<Rightarrow> Inr (Some (merge_models base_models (Models file))))"

section \<open>Holder, reload, poll\<close>

text \<open>The holder is one atomic pointer: its state is the pointer's value.\<close>

type_synonym PricerHolder = "Pricer option"

definition NewPricerHolder :: "Pricer option \<Rightarrow> PricerHolder" where
  "NewPricerHolder initial = initial"

definition holder_Load :: "PricerHolder \<Rightarrow> Pricer option" where
  "holder_Load h = h"

definition holder_Swap :: "PricerHolder \<Rightarrow> Pricer option \<Rightarrow> PricerHolder \<times> Pricer option" where
  "holder_Swap h next = (next, h)"

text \<open>\<open>load\<close> is the outcome of \<open>LoadConfigFile(path, base)\<close> at the moment of the call.\<close>

definition TryReload :: "load_error + Pricer option \<Rightarrow> PricerHolder \<Rightarrow> PricerHolder \<times> bool" where
  "TryReload load holder = (case load of Inl err \<Rightarrow> (holder, False)
     | Inr next \<Rightarrow> (fst (holder_Swap holder next), True))"

text \<open>A tick brings what \<open>os.Stat\<close> reports, the modification time or an error, and what a load
  would give at that moment.\<close>

datatype poll_event = PollDone | PollTick "string + instant" "load_error + Pricer option"

fun poll_loop :: "instant \<Rightarrow> PricerHolder \<Rightarrow> poll_event list \<Rightarrow> PricerHolder" where
  "poll_loop lastModTime holder [] = holder"
| "poll_loop lastModTime holder (PollDone # evs) = holder"
| "poll_loop lastModTime holder (PollTick (Inl err) load # evs) = poll_loop lastModTime holder evs"
| "poll_loop lastModTime holder (PollTick (Inr modTime) load # evs) =
     (if modTime = lastModTime then poll_loop lastModTime holder evs
      else poll_loop modTime (fst (TryReload load holder)) evs)"

text \<open>Go's zero \<open>time.Time\<close>, 0001-01-01T00:00:00Z.\<close>

definition zero_time :: instant where
  "zero_time = - 62135596800 * 1000000000"

definition PollLoop :: "string + instant \<Rightarrow> PricerHolder \<Rightarrow> poll_event list \<Rightarrow> PricerHolder" where
  "PollLoop stat0 holder evs =
     poll_loop (case stat0 of Inl _ \<Rightarrow> zero_time | Inr modTime \<Rightarrow> modTime) holder evs"

section \<open>Cost\<close>

lemma round64_bounded:
  assumes "0 \<le> x" "x \<le> 2 ^ 63"
  shows "\<exists>r. round64 x = Fin r \<and> 0 \<le> r \<and> r \<le> 2 ^ 63"
proof -
  have "round64 (2 ^ 63) = Fin (2 ^ 63)"
    using rnd_grid [of 1 63] by (intro round64_wf64) simp
  then have "f64_le (round64 x) (Fin (2 ^ 63))" using round64_mono [OF assms(2)] by simp
  moreover have "f64_nonneg (round64 x)" using assms(1) by (rule round64_nonneg)
  ultimately show ?thesis by (cases "round64 x") auto
qed

text \<open>The amount a token count contributes, before the price: \<open>float64(n) / 1e6\<close>.\<close>

lemma mtok:
  assumes "0 \<le> sint n"
  shows "\<exists>r. f64_div_const (f64_of_int n) 1000000 = Fin r \<and> 0 \<le> r"
proof -
  define k where "k = sint n"
  have "(of_int k :: rat) \<le> of_int i64_max" using sint_i64_le [of n] by (simp only: of_int_le_iff k_def)
  then have "(0 :: rat) \<le> of_int k" "(of_int k :: rat) \<le> 2 ^ 63" using assms by (simp_all add: k_def [symmetric])
  from round64_bounded [OF this] obtain r where r: "f64_of_int n = Fin r" "0 \<le> r" "r \<le> 2 ^ 63"
    unfolding f64_of_int_def k_def by blast
  then have "0 \<le> r / 1000000" "r / 1000000 \<le> 2 ^ 63" by simp_all
  from round64_bounded [OF this] r(1) show ?thesis by auto
qed

lemma f64_le_NegInf: "f64_le NegInf x \<longleftrightarrow> x \<noteq> NaN"
  by (cases x) auto

lemma mtok_mono:
  assumes "0 \<le> sint m" "sint m \<le> sint n"
  shows "f64_le (f64_div_const (f64_of_int m) 1000000) (f64_div_const (f64_of_int n) 1000000)"
proof -
  have "f64_le (f64_of_int m) (f64_of_int n)"
    unfolding f64_of_int_def by (intro round64_mono) (simp only: of_int_le_iff assms(2))
  then show ?thesis
    by (cases "f64_of_int m"; cases "f64_of_int n") (auto intro: round64_mono divide_right_mono simp: f64_le_NegInf)
qed

text \<open>A price the loader accepts and JSON can express.\<close>

definition price_ok :: "ModelPrice \<Rightarrow> bool" where
  "price_ok p \<longleftrightarrow> (\<exists>a b. InputPerMToken p = Fin a \<and> OutputPerMToken p = Fin b \<and> 0 \<le> a \<and> 0 \<le> b)"

lemma mtok_cost:
  assumes "0 \<le> sint m" "sint m \<le> sint n" "0 \<le> a"
  shows "f64_nonneg (f64_mul (f64_div_const (f64_of_int m) 1000000) (Fin a))"
    "f64_le (f64_mul (f64_div_const (f64_of_int m) 1000000) (Fin a))
       (f64_mul (f64_div_const (f64_of_int n) 1000000) (Fin a))"
proof -
  obtain r s where rs: "f64_div_const (f64_of_int m) 1000000 = Fin r" "0 \<le> r"
    "f64_div_const (f64_of_int n) 1000000 = Fin s" "r \<le> s"
    using mtok [of m] mtok [of n] mtok_mono [OF assms(1,2)] assms(1,2) by fastforce
  then show "f64_nonneg (f64_mul (f64_div_const (f64_of_int m) 1000000) (Fin a))"
    "f64_le (f64_mul (f64_div_const (f64_of_int m) 1000000) (Fin a))
       (f64_mul (f64_div_const (f64_of_int n) 1000000) (Fin a))"
    using assms(3) by (simp_all add: round64_nonneg round64_mono mult_right_mono)
qed

text \<open>The cost of a response is a non-negative amount, never NaN, and does not decrease when more
  tokens are reported, all roundings and overflow to infinity included.\<close>

theorem cost_nonneg_and_monotone:
  assumes "price_ok p" "0 \<le> sint i" "sint i \<le> sint i'" "0 \<le> sint out" "sint out \<le> sint out'"
  shows "f64_nonneg (ModelPrice_Cost p i out) \<and> f64_le (ModelPrice_Cost p i out) (ModelPrice_Cost p i' out')"
proof -
  obtain a b where ab: "InputPerMToken p = Fin a" "OutputPerMToken p = Fin b" "0 \<le> a" "0 \<le> b"
    using assms(1) by (auto simp: price_ok_def)
  show ?thesis
    unfolding ModelPrice_Cost_def ab(1,2)
    using mtok_cost [OF assms(2,3) ab(3)] mtok_cost [OF assms(4,5) ab(4)]
    by (simp add: f64_add_nonneg f64_add_mono)
qed

theorem cost_nonneg_and_monotone_witness:
  "f64_le (ModelPrice_Cost \<lparr>InputPerMToken = Fin (5/2), OutputPerMToken = Fin 10\<rparr> 1000 20)
    (ModelPrice_Cost \<lparr>InputPerMToken = Fin (5/2), OutputPerMToken = Fin 10\<rparr> 4000 20)"
proof -
  have "price_ok \<lparr>InputPerMToken = Fin (5/2), OutputPerMToken = Fin 10\<rparr>"
    unfolding price_ok_def by (intro exI [of _ "5/2"] exI [of _ 10]) simp
  then show ?thesis
    using cost_nonneg_and_monotone [of "\<lparr>InputPerMToken = Fin (5/2), OutputPerMToken = Fin 10\<rparr>" 1000 4000 20 20]
    by simp
qed

section \<open>Dated model names\<close>

lemma dashed_digit: "dashed_date s \<Longrightarrow> is_digit (s ! 2)"
proof -
  assume d: "dashed_date s"
  have "length s = 11" using d by (simp add: dashed_date_def)
  moreover have "\<forall>i < length (take 4 (drop 1 s)). is_digit (take 4 (drop 1 s) ! i)"
    using d unfolding dashed_date_def list_all_length by blast
  ultimately show ?thesis by (auto dest!: spec [of _ 1] simp: numeral_2_eq_2)
qed

lemma strip_compact: "compact_date d \<Longrightarrow> dateSuffix_strip (m @ d) = m"
proof -
  assume d: "compact_date d"
  then obtain t where t: "d = CHR ''-'' # t" "length t = 8" "list_all is_digit t"
    by (cases d) (auto simp: compact_date_def)
  have nd: "\<not> dashed_date (drop (length (m @ d) - 11) (m @ d))"
  proof
    assume dd: "dashed_date (drop (length (m @ d) - 11) (m @ d))"
    let ?s = "drop (length (m @ d) - 11) (m @ d)"
    have len: "length ?s = 11" using dd by (simp add: dashed_date_def)
    then have "11 \<le> length (m @ d)" by simp
    then have "?s ! 2 = (m @ d) ! (length (m @ d) - 11 + 2)" by (intro nth_drop) simp
    also have "length (m @ d) - 11 + 2 = length m" using t \<open>11 \<le> _\<close> by simp
    also have "(m @ d) ! length m = CHR ''-''" using t by (simp add: nth_append)
    finally have "is_digit (CHR ''-'')"
      using dashed_digit [OF dd] by (simp only:)
    then show False by (simp add: is_digit_def)
  qed
  have "length d = 9" using t by simp
  with d nd show ?thesis by (simp add: dateSuffix_strip_def)
qed

lemma strip_dashed: "dashed_date d \<Longrightarrow> dateSuffix_strip (m @ d) = m"
  by (simp add: dateSuffix_strip_def dashed_date_def)

text \<open>A model name with a date suffix, in either of the two forms, that has no entry of its own
  costs what its undated name costs; an entry for the dated name itself takes precedence, and a
  name without a known base is reported as unknown with cost zero.\<close>

theorem dated_model_cost:
  assumes "compact_date d \<or> dashed_date d" "map_of p upstream = Some table"
  shows "Pricer_Cost p upstream (m @ d) i out =
    (case map_of table (m @ d) of Some mp \<Rightarrow> (ModelPrice_Cost mp i out, True)
     | None \<Rightarrow> (case map_of table m of None \<Rightarrow> (Fin 0, False) | Some mp \<Rightarrow> (ModelPrice_Cost mp i out, True)))"
proof -
  have "dateSuffix_strip (m @ d) = m" using assms(1) strip_compact strip_dashed by blast
  moreover have "d \<noteq> []" using assms(1) by (auto simp: compact_date_def dashed_date_def)
  ultimately show ?thesis using assms(2) by (simp add: Pricer_Cost_def Let_def split: option.split)
qed

theorem dated_model_cost_witness:
  "Pricer_Cost [(''anthropic'', [(''claude-opus-4-5'', \<lparr>InputPerMToken = Fin 5, OutputPerMToken = Fin 25\<rparr>)])]
      ''anthropic'' (''claude-opus-4-5'' @ ''-20251101'') 1 2 =
    (ModelPrice_Cost \<lparr>InputPerMToken = Fin 5, OutputPerMToken = Fin 25\<rparr> 1 2, True)"
  using dated_model_cost [of "''-20251101''"
    "[(''anthropic'', [(''claude-opus-4-5'', \<lparr>InputPerMToken = Fin 5, OutputPerMToken = Fin 25\<rparr>)])]" "''anthropic''"
    "[(''claude-opus-4-5'', \<lparr>InputPerMToken = Fin 5, OutputPerMToken = Fin 25\<rparr>)]" "''claude-opus-4-5''" 1 2]
  by (simp add: compact_date_def is_digit_def)

section \<open>Overrides\<close>

text \<open>The table as the nested Go map it stands for.\<close>

definition price_of :: "Pricer \<Rightarrow> string \<Rightarrow> string \<Rightarrow> ModelPrice option" where
  "price_of p u m = (case map_of p u of None \<Rightarrow> None | Some t \<Rightarrow> map_of t m)"

definition wf_pricer :: "Pricer \<Rightarrow> bool" where
  "wf_pricer p \<longleftrightarrow> distinct (map fst p) \<and> (\<forall>u t. map_of p u = Some t \<longrightarrow> distinct (map fst t))"

definition prices_ok :: "Pricer \<Rightarrow> bool" where
  "prices_ok p \<longleftrightarrow> (\<forall>u m mp. price_of p u m = Some mp \<longrightarrow> \<not> bad_price mp)"

lemma price_of_update [simp]:
  "price_of (AList.update u t p) u' m = (if u' = u then map_of t m else price_of p u' m)"
  by (simp add: price_of_def update_conv')

lemma wf_pricer_update: "wf_pricer p \<Longrightarrow> distinct (map fst t) \<Longrightarrow> wf_pricer (AList.update u t p)"
  by (simp add: wf_pricer_def distinct_update update_conv')

lemma price_of_merge_entry [simp]:
  "price_of (merge_entry u p (m, mp)) u' m' = (if u' = u \<and> m' = m then Some mp else price_of p u' m')"
  by (simp add: update_conv' price_of_def split: option.split)

lemma wf_merge_entry: "wf_pricer p \<Longrightarrow> wf_pricer (merge_entry u p e)"
proof -
  assume p: "wf_pricer p"
  then have "distinct (map fst (case map_of p u of None \<Rightarrow> [] | Some t \<Rightarrow> t))"
    by (auto simp: wf_pricer_def split: option.split)
  then show ?thesis using p by (cases e) (simp add: wf_pricer_update distinct_update)
qed

lemma price_of_merge_entries:
  "distinct (map fst t) \<Longrightarrow> price_of (foldl (merge_entry u) p t) u' m =
    (if u' = u then (case map_of t m of None \<Rightarrow> price_of p u m | Some mp \<Rightarrow> Some mp) else price_of p u' m)"
proof (induction t arbitrary: p)
  case (Cons e t)
  then show ?case by (cases e) (auto simp del: merge_entry.simps dest: map_of_SomeD split: option.split intro: rev_image_eqI)
qed simp

lemma wf_merge_entries: "wf_pricer p \<Longrightarrow> wf_pricer (foldl (merge_entry u) p t)"
  by (induction t arbitrary: p) (simp_all add: wf_merge_entry)

lemma price_of_merge_table [simp]:
  "distinct (map fst t) \<Longrightarrow> price_of (merge_table p (u, t)) u' m =
    (if u' = u then (case map_of t m of None \<Rightarrow> price_of p u m | Some mp \<Rightarrow> Some mp) else price_of p u' m)"
  by (cases "map_of p u") (auto simp: price_of_merge_entries price_of_def [of p] split: option.split)

lemma wf_merge_table: "wf_pricer p \<Longrightarrow> wf_pricer (merge_table p e)"
  by (cases e) (auto intro!: wf_merge_entries wf_pricer_update)

lemma merge_models_spec:
  assumes "wf_pricer base" "distinct (map fst models)" "\<forall>(u, t) \<in> set models. distinct (map fst t)"
  shows "wf_pricer (merge_models base models) \<and> price_of (merge_models base models) u m =
    (case price_of models u m of None \<Rightarrow> price_of base u m | Some mp \<Rightarrow> Some mp)"
  using assms
proof (induction models arbitrary: base)
  case Nil
  then show ?case by (simp add: merge_models_def price_of_def)
next
  case (Cons e models)
  obtain u' t where e: "e = (u', t)" by (cases e)
  have t: "distinct (map fst t)" using Cons.prems(3) e by simp
  have "wf_pricer (merge_table base e)" using Cons.prems(1) by (rule wf_merge_table)
  with Cons.IH [of "merge_table base e"] Cons.prems(2,3) show ?case
    using e t by (auto simp: merge_models_def price_of_def [of "_ # _"] price_of_def [of models]
      dest: map_of_SomeD split: option.split simp del: merge_table.simps intro: rev_image_eqI)
qed

lemma validate_table_ok:
  "validate_table u t = None \<longleftrightarrow> (\<forall>(m, p) \<in> set t. \<not> bad_price p)"
  by (induction t) (auto split: if_splits)

lemma validate_models_ok:
  "validate_models ms = None \<longleftrightarrow> (\<forall>(u, t) \<in> set ms. \<forall>(m, p) \<in> set t. \<not> bad_price p)"
  by (induction ms) (auto simp: validate_table_ok split: option.splits)

lemma wf_pricer_sets: "wf_pricer p \<Longrightarrow> \<forall>(u, t) \<in> set p. distinct (map fst t)"
  by (force simp: wf_pricer_def)

lemma validate_prices_ok: "wf_pricer p \<Longrightarrow> validate_models p = None \<longleftrightarrow> prices_ok p"
  unfolding validate_models_ok prices_ok_def price_of_def wf_pricer_def
  by (fastforce split: option.splits dest: map_of_SomeD)

lemma LoadConfigFile_Some:
  assumes "LoadConfigFile readFile unmarshal path (Some base) = Inr r" "\<not> blank path"
  obtains raw cfg where "readFile path = Inr raw" "unmarshal raw = Inr cfg"
    "Version cfg = '''' \<or> Version cfg = ''1''" "validate_models (Models cfg) = None"
    "r = Some (merge_models base (Models cfg))"
proof -
  from assms obtain raw where raw: "readFile path = Inr raw"
    by (cases "readFile path") (simp_all add: LoadConfigFile_def)
  with assms obtain cfg where cfg: "unmarshal raw = Inr cfg"
    by (cases "unmarshal raw") (simp_all add: LoadConfigFile_def)
  from assms raw cfg have v: "Version cfg = '''' \<or> Version cfg = ''1''"
    by (simp add: LoadConfigFile_def Let_def ConfigSchemaVersion_def split: if_splits)
  from assms raw cfg v have "validate_models (Models cfg) = None" "r = Some (merge_models base (Models cfg))"
    by (auto simp: LoadConfigFile_def Let_def ConfigSchemaVersion_def split: option.splits)
  with that raw cfg v show ?thesis by blast
qed

lemma validate_table_Some:
  "validate_table u t = Some e \<Longrightarrow> \<exists>m mp. e = InvalidEntry u m \<and> (m, mp) \<in> set t \<and> bad_price mp"
proof (induction t)
  case (Cons x t)
  then show ?case by (cases x) (fastforce split: if_splits)
qed simp

lemma validate_models_Some:
  "validate_models ms = Some e \<Longrightarrow>
    \<exists>u m mp t. e = InvalidEntry u m \<and> (u, t) \<in> set ms \<and> (m, mp) \<in> set t \<and> bad_price mp"
proof (induction ms)
  case (Cons x ms)
  then show ?case by (cases x) (fastforce dest: validate_table_Some split: option.splits)
qed simp

text \<open>C24: A configuration file that loads gives exactly the base table with the file's entries on
  top, whatever the order in which either map is visited; and a file with one negative price or an
  unknown version loads nothing at all.\<close>

theorem config_file_overrides_base:
  assumes "\<not> blank path" "wf_pricer base" "readFile path = Inr raw" "unmarshal raw = Inr cfg" "wf_pricer (Models cfg)"
  shows "case LoadConfigFile readFile unmarshal path (Some base) of
      Inl e \<Rightarrow> e = ErrUnknownConfigVersion (Version cfg) ''1'' \<and> Version cfg \<notin> {'''', ''1''} \<or>
        (\<exists>u m mp. e = InvalidEntry u m \<and> price_of (Models cfg) u m = Some mp \<and> bad_price mp)
    | Inr r \<Rightarrow> \<exists>p. r = Some p \<and> wf_pricer p \<and> prices_ok (Models cfg) \<and> Version cfg \<in> {'''', ''1''} \<and>
        (\<forall>u m. price_of p u m = (case price_of (Models cfg) u m of None \<Rightarrow> price_of base u m | Some mp \<Rightarrow> Some mp))"
proof (cases "Version cfg = '''' \<or> Version cfg = ''1''")
  case False
  then show ?thesis using assms(1,3,4) by (simp add: LoadConfigFile_def Let_def ConfigSchemaVersion_def)
next
  case True
  show ?thesis
  proof (cases "validate_models (Models cfg)")
    case None
    then have "LoadConfigFile readFile unmarshal path (Some base) = Inr (Some (merge_models base (Models cfg)))"
      using True assms(1,3,4) by (auto simp: LoadConfigFile_def Let_def ConfigSchemaVersion_def)
    moreover have "prices_ok (Models cfg)" using None validate_prices_ok [OF assms(5)] by simp
    moreover have "distinct (map fst (Models cfg))" using assms(5) by (simp add: wf_pricer_def)
    note merge_models_spec [OF assms(2) this wf_pricer_sets [OF assms(5)]]
    ultimately show ?thesis using True by simp
  next
    case (Some e)
    then obtain u m mp t where e: "e = InvalidEntry u m" "(u, t) \<in> set (Models cfg)" "(m, mp) \<in> set t" "bad_price mp"
      using validate_models_Some by blast
    then have "price_of (Models cfg) u m = Some mp"
      using assms(5) wf_pricer_sets [OF assms(5)] by (auto simp: price_of_def wf_pricer_def)
    moreover have "LoadConfigFile readFile unmarshal path (Some base) = Inl e"
      using Some True assms(1,3,4) by (auto simp: LoadConfigFile_def Let_def ConfigSchemaVersion_def)
    ultimately show ?thesis using e by auto
  qed
qed

abbreviation "demo_price \<equiv> \<lparr>InputPerMToken = Fin 3, OutputPerMToken = Fin 15\<rparr>"
abbreviation "free_price \<equiv> \<lparr>InputPerMToken = Fin 0, OutputPerMToken = Fin 0\<rparr>"

theorem config_file_overrides_base_witness:
  "\<exists>p. LoadConfigFile (\<lambda>_. Inr ''{}'') (\<lambda>_. Inr \<lparr>Version = '''', Models = [(''openai'', [(''gpt'', free_price)])]\<rparr>)
      ''rein.json'' (Some [(''openai'', [(''gpt'', demo_price), (''o1'', demo_price)])]) = Inr (Some p) \<and>
    price_of p ''openai'' ''gpt'' = Some free_price \<and> price_of p ''openai'' ''o1'' = Some demo_price"
proof -
  let ?base = "[(''openai'', [(''gpt'', demo_price), (''o1'', demo_price)])]"
  let ?cfg = "\<lparr>Version = '''', Models = [(''openai'', [(''gpt'', free_price)])]\<rparr>"
  let ?load = "LoadConfigFile (\<lambda>_. Inr ''{}'') (\<lambda>_. Inr ?cfg) ''rein.json'' (Some ?base)"
  have b: "\<not> blank ''rein.json''" using TrimSpace_visible [of "CHR ''r''" "''rein.json''"] by (simp add: blank_def visible_def)
  have w: "wf_pricer ?base" "wf_pricer (Models ?cfg)" by (simp_all add: wf_pricer_def)
  have "?load = Inr (Some (merge_models ?base (Models ?cfg)))"
    using b by (simp add: LoadConfigFile_def Let_def ConfigSchemaVersion_def bad_price_def)
  moreover have "price_of (Models ?cfg) ''openai'' ''gpt'' = Some free_price"
    "price_of (Models ?cfg) ''openai'' ''o1'' = None" "price_of ?base ''openai'' ''o1'' = Some demo_price"
    by (simp_all add: price_of_def)
  ultimately show ?thesis
    using config_file_overrides_base [OF b w(1), of "\<lambda>_. Inr ''{}''" "''{}''" "\<lambda>_. Inr ?cfg" ?cfg] w(2) by simp
qed

text \<open>What an active snapshot must satisfy: every price is usable and every model of the built-in
  table is still priced.\<close>

definition snapshot_ok :: "Pricer \<Rightarrow> Pricer \<Rightarrow> bool" where
  "snapshot_ok base p \<longleftrightarrow> wf_pricer p \<and> prices_ok p \<and>
     (\<forall>u m. price_of base u m \<noteq> None \<longrightarrow> price_of p u m \<noteq> None)"

lemma LoadConfigFile_snapshot_ok:
  assumes "LoadConfigFile readFile unmarshal path (Some base) = Inr r" "snapshot_ok base base"
    "\<And>raw cfg. unmarshal raw = Inr cfg \<Longrightarrow> wf_pricer (Models cfg)"
  shows "\<exists>p. r = Some p \<and> snapshot_ok base p"
proof (cases "blank path")
  case True
  then show ?thesis using assms(1,2) by (auto simp: LoadConfigFile_def)
next
  case False
  obtain raw cfg where f: "unmarshal raw = Inr cfg" "validate_models (Models cfg) = None"
    "r = Some (merge_models base (Models cfg))" by (rule LoadConfigFile_Some [OF assms(1) False]) blast
  have wf: "wf_pricer (Models cfg)" by (rule assms(3) [OF f(1)])
  then have d: "distinct (map fst (Models cfg))" by (simp add: wf_pricer_def)
  have base: "wf_pricer base" "prices_ok base" using assms(2) by (simp_all add: snapshot_ok_def)
  have ok: "prices_ok (Models cfg)" using f(2) validate_prices_ok [OF wf] by simp
  note m = merge_models_spec [OF base(1) d wf_pricer_sets [OF wf]]
  have "snapshot_ok base (merge_models base (Models cfg))"
    unfolding snapshot_ok_def prices_ok_def using m ok base(2) by (auto simp: prices_ok_def split: option.splits)
  with f(3) show ?thesis by blast
qed

text \<open>C25: Whatever files appear, disappear or break while the poll loop runs, the snapshot that serves
  traffic always exists, has no negative price, and prices every model of the built-in table, so a
  bad file can neither stop billing nor unprice a known model.\<close>

theorem reload_keeps_snapshot_usable:
  assumes "snapshot_ok base base" "snapshot_ok base p0"
    "\<forall>raw cfg. unmarshal raw = Inr cfg \<longrightarrow> wf_pricer (Models cfg)"
    "\<forall>st load. PollTick st load \<in> set evs \<longrightarrow> (\<exists>readFile. load = LoadConfigFile readFile unmarshal path (Some base))"
  shows "\<exists>p. holder_Load (PollLoop stat0 (NewPricerHolder (Some p0)) evs) = Some p \<and> snapshot_ok base p"
proof -
  have "\<exists>p. poll_loop t (Some q) evs = Some p \<and> snapshot_ok base p" if "snapshot_ok base q" for t q
    using assms(4) that
  proof (induction evs arbitrary: t q)
    case (Cons ev evs)
    show ?case
    proof (cases ev)
      case (PollTick st load)
      have rest: "\<exists>p. poll_loop t' (Some q') evs = Some p \<and> snapshot_ok base p" if "snapshot_ok base q'" for t' q'
        using Cons.IH [of q' t'] Cons.prems(1) that by auto
      obtain readFile where load: "load = LoadConfigFile readFile unmarshal path (Some base)"
        using Cons.prems(1) PollTick by auto
      show ?thesis
      proof (cases load)
        case (Inl err)
        then show ?thesis using rest Cons.prems(2) PollTick by (cases st) (auto simp: TryReload_def)
      next
        case (Inr r)
        then obtain q' where "r = Some q'" "snapshot_ok base q'"
          using LoadConfigFile_snapshot_ok [OF _ assms(1)] assms(3) load by metis
        then show ?thesis
          using rest Cons.prems(2) PollTick Inr by (cases st) (auto simp: TryReload_def holder_Swap_def)
      qed
    qed (use Cons.prems(2) in simp)
  qed simp
  from this [OF assms(2)] show ?thesis
    by (simp add: PollLoop_def NewPricerHolder_def holder_Load_def)
qed

theorem reload_keeps_snapshot_usable_witness:
  "\<exists>p. holder_Load (PollLoop (Inr 0) (NewPricerHolder (Some [(''openai'', [(''gpt'', demo_price)])]))
      [PollTick (Inr 3) (Inl (ReadFailed ''gone'')), PollTick (Inl ''stat'') (Inl (ReadFailed ''gone''))]) = Some p \<and>
    snapshot_ok [(''openai'', [(''gpt'', demo_price)])] p"
proof -
  let ?base = "[(''openai'', [(''gpt'', demo_price)])]"
  have "snapshot_ok ?base ?base"
    by (simp add: snapshot_ok_def wf_pricer_def prices_ok_def price_of_def bad_price_def)
  moreover have "LoadConfigFile (\<lambda>_. Inl ''gone'') (\<lambda>_. Inl ''bad json'') ''f'' (Some ?base) = Inl (ReadFailed ''gone'')"
    using TrimSpace_visible [of "CHR ''f''" "''f''"] by (simp add: LoadConfigFile_def blank_def visible_def)
  then have "\<exists>readFile. Inl (ReadFailed ''gone'') = LoadConfigFile readFile (\<lambda>_. Inl ''bad json'') ''f'' (Some ?base)"
    by metis
  ultimately show ?thesis
    by (intro reload_keeps_snapshot_usable [where unmarshal = "\<lambda>_. Inl ''bad json''" and path = "''f''"]) auto
qed

end
