(* ===== verification/Proxy.thy ===== *)
theory Proxy
  imports Killswitch Concurrency Rates Sweeper Meter
begin

text \<open>
  \<open>internal/proxy/proxy.go\<close>, \<open>errcodes.go\<close> and \<open>internal/api/errors.go\<close>: the dispatcher. A
  \<open>Proxy\<close> is a record of the interface values it was built with, each absent when nil, over the
  state \<open>'s\<close> of whatever implements them; \<open>'r\<close> is what an upstream adapter's \<open>ServeHTTP\<close> leaves
  behind, a response or a panic. \<open>ServeHTTP\<close> is split where the source has its comments:
  \<open>authenticate\<close> decides without changing state, \<open>enforce\<close> runs the budget, the rate limit and the
  concurrency cap, and the deferred \<open>Release\<close> runs after the adapter. The clock is read once per
  check (\<open>clock\<close>).
\<close>

section \<open>Responses\<close>

record error_response =
  status :: nat
  retryAfter :: "string option"
  err_code :: string
  err_message :: string

text \<open>\<open>api.WriteError\<close>, with the \<open>Retry-After\<close> header the caller has set.\<close>

definition WriteError :: "string option \<Rightarrow> nat \<Rightarrow> string \<Rightarrow> string \<Rightarrow> error_response" where
  "WriteError retry st code message =
     \<lparr>status = st, retryAfter = retry, err_code = code, err_message = message\<rparr>"

definition CodeKillSwitchEngaged :: string where "CodeKillSwitchEngaged = ''kill_switch_engaged''"
definition CodeDraining :: string where "CodeDraining = ''draining''"
definition CodeMissingKey :: string where "CodeMissingKey = ''missing_key''"
definition CodeInvalidKey :: string where "CodeInvalidKey = ''invalid_key''"
definition CodeKeyRevoked :: string where "CodeKeyRevoked = ''key_revoked''"
definition CodeUpstreamMismatch :: string where "CodeUpstreamMismatch = ''upstream_mismatch''"
definition CodeBudgetExceeded :: string where "CodeBudgetExceeded = ''budget_exceeded''"
definition CodeRateLimited :: string where "CodeRateLimited = ''rate_limited''"
definition CodeConcurrencyExceeded :: string where "CodeConcurrencyExceeded = ''concurrency_exceeded''"
definition CodeUnknownRoute :: string where "CodeUnknownRoute = ''unknown_route''"
definition CodeInternalError :: string where "CodeInternalError = ''internal_error''"

lemmas code_defs = CodeKillSwitchEngaged_def CodeDraining_def CodeMissingKey_def CodeInvalidKey_def
  CodeKeyRevoked_def CodeUpstreamMismatch_def CodeBudgetExceeded_def CodeRateLimited_def
  CodeConcurrencyExceeded_def CodeUnknownRoute_def CodeInternalError_def

section \<open>The dispatcher\<close>

record request =
  URL_Path :: string
  Authorization :: string

record clock =
  t_expiry :: instant
  t_meter :: instant
  t_rates :: i64

record 's Proxy =
  px_store :: "('s \<Rightarrow> string \<Rightarrow> keys_error + VirtualKey) option"
  px_killSwitch :: "('s \<Rightarrow> string + bool) option"
  px_meter :: "('s \<Rightarrow> instant \<Rightarrow> string \<Rightarrow> f64 \<Rightarrow> f64 \<Rightarrow> meter_error option) option"
  px_rates :: "('s \<Rightarrow> i64 \<Rightarrow> string \<Rightarrow> i64 \<Rightarrow> i64 \<Rightarrow> 's \<times> rates_error option) option"
  px_concurrency :: "(('s \<Rightarrow> string \<Rightarrow> i64 \<Rightarrow> 's \<times> bool) \<times> ('s \<Rightarrow> string \<Rightarrow> i64 \<Rightarrow> 's)) option"
  px_draining :: bool

definition SetDraining :: "'s Proxy \<Rightarrow> bool \<Rightarrow> 's Proxy" where
  "SetDraining p v = p\<lparr>px_draining := v\<rparr>"

definition IsDraining :: "'s Proxy \<Rightarrow> bool" where
  "IsDraining p = px_draining p"

definition expectedUpstreamForPath :: "string \<Rightarrow> string" where
  "expectedUpstreamForPath path =
     (if HasPrefix path ''/v1/chat/'' \<or> HasPrefix path ''/v1/completions'' \<or>
         HasPrefix path ''/v1/embeddings'' \<or> HasPrefix path ''/v1/models'' \<or>
         HasPrefix path ''/v1/audio/'' \<or> HasPrefix path ''/v1/images/''
      then UpstreamOpenAI
      else if HasPrefix path ''/v1/messages'' then UpstreamAnthropic
      else '''')"

datatype resolve_error = ErrMissingKey | ErrInvalidKey | OtherResolveError

definition resolveKey :: "'s Proxy \<Rightarrow> 's \<Rightarrow> request \<Rightarrow> resolve_error + VirtualKey option" where
  "resolveKey p s r = (case px_store p of None \<Rightarrow> Inr None | Some getByToken \<Rightarrow>
     let auth = Authorization r in
     if auth = '''' then Inl ErrMissingKey
     else if \<not> HasPrefix auth ''Bearer '' then Inl ErrMissingKey
     else let token = TrimPrefix auth ''Bearer '' in
       if \<not> IsReinToken token then Inl ErrInvalidKey
       else case getByToken s token of Inl _ \<Rightarrow> Inl ErrInvalidKey | Inr vk \<Rightarrow> Inr (Some vk))"

text \<open>From the route to the upstream match: the upstream and the key to serve, or the response.\<close>

definition authenticate :: "'s Proxy \<Rightarrow> 's \<Rightarrow> clock \<Rightarrow> request \<Rightarrow>
    error_response + string \<times> VirtualKey option" where
  "authenticate p s clk r =
     (let wantUpstream = expectedUpstreamForPath (URL_Path r) in
      if wantUpstream = '''' then Inl (WriteError None 404 CodeUnknownRoute ''unknown upstream route'')
      else if px_draining p then
        Inl (WriteError (Some ''5'') 503 CodeDraining ''rein replica is draining; retry on another replica'')
      else
        let frozen = (case px_killSwitch p of None \<Rightarrow> Inr False | Some isFrozen \<Rightarrow> isFrozen s) in
        case frozen of
          Inl _ \<Rightarrow> Inl (WriteError None 500 CodeInternalError ''kill-switch check failed'')
        | Inr True \<Rightarrow> Inl (WriteError (Some ''60'') 503 CodeKillSwitchEngaged ''rein is frozen: kill-switch engaged'')
        | Inr False \<Rightarrow>
          (case resolveKey p s r of
             Inl ErrMissingKey \<Rightarrow> Inl (WriteError None 401 CodeMissingKey ''missing rein key'')
           | Inl ErrInvalidKey \<Rightarrow> Inl (WriteError None 401 CodeInvalidKey ''invalid rein key'')
           | Inl OtherResolveError \<Rightarrow> Inl (WriteError None 500 CodeInternalError ''key resolution failed'')
           | Inr None \<Rightarrow> Inr (wantUpstream, None)
           | Inr (Some vkey) \<Rightarrow>
               if IsRevoked (Some vkey) then Inl (WriteError None 401 CodeKeyRevoked ''virtual key revoked'')
               else if IsExpired (Some vkey) (t_expiry clk) then
                 Inl (WriteError None 401 CodeKeyRevoked ''virtual key revoked'')
               else if Upstream vkey \<noteq> wantUpstream then
                 Inl (WriteError None 400 CodeUpstreamMismatch ''rein key upstream does not match request path'')
               else Inr (wantUpstream, Some vkey)))"

text \<open>The three checks of a resolved key.\<close>

definition budget_gate :: "'s Proxy \<Rightarrow> 's \<Rightarrow> clock \<Rightarrow> VirtualKey \<Rightarrow> error_response option" where
  "budget_gate p s clk vkey = (case px_meter p of None \<Rightarrow> None | Some check \<Rightarrow>
     if f64_lt (Fin 0) (DailyBudgetUSD vkey) \<or> f64_lt (Fin 0) (MonthBudgetUSD vkey) then
       (case check s (t_meter clk) (ID vkey) (DailyBudgetUSD vkey) (MonthBudgetUSD vkey) of
          Some ErrBudgetExceeded \<Rightarrow>
            Some (WriteError None 402 CodeBudgetExceeded ''budget exceeded for this virtual key'')
        | Some (MeterFailure _) \<Rightarrow> None
        | None \<Rightarrow> None)
     else None)"

definition Itoa :: "i64 \<Rightarrow> string" where
  "Itoa n = append_int 1 (sint n)"

definition rate_gate :: "'s Proxy \<Rightarrow> 's \<Rightarrow> clock \<Rightarrow> VirtualKey \<Rightarrow> 's \<times> error_response option" where
  "rate_gate p s clk vkey = (case px_rates p of None \<Rightarrow> (s, None) | Some allow \<Rightarrow>
     if 0 <s RPSLimit vkey \<or> 0 <s RPMLimit vkey then
       (case allow s (t_rates clk) (ID vkey) (RPSLimit vkey) (RPMLimit vkey) of
          (s, None) \<Rightarrow> (s, None)
        | (s, Some err) \<Rightarrow>
            if is_rate_limited err then
              let (ra, ok) = RetryAfter err;
                  retry = (if ok then Itoa ra else ''1'')
              in (s, Some (WriteError (Some retry) 429 CodeRateLimited ''rate limit exceeded for this virtual key''))
            else (s, None))
     else (s, None))"

text \<open>The second component of a success tells whether a release was deferred.\<close>

definition concurrency_gate :: "'s Proxy \<Rightarrow> 's \<Rightarrow> VirtualKey \<Rightarrow> 's \<times> (error_response + bool)" where
  "concurrency_gate p s vkey = (case px_concurrency p of None \<Rightarrow> (s, Inr False) | Some (acquire, _) \<Rightarrow>
     if 0 <s MaxConcurrent vkey then
       (case acquire s (ID vkey) (MaxConcurrent vkey) of
          (s, True) \<Rightarrow> (s, Inr True)
        | (s, False) \<Rightarrow> (s, Inl (WriteError (Some ''1'') 429 CodeConcurrencyExceeded
            ''concurrency limit exceeded for this virtual key'')))
     else (s, Inr False))"

definition enforce :: "'s Proxy \<Rightarrow> 's \<Rightarrow> clock \<Rightarrow> VirtualKey \<Rightarrow> 's \<times> (error_response + bool)" where
  "enforce p s clk vkey =
     (case budget_gate p s clk vkey of Some e \<Rightarrow> (s, Inl e) | None \<Rightarrow>
      case rate_gate p s clk vkey of (s, Some e) \<Rightarrow> (s, Inl e) | (s, None) \<Rightarrow>
      concurrency_gate p s vkey)"

definition deferred_release :: "'s Proxy \<Rightarrow> 's \<Rightarrow> VirtualKey \<Rightarrow> bool \<Rightarrow> 's" where
  "deferred_release p s vkey held = (case px_concurrency p of None \<Rightarrow> s
     | Some (_, release) \<Rightarrow> if held then release s (ID vkey) (MaxConcurrent vkey) else s)"

text \<open>The timeout of the request context in seconds, when the key sets one.\<close>

definition upstream_timeout :: "VirtualKey \<Rightarrow> i64 option" where
  "upstream_timeout vkey = (if 0 <s UpstreamTimeoutSeconds vkey then Some (UpstreamTimeoutSeconds vkey) else None)"

datatype 'r outcome = Rejected error_response | Forwarded 'r

type_synonym ('s, 'r) adapter = "'s \<Rightarrow> request \<Rightarrow> VirtualKey option \<Rightarrow> i64 option \<Rightarrow> 's \<times> 'r"

definition dispatch :: "('s, 'r) adapter \<Rightarrow> ('s, 'r) adapter \<Rightarrow> 's \<Rightarrow> string \<Rightarrow> request \<Rightarrow>
    VirtualKey option \<Rightarrow> i64 option \<Rightarrow> 's \<times> 'r outcome" where
  "dispatch openai anthropic s wantUpstream r vkey timeout =
     (if wantUpstream = UpstreamOpenAI then apsnd Forwarded (openai s r vkey timeout)
      else if wantUpstream = UpstreamAnthropic then apsnd Forwarded (anthropic s r vkey timeout)
      else (s, Rejected (WriteError None 500 CodeInternalError ''no handler for upstream'')))"

definition ServeHTTP :: "'s Proxy \<Rightarrow> ('s, 'r) adapter \<Rightarrow> ('s, 'r) adapter \<Rightarrow> 's \<Rightarrow> clock \<Rightarrow> request \<Rightarrow>
    's \<times> 'r outcome" where
  "ServeHTTP p openai anthropic s clk r =
     (case authenticate p s clk r of
        Inl e \<Rightarrow> (s, Rejected e)
      | Inr (want, None) \<Rightarrow> dispatch openai anthropic s want r None None
      | Inr (want, Some vkey) \<Rightarrow>
          case enforce p s clk vkey of
            (s, Inl e) \<Rightarrow> (s, Rejected e)
          | (s, Inr held) \<Rightarrow>
              let (s, out) = dispatch openai anthropic s want r (Some vkey) (upstream_timeout vkey)
              in (deferred_release p s vkey held, out))"

end
