(* ===== verification/Admission.thy ===== *)
theory Admission
  imports Proxy
begin

text \<open>
  What the dispatcher of \<open>Proxy\<close> lets through. \<open>world\<close> is the state of one replica with the in-memory
  stores, \<open>rein\<close> the \<open>Proxy\<close> that \<open>cmd/rein/main.go\<close> wires to them. The lemmas compute each stage of
  \<open>ServeHTTP\<close> on that wiring from the facts of the stores' interfaces; the properties say which
  requests reach an upstream, what every rejection looks like and what it leaves behind, and that
  the concurrency slot is always returned.
\<close>

section \<open>The production wiring\<close>

text \<open>The state of the stores a single replica runs on, and the \<open>Proxy\<close> wired to them as
  \<open>cmd/rein/main.go\<close> does, with the in-memory backends.\<close>

record world =
  w_keys :: keys_memory
  w_switch :: ks_memory
  w_meter :: meter_memory
  w_rates :: rates_memory
  w_conc :: conc_memory

definition w_Allow :: "world \<Rightarrow> i64 \<Rightarrow> string \<Rightarrow> i64 \<Rightarrow> i64 \<Rightarrow> world \<times> rates_error option" where
  "w_Allow w now k rps rpm = apfst (\<lambda>m. w\<lparr>w_rates := m\<rparr>) (Allow (w_rates w) now k rps rpm)"

definition w_Acquire :: "world \<Rightarrow> string \<Rightarrow> i64 \<Rightarrow> world \<times> bool" where
  "w_Acquire w k l = apfst (\<lambda>m. w\<lparr>w_conc := m\<rparr>) (conc_Acquire (w_conc w) k l)"

definition w_Release :: "world \<Rightarrow> string \<Rightarrow> i64 \<Rightarrow> world" where
  "w_Release w k l = w\<lparr>w_conc := conc_Release (w_conc w) k l\<rparr>"

definition rein :: "bool \<Rightarrow> world Proxy" where
  "rein draining = \<lparr>px_store = Some (\<lambda>w. keys_GetByToken (w_keys w)),
     px_killSwitch = Some (\<lambda>w. ks_IsFrozen (w_switch w)),
     px_meter = Some (\<lambda>w. meter_Check (w_meter w)), px_rates = Some w_Allow,
     px_concurrency = Some (w_Acquire, w_Release), px_draining = draining\<rparr>"

lemmas rein_simps = rein_def w_Allow_def w_Acquire_def w_Release_def

section \<open>What is forwarded\<close>

definition admissible :: "bool \<Rightarrow> world \<Rightarrow> clock \<Rightarrow> request \<Rightarrow> VirtualKey \<Rightarrow> bool" where
  "admissible draining w clk r k \<longleftrightarrow>
     \<not> draining \<and> ks_IsFrozen (w_switch w) = Inr False \<and>
     Upstream k = expectedUpstreamForPath (URL_Path r) \<and> Upstream k \<noteq> '''' \<and>
     (\<exists>t. Authorization r = ''Bearer '' @ t \<and> IsReinToken t \<and> keys_GetByToken (w_keys w) t = Inr k) \<and>
     RevokedAt k = None \<and> (\<forall>e. ExpiresAt k = Some e \<longrightarrow> t_expiry clk < e) \<and>
     meter_Check (w_meter w) (t_meter clk) (ID k) (DailyBudgetUSD k) (MonthBudgetUSD k) = None \<and>
     snd (Allow (w_rates w) (t_rates clk) (ID k) (RPSLimit k) (RPMLimit k)) = None \<and>
     snd (conc_Acquire (w_conc w) (ID k) (MaxConcurrent k))"

lemma expected_cases:
  "expectedUpstreamForPath path \<in> {'''', UpstreamOpenAI, UpstreamAnthropic}"
  by (simp add: expectedUpstreamForPath_def)

lemma upstream_ne [simp]: "UpstreamOpenAI \<noteq> ''''" "UpstreamAnthropic \<noteq> ''''" "UpstreamAnthropic \<noteq> UpstreamOpenAI"
  by (simp_all add: UpstreamOpenAI_def UpstreamAnthropic_def)

lemma bearer_token:
  "(\<exists>t. auth = ''Bearer '' @ t \<and> P t) \<longleftrightarrow> HasPrefix auth ''Bearer '' \<and> P (TrimPrefix auth ''Bearer '')"
  using HasPrefixE [of auth "''Bearer ''"] HasPrefix_append [of "''Bearer ''"] TrimPrefix_append [of "''Bearer ''"] by metis

text \<open>Authentication over any key store and any kill switch.\<close>

lemma resolveKey_store:
  assumes "px_store p = Some get"
  shows "resolveKey p s r = Inr vk \<longleftrightarrow>
    (\<exists>t k. Authorization r = ''Bearer '' @ t \<and> IsReinToken t \<and> get s t = Inr k \<and> vk = Some k)"
proof -
  note bearer_token [of "Authorization r" "\<lambda>t. \<exists>k. IsReinToken t \<and> get s t = Inr k \<and> vk = Some k"]
  moreover have "\<not> HasPrefix '''' ''Bearer ''" by (simp add: HasPrefix_def)
  ultimately show ?thesis
    by (auto simp: resolveKey_def assms Let_def split: sum.splits)
qed

lemma authenticate_store:
  assumes p: "px_store p = Some get" "px_killSwitch p = Some isFrozen"
  shows "authenticate p s clk r = Inr (want, vk) \<longleftrightarrow>
    want = expectedUpstreamForPath (URL_Path r) \<and> want \<noteq> '''' \<and> \<not> px_draining p \<and> isFrozen s = Inr False \<and>
    (\<exists>k. vk = Some k \<and> resolveKey p s r = Inr (Some k) \<and> RevokedAt k = None \<and>
      (\<forall>e. ExpiresAt k = Some e \<longrightarrow> t_expiry clk < e) \<and> Upstream k = want)"
proof -
  let ?want = "expectedUpstreamForPath (URL_Path r)"
  have none: "resolveKey p s r \<noteq> Inr None" by (simp add: resolveKey_store [OF p(1)])
  show ?thesis
  proof (cases "?want = '''' \<or> px_draining p \<or> isFrozen s \<noteq> Inr False")
    case True
    then show ?thesis unfolding authenticate_def Let_def p option.case
      by (auto split: bool.splits sum.splits)
  next
    case False
    then have a: "authenticate p s clk r = (case resolveKey p s r of
             Inl ErrMissingKey \<Rightarrow> Inl (WriteError None 401 CodeMissingKey ''missing rein key'')
           | Inl ErrInvalidKey \<Rightarrow> Inl (WriteError None 401 CodeInvalidKey ''invalid rein key'')
           | Inl OtherResolveError \<Rightarrow> Inl (WriteError None 500 CodeInternalError ''key resolution failed'')
           | Inr None \<Rightarrow> Inr (?want, None)
           | Inr (Some vkey) \<Rightarrow>
               if IsRevoked (Some vkey) then Inl (WriteError None 401 CodeKeyRevoked ''virtual key revoked'')
               else if IsExpired (Some vkey) (t_expiry clk) then
                 Inl (WriteError None 401 CodeKeyRevoked ''virtual key revoked'')
               else if Upstream vkey \<noteq> ?want then
                 Inl (WriteError None 400 CodeUpstreamMismatch ''rein key upstream does not match request path'')
               else Inr (?want, Some vkey))"
      unfolding authenticate_def Let_def p by simp
    show ?thesis
    proof (cases "resolveKey p s r")
      case (Inl e)
      then show ?thesis unfolding a by (cases e) auto
    next
      case (Inr vk)
      with none obtain k where "vk = Some k" by (cases vk) auto
      with Inr False show ?thesis unfolding a
        by (auto simp: IsRevoked_def IsExpired_def split: option.splits)
    qed
  qed
qed

lemma rein_fields:
  "px_store (rein d) = Some (\<lambda>w. keys_GetByToken (w_keys w))"
  "px_killSwitch (rein d) = Some (\<lambda>w. ks_IsFrozen (w_switch w))" "px_draining (rein d) = d"
  by (simp_all add: rein_def)

lemma resolveKey_rein:
  "resolveKey (rein d) w r = Inr vk \<longleftrightarrow>
    (\<exists>t k. Authorization r = ''Bearer '' @ t \<and> IsReinToken t \<and> keys_GetByToken (w_keys w) t = Inr k \<and> vk = Some k)"
  by (rule resolveKey_store) (rule rein_fields)

lemma authenticate_rein:
  "authenticate (rein d) w clk r = Inr (want, vk) \<longleftrightarrow>
    want = expectedUpstreamForPath (URL_Path r) \<and> want \<noteq> '''' \<and> \<not> d \<and> ks_IsFrozen (w_switch w) = Inr False \<and>
    (\<exists>k. vk = Some k \<and> resolveKey (rein d) w r = Inr (Some k) \<and> RevokedAt k = None \<and>
      (\<forall>e. ExpiresAt k = Some e \<longrightarrow> t_expiry clk < e) \<and> Upstream k = want)"
  using authenticate_store [OF rein_fields(1,2), of d w clk r want vk] by (simp add: rein_fields(3))

text \<open>The three checks of a resolved key, on the in-memory stores.\<close>

lemma budget_gate_rein:
  "budget_gate (rein d) w clk k = None \<longleftrightarrow>
    meter_Check (w_meter w) (t_meter clk) (ID k) (DailyBudgetUSD k) (MonthBudgetUSD k) = None"
  by (auto simp: budget_gate_def rein_def meter_Check_alt)

lemma rate_gate_rein:
  "rate_gate (rein d) w clk k =
    (let (m, e) = Allow (w_rates w) (t_rates clk) (ID k) (RPSLimit k) (RPMLimit k)
     in (w\<lparr>w_rates := m\<rparr>, map_option (\<lambda>e. WriteError (Some (Itoa (fst (RetryAfter e)))) 429 CodeRateLimited
       ''rate limit exceeded for this virtual key'') e))"
proof -
  obtain m e where A: "Allow (w_rates w) (t_rates clk) (ID k) (RPSLimit k) (RPMLimit k) = (m, e)" by fastforce
  show ?thesis
  proof (cases "0 <s RPSLimit k \<or> 0 <s RPMLimit k")
    case True
    show ?thesis
    proof (cases e)
      case None
      then show ?thesis using True A by (simp add: rate_gate_def rein_def w_Allow_def)
    next
      case (Some err)
      with A have "is_rate_limited err" "snd (RetryAfter err)" by (auto dest: rates_mem.allow_refused)
      then show ?thesis using True A Some
        by (cases "RetryAfter err") (simp add: rate_gate_def rein_def w_Allow_def Let_def)
    qed
  next
    case False
    then have "RPSLimit k \<le>s 0" "RPMLimit k \<le>s 0" by (auto simp: sless_int sle_int)
    then have "(m, e) = (w_rates w, None)" using A rates_mem.allow_unlimited by metis
    then show ?thesis using False A by (simp add: rate_gate_def rein_def)
  qed
qed

lemma concurrency_gate_rein:
  "concurrency_gate (rein d) w k =
    (let (m, ok) = conc_Acquire (w_conc w) (ID k) (MaxConcurrent k)
     in (w\<lparr>w_conc := m\<rparr>, if ok then Inr (0 <s MaxConcurrent k)
       else Inl (WriteError (Some ''1'') 429 CodeConcurrencyExceeded ''concurrency limit exceeded for this virtual key'')))"
proof (cases "0 <s MaxConcurrent k")
  case True
  then show ?thesis
    by (simp add: concurrency_gate_def rein_def w_Acquire_def split: prod.split bool.split)
next
  case False
  then have "MaxConcurrent k \<le>s 0" by (simp add: sless_int sle_int)
  then show ?thesis using False by (simp add: concurrency_gate_def rein_def conc_mem.acquire_unlimited)
qed

lemma enforce_rein:
  "(\<exists>w' held. enforce (rein d) w clk k = (w', Inr held)) \<longleftrightarrow>
    meter_Check (w_meter w) (t_meter clk) (ID k) (DailyBudgetUSD k) (MonthBudgetUSD k) = None \<and>
    snd (Allow (w_rates w) (t_rates clk) (ID k) (RPSLimit k) (RPMLimit k)) = None \<and>
    snd (conc_Acquire (w_conc w) (ID k) (MaxConcurrent k))"
  unfolding enforce_def rate_gate_rein concurrency_gate_rein budget_gate_rein [where d = d, symmetric]
  by (auto simp: Let_def split: option.split prod.split)

lemma world_upd_same [simp]: "w\<lparr>w_rates := w_rates w\<rparr> = w" "w\<lparr>w_conc := w_conc w\<rparr> = w"
  by simp_all

lemma enforce_effect:
  assumes "enforce (rein d) w clk k = (w', res)"
  shows "w_keys w' = w_keys w \<and> w_switch w' = w_switch w \<and> w_meter w' = w_meter w"
    "(\<exists>e. res = Inl e \<and> (w_conc w' = w_conc w \<or> conc_Acquire (w_conc w) (ID k) (MaxConcurrent k) = (w_conc w', False))) \<or>
     (conc_Acquire (w_conc w) (ID k) (MaxConcurrent k) = (w_conc w', True) \<and> res = Inr (0 <s MaxConcurrent k))"
  using assms unfolding enforce_def rate_gate_rein concurrency_gate_rein
  by (auto simp: Let_def split: option.splits prod.splits if_splits)

lemma Acquire_refused_same:
  assumes "conc_Acquire m k l = (m', False)"
  shows "conc_InFlight m' = conc_InFlight m"
proof (cases "l \<le>s 0")
  case True
  then show ?thesis using assms conc_mem.acquire_unlimited [of l m k] by simp
next
  case False
  then have "0 <s l" by (simp add: sless_int sle_int)
  from conc_mem.acquire_effect [OF this assms] show ?thesis by simp
qed

lemma dispatch_known:
  "want \<in> {UpstreamOpenAI, UpstreamAnthropic} \<Longrightarrow>
    dispatch oai ant w want r vk t = apsnd Forwarded ((if want = UpstreamOpenAI then oai else ant) w r vk t)"
  by (auto simp: dispatch_def)

lemma authenticate_want:
  "authenticate (rein d) w clk r = Inr (want, vk) \<Longrightarrow> want \<in> {UpstreamOpenAI, UpstreamAnthropic}"
  using expected_cases [of "URL_Path r"] by (auto simp: authenticate_rein)

text \<open>The stores as the adapter finds them: the request counted by the rate limiter and holding its
  slot.\<close>

definition admitted :: "world \<Rightarrow> clock \<Rightarrow> VirtualKey \<Rightarrow> world" where
  "admitted w clk k = w\<lparr>w_rates := fst (Allow (w_rates w) (t_rates clk) (ID k) (RPSLimit k) (RPMLimit k)),
     w_conc := fst (conc_Acquire (w_conc w) (ID k) (MaxConcurrent k))\<rparr>"

lemma enforce_ok:
  "enforce (rein d) w clk k = (w', Inr held) \<longleftrightarrow>
    meter_Check (w_meter w) (t_meter clk) (ID k) (DailyBudgetUSD k) (MonthBudgetUSD k) = None \<and>
    snd (Allow (w_rates w) (t_rates clk) (ID k) (RPSLimit k) (RPMLimit k)) = None \<and>
    snd (conc_Acquire (w_conc w) (ID k) (MaxConcurrent k)) \<and>
    w' = admitted w clk k \<and> held = (0 <s MaxConcurrent k)"
  unfolding enforce_def rate_gate_rein concurrency_gate_rein budget_gate_rein [where d = d, symmetric] admitted_def
  by (auto simp: Let_def split: option.split prod.split)

lemma admissible_alt:
  "admissible d w clk r k \<longleftrightarrow> authenticate (rein d) w clk r = Inr (Upstream k, Some k) \<and>
    enforce (rein d) w clk k = (admitted w clk k, Inr (0 <s MaxConcurrent k))"
  by (auto simp: admissible_def authenticate_rein enforce_ok resolveKey_rein)

lemma authenticate_Inr:
  "authenticate (rein d) w clk r = Inr x \<Longrightarrow> \<exists>k. x = (Upstream k, Some k)"
  by (cases x) (auto simp: authenticate_rein)

lemma ServeHTTP_admissible:
  assumes "admissible d w clk r k"
  shows "ServeHTTP (rein d) oai ant w clk r =
    (let (w', x) = (if Upstream k = UpstreamOpenAI then oai else ant) (admitted w clk k) r (Some k) (upstream_timeout k)
     in (deferred_release (rein d) w' k (0 <s MaxConcurrent k), Forwarded x))"
proof -
  have a: "authenticate (rein d) w clk r = Inr (Upstream k, Some k)"
    and e: "enforce (rein d) w clk k = (admitted w clk k, Inr (0 <s MaxConcurrent k))"
    using assms by (simp_all add: admissible_alt)
  obtain w' x where ad: "(if Upstream k = UpstreamOpenAI then oai else ant) (admitted w clk k) r (Some k) (upstream_timeout k) = (w', x)"
    by fastforce
  have "dispatch oai ant (admitted w clk k) (Upstream k) r (Some k) (upstream_timeout k) = (w', Forwarded x)"
    unfolding dispatch_known [OF authenticate_want [OF a]] ad by simp
  then show ?thesis
    unfolding ServeHTTP_def a sum.case prod.case option.case e ad Let_def by simp
qed

lemma ServeHTTP_inadmissible:
  assumes "\<nexists>k. admissible d w clk r k"
  shows "\<exists>w' e. ServeHTTP (rein d) oai ant w clk r = (w', Rejected e) \<and> (w' = w \<or>
    (\<exists>k. authenticate (rein d) w clk r = Inr (Upstream k, Some k) \<and> enforce (rein d) w clk k = (w', Inl e)))"
proof (cases "authenticate (rein d) w clk r")
  case (Inl e)
  then show ?thesis by (simp add: ServeHTTP_def)
next
  case (Inr x)
  then obtain k where a: "authenticate (rein d) w clk r = Inr (Upstream k, Some k)"
    using authenticate_Inr by blast
  obtain w' res where e: "enforce (rein d) w clk k = (w', res)" by fastforce
  with assms a have "\<exists>e. res = Inl e"
    by (cases res) (auto simp: admissible_alt enforce_ok)
  with a e show ?thesis by (auto simp: ServeHTTP_def)
qed

text \<open>The same over any backends: the checks as conditions on what the stores answer, the state handed
  from the rate limiter to the concurrency counter.\<close>

lemma enforce_store:
  assumes "px_meter p = Some check" "px_rates p = Some allow" "px_concurrency p = Some (acquire, release)"
  shows "enforce p s clk k = (s2, Inr held) \<longleftrightarrow>
    \<not> ((f64_lt (Fin 0) (DailyBudgetUSD k) \<or> f64_lt (Fin 0) (MonthBudgetUSD k)) \<and>
       check s (t_meter clk) (ID k) (DailyBudgetUSD k) (MonthBudgetUSD k) = Some ErrBudgetExceeded) \<and>
    (\<exists>s1. (if 0 <s RPSLimit k \<or> 0 <s RPMLimit k
        then \<exists>e. allow s (t_rates clk) (ID k) (RPSLimit k) (RPMLimit k) = (s1, e) \<and> \<not> (\<exists>x. e = Some x \<and> is_rate_limited x)
        else s1 = s) \<and>
      (if 0 <s MaxConcurrent k then acquire s1 (ID k) (MaxConcurrent k) = (s2, True) else s2 = s1)) \<and>
    held = (0 <s MaxConcurrent k)"
proof -
  have b: "budget_gate p s clk k = None \<longleftrightarrow>
      \<not> ((f64_lt (Fin 0) (DailyBudgetUSD k) \<or> f64_lt (Fin 0) (MonthBudgetUSD k)) \<and>
         check s (t_meter clk) (ID k) (DailyBudgetUSD k) (MonthBudgetUSD k) = Some ErrBudgetExceeded)"
    by (auto simp: budget_gate_def assms split: option.split meter_error.split)
  have r: "rate_gate p s clk k = (s1, None) \<longleftrightarrow> (if 0 <s RPSLimit k \<or> 0 <s RPMLimit k
      then \<exists>e. allow s (t_rates clk) (ID k) (RPSLimit k) (RPMLimit k) = (s1, e) \<and> \<not> (\<exists>x. e = Some x \<and> is_rate_limited x)
      else s1 = s)" for s1
    by (auto simp: rate_gate_def assms Let_def split: option.split prod.split)
  have c: "concurrency_gate p s1 k = (s2, Inr held) \<longleftrightarrow>
      (if 0 <s MaxConcurrent k then acquire s1 (ID k) (MaxConcurrent k) = (s2, True) else s2 = s1) \<and>
      held = (0 <s MaxConcurrent k)" for s1
    by (auto simp: concurrency_gate_def assms split: prod.split bool.split)
  have "enforce p s clk k = (s2, Inr held) \<longleftrightarrow> budget_gate p s clk k = None \<and>
      (\<exists>s1. rate_gate p s clk k = (s1, None) \<and> concurrency_gate p s1 k = (s2, Inr held))"
    by (auto simp: enforce_def split: option.split prod.split)
  then show ?thesis unfolding b r c by blast
qed

lemma ServeHTTP_forwards:
  assumes "px_store p = Some get" "px_killSwitch p = Some isFrozen"
  shows "snd (ServeHTTP p oai ant s clk r) = Forwarded x \<longleftrightarrow>
    (\<exists>k s2 held. authenticate p s clk r = Inr (Upstream k, Some k) \<and> enforce p s clk k = (s2, Inr held) \<and>
      x = snd ((if Upstream k = UpstreamOpenAI then oai else ant) s2 r (Some k) (upstream_timeout k)))"
proof (cases "authenticate p s clk r")
  case (Inl e)
  then show ?thesis by (simp add: ServeHTTP_def)
next
  case (Inr a)
  note auth = authenticate_store [OF assms]
  from Inr obtain k where k: "authenticate p s clk r = Inr (Upstream k, Some k)"
    by (cases a) (auto simp: auth)
  then have want: "Upstream k \<in> {UpstreamOpenAI, UpstreamAnthropic}"
    using expected_cases [of "URL_Path r"] by (auto simp: auth)
  obtain s2 res where e: "enforce p s clk k = (s2, res)" by fastforce
  show ?thesis
    by (cases res) (auto simp: ServeHTTP_def k e dispatch_known [OF want] Let_def split_beta)
qed

text \<open>C1: Whatever backends implement the stores, a request reaches an upstream adapter if and only if
  the replica is not draining, the kill switch can be read and is open, the bearer token is one the
  key store finds for a key of the route's provider that is neither revoked nor past its expiry,
  the meter does not answer that a positive budget of the key is exhausted (a meter that fails lets
  the request through), the rate limiter of a key with a limit does not answer that it is exceeded
  (a failing one lets it through), and a capped key gets a concurrency slot. The adapter that runs
  is the one of the key's provider, on that key, in the state these calls leave: counted by the
  limiter, the slot taken.\<close>

theorem forwarded_iff_admissible:
  "snd (ServeHTTP \<lparr>px_store = Some get, px_killSwitch = Some isFrozen, px_meter = Some check, px_rates = Some allow,
       px_concurrency = Some (acquire, release), px_draining = draining\<rparr> oai ant s clk r) = Forwarded x \<longleftrightarrow>
    \<not> draining \<and> isFrozen s = Inr False \<and>
    (\<exists>t k s1 s2. Authorization r = ''Bearer '' @ t \<and> IsReinToken t \<and> get s t = Inr k \<and>
      Upstream k = expectedUpstreamForPath (URL_Path r) \<and> Upstream k \<noteq> '''' \<and>
      RevokedAt k = None \<and> \<not> (\<exists>e. ExpiresAt k = Some e \<and> e \<le> t_expiry clk) \<and>
      \<not> ((f64_lt (Fin 0) (DailyBudgetUSD k) \<or> f64_lt (Fin 0) (MonthBudgetUSD k)) \<and>
         check s (t_meter clk) (ID k) (DailyBudgetUSD k) (MonthBudgetUSD k) = Some ErrBudgetExceeded) \<and>
      (if 0 <s RPSLimit k \<or> 0 <s RPMLimit k
       then \<exists>e. allow s (t_rates clk) (ID k) (RPSLimit k) (RPMLimit k) = (s1, e) \<and> \<not> (\<exists>x. e = Some x \<and> is_rate_limited x)
       else s1 = s) \<and>
      (if 0 <s MaxConcurrent k then acquire s1 (ID k) (MaxConcurrent k) = (s2, True) else s2 = s1) \<and>
      x = snd ((if Upstream k = UpstreamOpenAI then oai else ant) s2 r (Some k) (upstream_timeout k)))"
  (is "snd (ServeHTTP ?p _ _ _ _ _) = _ \<longleftrightarrow> ?rhs")
proof -
  have p: "px_store ?p = Some get" "px_killSwitch ?p = Some isFrozen" "px_meter ?p = Some check" "px_rates ?p = Some allow"
    "px_concurrency ?p = Some (acquire, release)" "px_draining ?p = draining" by simp_all
  have "snd (ServeHTTP ?p oai ant s clk r) = Forwarded x \<longleftrightarrow>
    (\<exists>k s2 held. authenticate ?p s clk r = Inr (Upstream k, Some k) \<and> enforce ?p s clk k = (s2, Inr held) \<and>
      x = snd ((if Upstream k = UpstreamOpenAI then oai else ant) s2 r (Some k) (upstream_timeout k)))"
    by (rule ServeHTTP_forwards [OF p(1,2)])
  also have "\<dots> \<longleftrightarrow> ?rhs"
    unfolding authenticate_store [OF p(1,2)] enforce_store [OF p(3-5)] resolveKey_store [OF p(1)] p(6) not_ex de_Morgan_conj not_le
    by blast
  finally show ?thesis .
qed

text \<open>On the in-memory stores every check answers, and the condition is \<open>admissible\<close>.\<close>

lemma forwarded_iff_rein:
  "snd (ServeHTTP (rein d) oai ant w clk r) = Forwarded x \<longleftrightarrow>
    (\<exists>k. admissible d w clk r k \<and> x = snd ((if Upstream k = UpstreamOpenAI then oai else ant)
      (admitted w clk k) r (Some k) (upstream_timeout k)))"
proof (cases "\<exists>k. admissible d w clk r k")
  case True
  then obtain k where k: "admissible d w clk r k" by blast
  have "k' = k" if "admissible d w clk r k'" for k' using that k by (simp add: admissible_alt)
  then have u: "admissible d w clk r k' \<longleftrightarrow> k' = k" for k' using k by blast
  show ?thesis unfolding ServeHTTP_admissible [OF k] u by (auto simp: split_beta)
next
  case False
  with ServeHTTP_inadmissible [OF False, of oai ant] show ?thesis by auto
qed

interpretation world_conc: conc_store w_Acquire w_Release "\<lambda>w. conc_InFlight (w_conc w)"
proof
  fix s s' :: world and k l b
  show "l \<le>s 0 \<Longrightarrow> w_Acquire s k l = (s, True)"
    by (simp add: w_Acquire_def conc_mem.acquire_unlimited)
  show "l \<le>s 0 \<Longrightarrow> w_Release s k l = s"
    by (simp add: w_Release_def conc_mem.release_unlimited)
  show "0 <s l \<Longrightarrow> sint (conc_InFlight (w_conc s) k) < i64_max \<Longrightarrow>
      snd (w_Acquire s k l) = (conc_InFlight (w_conc s) k <s l)"
    by (simp add: w_Acquire_def conc_mem.acquire_iff del: i64_simps)
  show "0 <s l \<Longrightarrow> w_Acquire s k l = (s', b) \<Longrightarrow> conc_InFlight (w_conc s') =
      (if b then (conc_InFlight (w_conc s))(k := conc_InFlight (w_conc s) k + 1) else conc_InFlight (w_conc s))"
    using conc_mem.acquire_effect [of l "w_conc s" k]
    by (cases "conc_Acquire (w_conc s) k l") (auto simp: w_Acquire_def)
  show "0 <s l \<Longrightarrow> conc_InFlight (w_conc s) k \<noteq> 0 \<Longrightarrow>
      conc_InFlight (w_conc (w_Release s k l)) = (conc_InFlight (w_conc s))(k := conc_InFlight (w_conc s) k - 1)"
    by (simp add: w_Release_def conc_mem.release_effect)
qed

text \<open>C7: With the in-memory counters, a request takes at most one concurrency slot and always gives
  it back. When it is forwarded, the adapter runs with one slot more than before taken for the key
  that is served if that key has a cap, and none otherwise. Afterwards, whatever the outcome,
  rejections and a panicking adapter included, the in-flight count of every key is what it was. Assumed
  are adapters that leave the counters alone (the dispatcher alone calls the counter) and counts
  that are not negative and not at the largest 64-bit integer.\<close>

theorem slot_is_always_released:
  assumes "\<forall>w r vk t. conc_InFlight (w_conc (fst (oai w r vk t))) = conc_InFlight (w_conc w)"
    "\<forall>w r vk t. conc_InFlight (w_conc (fst (ant w r vk t))) = conc_InFlight (w_conc w)"
    "\<forall>k. 0 \<le> sint (conc_InFlight (w_conc w) k) \<and> sint (conc_InFlight (w_conc w) k) < i64_max"
  shows "conc_InFlight (w_conc (fst (ServeHTTP (rein d) oai ant w clk r))) = conc_InFlight (w_conc w) \<and>
    (\<forall>x. snd (ServeHTTP (rein d) oai ant w clk r) = Forwarded x \<longrightarrow>
      (\<exists>k w1. (\<exists>t. Authorization r = ''Bearer '' @ t \<and> keys_GetByToken (w_keys w) t = Inr k) \<and>
        x = snd ((if Upstream k = UpstreamOpenAI then oai else ant) w1 r (Some k) (upstream_timeout k)) \<and>
        conc_InFlight (w_conc w1) = (if 0 <s MaxConcurrent k
          then (conc_InFlight (w_conc w))(ID k := conc_InFlight (w_conc w) (ID k) + 1)
          else conc_InFlight (w_conc w))))"
proof (cases "\<exists>k. admissible d w clk r k")
  case True
  then obtain k where k: "admissible d w clk r k" by blast
  have "snd (conc_Acquire (w_conc w) (ID k) (MaxConcurrent k))" using k by (simp add: admissible_def)
  then obtain m where acq: "conc_Acquire (w_conc w) (ID k) (MaxConcurrent k) = (m, True)"
    by (cases "conc_Acquire (w_conc w) (ID k) (MaxConcurrent k)") simp
  let ?ad = "if Upstream k = UpstreamOpenAI then oai else ant"
  obtain w' x where ad: "?ad (admitted w clk k) r (Some k) (upstream_timeout k) = (w', x)" by fastforce
  have "conc_InFlight (w_conc (fst (?ad (admitted w clk k) r (Some k) (upstream_timeout k)))) =
      conc_InFlight (w_conc (admitted w clk k))"
    by (cases "Upstream k = UpstreamOpenAI") (simp_all only: simp_thms if_True if_False assms(1,2))
  then have "conc_InFlight (w_conc w') = conc_InFlight (w_conc (admitted w clk k))" unfolding ad by simp
  then have w': "conc_InFlight (w_conc w') = conc_InFlight (w_conc (w\<lparr>w_conc := m\<rparr>))"
    by (simp add: admitted_def acq)
  have "w_Acquire w (ID k) (MaxConcurrent k) = (w\<lparr>w_conc := m\<rparr>, True)" by (simp add: w_Acquire_def acq)
  from world_conc.bracket [OF this _ _ w'] assms(3)
  have b: "conc_InFlight (w_conc (w_Release w' (ID k) (MaxConcurrent k))) = conc_InFlight (w_conc w)" by simp
  have "deferred_release (rein d) w' k (0 <s MaxConcurrent k) = w_Release w' (ID k) (MaxConcurrent k)"
    by (cases "0 <s MaxConcurrent k")
      (simp_all add: deferred_release_def rein_def world_conc.release_unlimited conc_not_le_0 [symmetric])
  then have same: "conc_InFlight (w_conc (fst (ServeHTTP (rein d) oai ant w clk r))) = conc_InFlight (w_conc w)"
    unfolding ServeHTTP_admissible [OF k] ad by (simp add: b)
  have taken: "conc_InFlight (w_conc (admitted w clk k)) = (if 0 <s MaxConcurrent k
      then (conc_InFlight (w_conc w))(ID k := conc_InFlight (w_conc w) (ID k) + 1) else conc_InFlight (w_conc w))"
    using conc_mem.acquire_effect [OF _ acq] conc_mem.acquire_unlimited [of "MaxConcurrent k" "w_conc w" "ID k"] acq
    by (cases "0 <s MaxConcurrent k") (simp_all add: admitted_def sless_int sle_int)
  have "\<exists>t. Authorization r = ''Bearer '' @ t \<and> keys_GetByToken (w_keys w) t = Inr k"
    using k unfolding admissible_def by blast
  moreover have "snd (ServeHTTP (rein d) oai ant w clk r) = Forwarded x" unfolding ServeHTTP_admissible [OF k] ad by simp
  moreover have "x = snd (?ad (admitted w clk k) r (Some k) (upstream_timeout k))" unfolding ad by simp
  ultimately show ?thesis using same taken by (metis outcome.inject(2))
next
  case False
  from ServeHTTP_inadmissible [OF this, of oai ant] obtain w' e where
    s: "ServeHTTP (rein d) oai ant w clk r = (w', Rejected e)" "w' = w \<or> (\<exists>k. enforce (rein d) w clk k = (w', Inl e))" by blast
  from s(2) have "conc_InFlight (w_conc w') = conc_InFlight (w_conc w)"
  proof
    assume "\<exists>k. enforce (rein d) w clk k = (w', Inl e)"
    then obtain k where "enforce (rein d) w clk k = (w', Inl e)" by blast
    from enforce_effect(2) [OF this] show ?thesis using Acquire_refused_same by auto
  qed simp
  then show ?thesis by (simp add: s(1))
qed

text \<open>A replica with one key, and a request that carries its token.\<close>

definition demo_world :: world where
  "demo_world = \<lparr>w_keys = foldl keys_apply keys_NewMemory [OpCreate (Some (demo_key\<lparr>MaxConcurrent := 1\<rparr>))],
     w_switch = ks_NewMemory, w_meter = meter_NewMemory, w_rates = rates_NewMemory, w_conc = conc_NewMemory\<rparr>"

definition demo_clock :: clock where
  "demo_clock = \<lparr>t_expiry = 0, t_meter = 0, t_rates = 0\<rparr>"

definition demo_request :: request where
  "demo_request = \<lparr>URL_Path = ''/v1/chat/completions'', Authorization = ''Bearer rein_live_0''\<rparr>"

lemma demo_admissible: "admissible False demo_world demo_clock demo_request (demo_key\<lparr>MaxConcurrent := 1\<rparr>)"
proof -
  let ?k = "demo_key\<lparr>MaxConcurrent := 1\<rparr>"
  have simps: "DailyBudgetUSD demo_key = Fin 1" "MonthBudgetUSD demo_key = Fin 0" "RPSLimit demo_key = 0"
    "RPMLimit demo_key = 0"
    by (simp_all add: demo_key_def)
  have "expectedUpstreamForPath (URL_Path demo_request) = UpstreamOpenAI"
    by (simp add: demo_request_def expectedUpstreamForPath_def HasPrefix_def)
  moreover have "keys_GetByToken (w_keys demo_world) ''rein_live_0'' = Inr ?k"
    by (simp add: demo_world_def keys_apply_def keys_Create_def keys_NewMemory_def keys_GetByToken_def deref_def Let_def)
  moreover have "Authorization demo_request = ''Bearer '' @ ''rein_live_0''" "IsReinToken ''rein_live_0''"
    by (simp_all add: demo_request_def IsReinToken_def tokenPrefix_def HasPrefix_def)
  moreover have "meter_Check (w_meter demo_world) (t_meter demo_clock) (ID ?k) (DailyBudgetUSD ?k) (MonthBudgetUSD ?k) = None"
    by (simp add: simps demo_world_def meter_Check_alt meter_mem.init_zero)
  moreover have "snd (Allow (w_rates demo_world) (t_rates demo_clock) (ID ?k) (RPSLimit ?k) (RPMLimit ?k)) = None"
    by (simp add: simps rates_mem.allow_unlimited)
  moreover have "snd (conc_Acquire (w_conc demo_world) (ID ?k) (MaxConcurrent ?k))"
    by (simp add: demo_world_def conc_Acquire_def conc_NewMemory_def conc_loadOrCreate_def Let_def sless_int sle_int)
  ultimately show ?thesis
    unfolding admissible_def by (simp add: ks_IsFrozen_def demo_world_def ks_NewMemory_def)
qed

theorem slot_is_always_released_witness:
  "conc_InFlight (w_conc (fst (ServeHTTP (rein False) (\<lambda>w r vk t. (w, ())) (\<lambda>w r vk t. (w, ()))
     demo_world demo_clock demo_request))) = conc_InFlight conc_NewMemory \<and>
   snd (ServeHTTP (rein False) (\<lambda>w r vk t. (w, ())) (\<lambda>w r vk t. (w, ())) demo_world demo_clock demo_request) = Forwarded ()"
proof -
  have z: "conc_InFlight conc_NewMemory = (\<lambda>_. 0)"
    by (simp add: conc_NewMemory_def conc_InFlight_def fun_eq_iff)
  have "w_conc demo_world = conc_NewMemory" by (simp add: demo_world_def)
  then show ?thesis
    using slot_is_always_released [of "\<lambda>w r vk t. (w, ())" "\<lambda>w r vk t. (w, ())" demo_world False demo_clock demo_request]
    by (simp add: z ServeHTTP_admissible [OF demo_admissible])
qed

lemma authenticate_errors:
  assumes "authenticate p s clk r = Inl e"
  shows "e = WriteError None 404 CodeUnknownRoute ''unknown upstream route'' \<or>
    e = WriteError (Some ''5'') 503 CodeDraining ''rein replica is draining; retry on another replica'' \<or>
    e = WriteError (Some ''60'') 503 CodeKillSwitchEngaged ''rein is frozen: kill-switch engaged'' \<or>
    e = WriteError None 401 CodeMissingKey ''missing rein key'' \<or>
    e = WriteError None 401 CodeInvalidKey ''invalid rein key'' \<or>
    e = WriteError None 401 CodeKeyRevoked ''virtual key revoked'' \<or>
    e = WriteError None 400 CodeUpstreamMismatch ''rein key upstream does not match request path'' \<or>
    (\<exists>read err. px_killSwitch p = Some read \<and> read s = Inl err)"
proof -
  have no_other: "resolveKey p s r \<noteq> Inl OtherResolveError"
    by (auto simp: resolveKey_def Let_def split: option.splits sum.splits)
  show ?thesis
  proof (cases "expectedUpstreamForPath (URL_Path r) = '''' \<or> px_draining p")
    case True
    then show ?thesis using assms by (auto simp: authenticate_def Let_def split: if_splits)
  next
    case False
    define f where "f = (case px_killSwitch p of None \<Rightarrow> Inr False | Some isFrozen \<Rightarrow> isFrozen s)"
    show ?thesis
    proof (cases f)
      case (Inl x)
      then show ?thesis by (auto simp: f_def split: option.splits)
    next
      case (Inr b)
      note a = assms [unfolded authenticate_def Let_def f_def [symmetric] Inr sum.case]
      show ?thesis
      proof (cases "resolveKey p s r")
        case (Inl x)
        with a no_other False show ?thesis by (cases x; cases b) auto
      next
        case (Inr vk)
        with a False show ?thesis by (cases vk; cases b) (auto split: if_splits)
      qed
    qed
  qed
qed

text \<open>C22: Every error response of the dispatcher is one of the published combinations of status, code
  and \<open>Retry-After\<close>; with a rate limit the header is the decimal number of seconds, from 1 to 60.\<close>

theorem rejection_contract:
  assumes "snd (ServeHTTP (rein d) oai ant w clk r) = Rejected e"
  shows "(status e, err_code e, retryAfter e) \<in>
      {(404, ''unknown_route'', None), (503, ''draining'', Some ''5''), (503, ''kill_switch_engaged'', Some ''60''),
       (401, ''missing_key'', None), (401, ''invalid_key'', None), (401, ''key_revoked'', None),
       (400, ''upstream_mismatch'', None), (402, ''budget_exceeded'', None),
       (429, ''concurrency_exceeded'', Some ''1'')} \<or>
    (\<exists>n. status e = 429 \<and> err_code e = ''rate_limited'' \<and> retryAfter e = Some (Itoa n) \<and> 1 \<le> sint n \<and> sint n \<le> 60)"
proof -
  have na: "\<nexists>k. admissible d w clk r k"
  proof
    assume "\<exists>k. admissible d w clk r k"
    then obtain k where "admissible d w clk r k" by blast
    from ServeHTTP_admissible [OF this, of oai ant] assms show False by (simp add: split_beta)
  qed
  show ?thesis
  proof (cases "authenticate (rein d) w clk r")
    case (Inl e')
    then have "e' = e" using assms by (simp add: ServeHTTP_def)
    with Inl have "authenticate (rein d) w clk r = Inl e" by simp
    from authenticate_errors [OF this] show ?thesis
      by (elim disjE) (simp_all add: WriteError_def code_defs rein_def ks_IsFrozen_def)
  next
    case (Inr x)
    then obtain k where k: "x = (Upstream k, Some k)" using authenticate_Inr by blast
    obtain w' res where en: "enforce (rein d) w clk k = (w', res)" by fastforce
    have "res = Inl e"
      using assms na Inr k en by (cases res) (auto simp: ServeHTTP_def admissible_alt enforce_ok)
    with en have "enforce (rein d) w clk k = (w', Inl e)" by simp
    then consider "budget_gate (rein d) w clk k = Some e" | m err where
        "Allow (w_rates w) (t_rates clk) (ID k) (RPSLimit k) (RPMLimit k) = (m, Some err)"
        "e = WriteError (Some (Itoa (fst (RetryAfter err)))) 429 CodeRateLimited ''rate limit exceeded for this virtual key''"
      | "e = WriteError (Some ''1'') 429 CodeConcurrencyExceeded ''concurrency limit exceeded for this virtual key''"
      unfolding enforce_def rate_gate_rein concurrency_gate_rein
      by (auto simp: Let_def split: option.splits prod.splits if_splits)
    then show ?thesis
    proof cases
      case 1
      then have "e = WriteError None 402 CodeBudgetExceeded ''budget exceeded for this virtual key''"
        by (simp add: budget_gate_def rein_def split: option.splits if_splits meter_error.splits)
      then show ?thesis by (simp add: WriteError_def code_defs)
    next
      case 2
      then obtain n where "RetryAfter err = (n, True)" "1 \<le> sint n" "sint n \<le> 60"
        by (metis rates_mem.refused_has_limit_and_retry)
      with 2(2) show ?thesis by (auto simp: WriteError_def code_defs)
    next
      case 3
      then show ?thesis by (simp add: WriteError_def code_defs)
    qed
  qed
qed

theorem rejection_contract_witness:
  "\<exists>e. snd (ServeHTTP (rein True) (\<lambda>w r vk t. (w, ())) (\<lambda>w r vk t. (w, ())) demo_world demo_clock demo_request) = Rejected e \<and>
     status e \<in> {404, 503, 401, 400, 402, 429}"
proof -
  have na: "\<nexists>k. admissible True demo_world demo_clock demo_request k" by (simp add: admissible_def)
  from ServeHTTP_inadmissible [OF na, of "\<lambda>w r vk t. (w, ())" "\<lambda>w r vk t. (w, ())"] obtain w' e where
    "ServeHTTP (rein True) (\<lambda>w r vk t. (w, ())) (\<lambda>w r vk t. (w, ())) demo_world demo_clock demo_request = (w', Rejected e)"
    by blast
  then have s: "snd (ServeHTTP (rein True) (\<lambda>w r vk t. (w, ())) (\<lambda>w r vk t. (w, ())) demo_world demo_clock demo_request) = Rejected e"
    by simp
  from rejection_contract [OF s] s show ?thesis by auto
qed

text \<open>A key store that fails to answer is reported to the client as an invalid key, 401, never as
  the 500 the error code table announces for a failed key resolution: the dispatcher answers 500
  only when the kill switch cannot be read.\<close>

theorem store_failure_is_401:
  assumes "authenticate p s clk r = Inl e"
  shows "(status e = 500 \<longrightarrow> (\<exists>read err. px_killSwitch p = Some read \<and> read s = Inl err)) \<and>
    (\<forall>get t err. px_store p = Some get \<and> Authorization r = ''Bearer '' @ t \<and> IsReinToken t \<and>
      get s t = Inl (StoreFailure err) \<and> px_killSwitch p = None \<and> \<not> px_draining p \<and> expectedUpstreamForPath (URL_Path r) \<noteq> ''''
      \<longrightarrow> status e = 401 \<and> err_code e = ''invalid_key'')"
proof -
  show ?thesis
  proof (intro conjI allI impI)
    assume "status e = 500"
    with authenticate_errors [OF assms] show "\<exists>read err. px_killSwitch p = Some read \<and> read s = Inl err"
      by (elim disjE) (simp_all add: WriteError_def)
  next
    fix get t err
    assume a: "px_store p = Some get \<and> Authorization r = ''Bearer '' @ t \<and> IsReinToken t \<and>
      get s t = Inl (StoreFailure err) \<and> px_killSwitch p = None \<and> \<not> px_draining p \<and> expectedUpstreamForPath (URL_Path r) \<noteq> ''''"
    then have "resolveKey p s r = Inl ErrInvalidKey"
      using HasPrefix_append [of "''Bearer ''" t] TrimPrefix_append [of "''Bearer ''" t] by (simp add: resolveKey_def Let_def)
    with assms a show "status e = 401" "err_code e = ''invalid_key''"
      by (auto simp: authenticate_def Let_def WriteError_def code_defs)
  qed
qed

definition broken_proxy :: "unit Proxy" where
  "broken_proxy = \<lparr>px_store = Some (\<lambda>_ _. Inl (StoreFailure ''database is locked'')), px_killSwitch = None,
     px_meter = None, px_rates = None, px_concurrency = None, px_draining = False\<rparr>"

theorem store_failure_is_401_witness:
  "\<exists>e. authenticate broken_proxy () demo_clock demo_request = Inl e \<and> status e = 401 \<and> err_code e = ''invalid_key''"
proof -
  have route: "expectedUpstreamForPath (URL_Path demo_request) \<noteq> ''''"
    by (simp add: demo_request_def expectedUpstreamForPath_def HasPrefix_def)
  have auth: "Authorization demo_request = ''Bearer '' @ ''rein_live_0''" "IsReinToken ''rein_live_0''"
    by (simp_all add: demo_request_def IsReinToken_def tokenPrefix_def HasPrefix_def)
  then have "resolveKey broken_proxy () demo_request = Inl ErrInvalidKey"
    using HasPrefix_append [of "''Bearer ''" "''rein_live_0''"] TrimPrefix_append [of "''Bearer ''" "''rein_live_0''"]
    by (simp add: resolveKey_def broken_proxy_def Let_def)
  with route obtain e where e: "authenticate broken_proxy () demo_clock demo_request = Inl e"
    by (simp add: authenticate_def broken_proxy_def Let_def)
  from store_failure_is_401 [OF e] route auth show ?thesis
    using e by (auto simp: broken_proxy_def)
qed

text \<open>C23: A rejected request costs nothing: the keys, the recorded spend and every in-flight count are
  as before it.\<close>

theorem rejection_leaves_no_trace:
  assumes "ServeHTTP (rein d) oai ant w clk r = (w', Rejected e)"
  shows "w_keys w' = w_keys w \<and> w_switch w' = w_switch w \<and> w_meter w' = w_meter w \<and>
    conc_InFlight (w_conc w') = conc_InFlight (w_conc w)"
proof -
  have na: "\<nexists>k. admissible d w clk r k"
  proof
    assume "\<exists>k. admissible d w clk r k"
    then obtain k where "admissible d w clk r k" by blast
    from ServeHTTP_admissible [OF this, of oai ant] assms show False by (simp add: split_beta)
  qed
  from ServeHTTP_inadmissible [OF na, of oai ant] assms
  have "w' = w \<or> (\<exists>k. enforce (rein d) w clk k = (w', Inl e))" by auto
  then show ?thesis
  proof
    assume "\<exists>k. enforce (rein d) w clk k = (w', Inl e)"
    then obtain k where k: "enforce (rein d) w clk k = (w', Inl e)" by blast
    from enforce_effect [OF k] show ?thesis using Acquire_refused_same by auto
  qed simp
qed

theorem rejection_leaves_no_trace_witness:
  "\<exists>w' e. ServeHTTP (rein True) (\<lambda>w r vk t. (w, ())) (\<lambda>w r vk t. (w, ())) demo_world demo_clock demo_request = (w', Rejected e) \<and>
     w_meter w' = meter_NewMemory"
proof -
  have na: "\<nexists>k. admissible True demo_world demo_clock demo_request k" by (simp add: admissible_def)
  from ServeHTTP_inadmissible [OF na, of "\<lambda>w r vk t. (w, ())" "\<lambda>w r vk t. (w, ())"] obtain w' e where
    s: "ServeHTTP (rein True) (\<lambda>w r vk t. (w, ())) (\<lambda>w r vk t. (w, ())) demo_world demo_clock demo_request = (w', Rejected e)"
    by blast
  have "w_meter demo_world = meter_NewMemory" by (simp add: demo_world_def)
  with rejection_leaves_no_trace [OF s] s show ?thesis by auto
qed

end
