(* ===== verification/Budget.thy ===== *)
theory Budget
  imports Admission
begin

text \<open>
  The budget under concurrent requests, on the stores in memory and for a key whose settings do not
  change. The key is served by any number of requests that interleave, among themselves and with
  those of other keys, at the calls \<open>ServeHTTP\<close> and the adapters make to the shared stores:
  \<open>Meter.Check\<close>, \<open>Concurrency.Acquire\<close>, \<open>Meter.Record\<close>, \<open>Concurrency.Release\<close>. The check is not
  repeated after the slot is taken and does not hold it, so the documented bound on the overshoot, the
  number of slots times the largest cost, is exceeded by one request for every request that has been
  checked and has no slot yet.
\<close>

text \<open>Where a request stands: checked; holding its slot while the upstream works; its cost recorded
  (or skipped); finished or turned away.\<close>

datatype budget_phase = Checked | InUpstream | Recorded | Finished

type_synonym budget_sys = "meter_memory \<times> conc_memory \<times> budget_phase list"

text \<open>One call of a request of the key \<open>k\<close>, or of any other key's, at a time of \<open>D\<close>; the third argument
  lists the cost the step recorded for \<open>k\<close>, if it did. A checked request may still be refused by
  the rate limiter.\<close>

inductive budget_step :: "VirtualKey \<Rightarrow> instant set \<Rightarrow> budget_sys \<Rightarrow> f64 list \<Rightarrow> budget_sys \<Rightarrow> bool" for k D where
  check: "t \<in> D \<Longrightarrow> meter_Check m t (ID k) (DailyBudgetUSD k) (MonthBudgetUSD k) = None \<Longrightarrow>
    budget_step k D (m, c, rs) [] (m, c, rs @ [Checked])"
| refuse: "i < length rs \<Longrightarrow> rs ! i = Checked \<Longrightarrow>
    budget_step k D (m, c, rs) [] (m, c, rs[i := Finished])"
| acquire: "i < length rs \<Longrightarrow> rs ! i = Checked \<Longrightarrow> conc_Acquire c (ID k) (MaxConcurrent k) = (c', b) \<Longrightarrow>
    budget_step k D (m, c, rs) [] (m, c', rs[i := if b then InUpstream else Finished])"
| spend: "i < length rs \<Longrightarrow> rs ! i = InUpstream \<Longrightarrow> t \<in> D \<Longrightarrow> x \<noteq> NaN \<Longrightarrow>
    budget_step k D (m, c, rs) [x] (fst (meter_Record m t (ID k) x), c, rs[i := Recorded])"
| skip: "i < length rs \<Longrightarrow> rs ! i = InUpstream \<Longrightarrow>
    budget_step k D (m, c, rs) [] (m, c, rs[i := Recorded])"
| release: "i < length rs \<Longrightarrow> rs ! i = Recorded \<Longrightarrow>
    budget_step k D (m, c, rs) [] (m, conc_Release c (ID k) (MaxConcurrent k), rs[i := Finished])"
| other_spend: "j \<noteq> ID k \<Longrightarrow> t \<in> D \<Longrightarrow> x \<noteq> NaN \<Longrightarrow>
    budget_step k D (m, c, rs) [] (fst (meter_Record m t j x), c, rs)"
| other_acquire: "j \<noteq> ID k \<Longrightarrow> budget_step k D (m, c, rs) [] (m, fst (conc_Acquire c j l), rs)"
| other_release: "j \<noteq> ID k \<Longrightarrow> budget_step k D (m, c, rs) [] (m, conc_Release c j l, rs)"

inductive budget_run :: "VirtualKey \<Rightarrow> instant set \<Rightarrow> budget_sys \<Rightarrow> f64 list \<Rightarrow> budget_sys \<Rightarrow> bool" for k D where
  stop: "budget_run k D s [] s"
| go: "budget_run k D s xs s' \<Longrightarrow> budget_step k D s' ys s'' \<Longrightarrow> budget_run k D s (xs @ ys) s''"

text \<open>The times of one UTC day.\<close>

definition day_of :: "instant \<Rightarrow> instant set" where
  "day_of now = {t. utc_day t = utc_day now}"

lemma day_of_iff [simp]: "t \<in> day_of now \<longleftrightarrow> utc_day t = utc_day now"
  by (simp add: day_of_def)

definition count :: "budget_phase \<Rightarrow> budget_phase list \<Rightarrow> nat" where
  "count p rs = length (filter (\<lambda>q. q = p) rs)"

lemma count_set:
  "i < length rs \<Longrightarrow> count p (rs[i := q]) + of_bool (rs ! i = p) = count p rs + of_bool (q = p)"
  unfolding count_def by (rule filter_update_nth)

lemma count_snoc [simp]: "count p (rs @ [q]) = count p rs + of_bool (q = p)"
  by (simp add: count_def)

section \<open>Slots\<close>

lemma other_slots:
  "j \<noteq> k \<Longrightarrow> conc_InFlight (fst (conc_Acquire c j l)) k = conc_InFlight c k"
  "j \<noteq> k \<Longrightarrow> conc_InFlight (conc_Release c j l) k = conc_InFlight c k"
  by (simp_all add: conc_Acquire_def conc_Release_def conc_loadOrCreate_def conc_InFlight_def Let_def split: option.split)

text \<open>With a positive limit the counter is the number of requests that hold a slot, and at most the
  limit.\<close>

definition slots_ok :: "VirtualKey \<Rightarrow> budget_sys \<Rightarrow> bool" where
  "slots_ok k s \<longleftrightarrow> (case s of (m, c, rs) \<Rightarrow>
     sint (conc_InFlight c (ID k)) = int (count InUpstream rs + count Recorded rs) \<and>
     int (count InUpstream rs + count Recorded rs) \<le> sint (MaxConcurrent k))"

lemma slots_step:
  assumes "budget_step k D s xs s'" "slots_ok k s" "0 <s MaxConcurrent k" "sint (MaxConcurrent k) < i64_max"
  shows "slots_ok k s'"
  using assms
proof (induction rule: budget_step.induct)
  case (acquire i rs c c' b m)
  have lt: "sint (conc_InFlight c (ID k)) < i64_max" "0 \<le> sint (conc_InFlight c (ID k))"
    using acquire.prems(1,3) by (simp_all add: slots_ok_def)
  show ?case
  proof (cases b)
    case True
    then have acq: "conc_Acquire c (ID k) (MaxConcurrent k) = (c', True)" using acquire.hyps(3) by simp
    have e: "conc_InFlight c' (ID k) = conc_InFlight c (ID k) + 1"
      using conc_mem.acquire_effect [OF acquire.prems(2) acq] by simp
    have "conc_InFlight c (ID k) <s MaxConcurrent k"
      using conc_mem.acquire_iff [OF acquire.prems(2) lt(1)] acq by simp
    moreover have "sint (conc_InFlight c (ID k) + 1) = sint (conc_InFlight c (ID k)) + 1"
      using lt by (subst sint_add_i64) auto
    ultimately show ?thesis
      using acquire.prems(1) acquire.hyps(1,2) True count_set [OF acquire.hyps(1), of InUpstream InUpstream]
        count_set [OF acquire.hyps(1), of Recorded InUpstream]
      by (simp add: slots_ok_def e sless_int)
  next
    case False
    then have "conc_InFlight c' = conc_InFlight c"
      using conc_mem.acquire_effect [OF acquire.prems(2) acquire.hyps(3)] by simp
    then show ?thesis
      using acquire.prems(1) acquire.hyps(1,2) False count_set [OF acquire.hyps(1), of InUpstream Finished]
        count_set [OF acquire.hyps(1), of Recorded Finished]
      by (simp add: slots_ok_def)
  qed
next
  case (release i rs m c)
  have pos: "0 < count Recorded rs"
    using release.hyps nth_mem [OF release.hyps(1)] by (auto simp: count_def filter_empty_conv)
  then have nz: "conc_InFlight c (ID k) \<noteq> 0" using release.prems(1) by (auto simp: slots_ok_def)
  have e: "conc_InFlight (conc_Release c (ID k) (MaxConcurrent k)) (ID k) = conc_InFlight c (ID k) - 1"
    using conc_mem.release_effect [OF release.prems(2) nz] by simp
  have "sint (conc_InFlight c (ID k) - 1) = sint (conc_InFlight c (ID k)) - 1"
    using release.prems(1,3) by (subst sint_sub_i64) (auto simp: slots_ok_def)
  then show ?case
    using release.prems(1) release.hyps count_set [OF release.hyps(1), of InUpstream Finished]
        count_set [OF release.hyps(1), of Recorded Finished] by (simp add: slots_ok_def e)
next
  case (spend i rs t x m c)
  then show ?case
    using count_set [OF spend.hyps(1), of InUpstream Recorded] count_set [OF spend.hyps(1), of Recorded Recorded]
    by (simp add: slots_ok_def)
next
  case (skip i rs m c)
  then show ?case
    using count_set [OF skip.hyps(1), of InUpstream Recorded] count_set [OF skip.hyps(1), of Recorded Recorded]
    by (simp add: slots_ok_def)
next
  case (refuse i rs m c)
  then show ?case
    using count_set [OF refuse.hyps(1), of InUpstream Finished] count_set [OF refuse.hyps(1), of Recorded Finished]
    by (simp add: slots_ok_def)
next
  case (other_acquire j m c rs l)
  then show ?case using other_slots [OF other_acquire.hyps] by (simp add: slots_ok_def)
next
  case (other_release j m c rs l)
  then show ?case using other_slots [OF other_release.hyps] by (simp add: slots_ok_def)
qed (simp_all add: slots_ok_def)

section \<open>Spend\<close>

lemma meter_Record_day:
  "utc_day t = utc_day now \<Longrightarrow> meter_day (fst (meter_Record m t k x)) k now =
    (if f64_le x (Fin 0) then meter_day m k now else f64_add (meter_day m k now) x)"
  by (simp add: meter_Record_totals)

abbreviation "exhausted k now m \<equiv>
  meter_Check m now (ID k) (DailyBudgetUSD k) (MonthBudgetUSD k) = Some ErrBudgetExceeded"

text \<open>The checked requests and those in the upstream are the only ones that can still spend once the
  budget is exhausted.\<close>

definition can_spend :: "budget_phase list \<Rightarrow> nat" where
  "can_spend rs = count Checked rs + count InUpstream rs"

definition add_up :: "f64 \<Rightarrow> f64 list \<Rightarrow> f64" where
  "add_up t xs = foldl f64_add t (filter (\<lambda>x. \<not> f64_le x (Fin 0)) xs)"

lemma exhausted_record:
  assumes "meter_mem.amounts m" "exhausted k now m" "x \<noteq> NaN"
  shows "exhausted k now (fst (meter_Record m t i x))" "meter_mem.amounts (fst (meter_Record m t i x))"
proof -
  have "meter_Check (meter_mem.records m [(t, i, x)]) now (ID k) (DailyBudgetUSD k) (MonthBudgetUSD k) \<noteq> None"
    using meter_mem.exceeded_stays [OF assms(1,2) refl, of "[(t, i, x)]"] assms(3) by simp
  then show "exhausted k now (fst (meter_Record m t i x))" by (auto simp: meter_Check_alt split: if_splits)
  show "meter_mem.amounts (fst (meter_Record m t i x))" by (rule meter_mem.record_amounts [OF assms(1,3)])
qed

lemma same_day_check:
  "utc_day t = utc_day now \<Longrightarrow> meter_Check m t i dc mc = meter_Check m now i dc mc"
  using meter_mem.same_period(1) [of t now m i] meter_mem.same_period(2) [of t now m i] utc_day_month [of t now]
  by (simp add: meter_Check_alt)

lemma budget_step_exhausted:
  assumes "budget_step k (day_of now) s xs s'" "s = (m, c, rs)" "exhausted k now m" "meter_mem.amounts m"
  obtains m' c' rs' where "s' = (m', c', rs')" "exhausted k now m'" "meter_mem.amounts m'"
    "length xs + can_spend rs' \<le> can_spend rs" "meter_day m' (ID k) now = add_up (meter_day m (ID k) now) xs"
  using assms
proof (cases rule: budget_step.cases)
  case (check t m0 c0 rs0)
  then show thesis using assms(2,3) same_day_check [of t now m] by simp
next
  case (acquire i rs0 c0 c' b m0)
  then show thesis
    using assms that [of m c' "rs[i := if b then InUpstream else Finished]"]
      count_set [of i rs Checked "if b then InUpstream else Finished"]
      count_set [of i rs InUpstream "if b then InUpstream else Finished"]
    by (cases b) (auto simp: can_spend_def add_up_def)
next
  case (spend i rs0 t x m0 c0)
  then show thesis
    using assms exhausted_record [OF assms(4,3), of x t "ID k"] meter_Record_day [of t now m "ID k" x]
      count_set [of i rs Checked Recorded] count_set [of i rs InUpstream Recorded]
      that [of "fst (meter_Record m t (ID k) x)" c "rs[i := Recorded]"]
    by (auto simp: can_spend_def add_up_def)
next
  case (skip i rs0 m0 c0)
  then show thesis
    using assms count_set [of i rs Checked Recorded] count_set [of i rs InUpstream Recorded]
      that [of m c "rs[i := Recorded]"]
    by (auto simp: can_spend_def add_up_def)
next
  case (refuse i rs0 m0 c0)
  then show thesis
    using assms count_set [of i rs Checked Finished] count_set [of i rs InUpstream Finished]
      that [of m c "rs[i := Finished]"]
    by (auto simp: can_spend_def add_up_def)
next
  case (other_spend j t x m0 c0 rs0)
  then show thesis
    using assms exhausted_record [OF assms(4,3), of x t j]
      that [of "fst (meter_Record m t j x)" c rs]
    by (auto simp: add_up_def meter_Record_totals)
next
  case (other_acquire j m0 c0 rs0 l)
  then show thesis using assms that [of m "fst (conc_Acquire c j l)" rs] by (auto simp: add_up_def)
next
  case (other_release j m0 c0 rs0 l)
  then show thesis using assms that [of m "conc_Release c j l" rs] by (auto simp: add_up_def)
next
  case (release i rs0 m0 c0)
  then show thesis
    using assms count_set [of i rs Checked Finished] count_set [of i rs InUpstream Finished]
      that [of m "conc_Release c (ID k) (MaxConcurrent k)" "rs[i := Finished]"]
    by (auto simp: can_spend_def add_up_def)
qed

lemma budget_run_exhausted:
  assumes "budget_run k (day_of now) s xs s'" "s = (m, c, rs)" "exhausted k now m" "meter_mem.amounts m"
  shows "\<exists>m' c' rs'. s' = (m', c', rs') \<and> exhausted k now m' \<and> meter_mem.amounts m' \<and>
    length xs + can_spend rs' \<le> can_spend rs \<and> meter_day m' (ID k) now = add_up (meter_day m (ID k) now) xs"
  using assms
proof (induction rule: budget_run.induct)
  case (stop s)
  then show ?case by (simp add: add_up_def)
next
  case (go s xs s' ys s'')
  then obtain m1 c1 rs1 where s': "s' = (m1, c1, rs1)" "exhausted k now m1" "meter_mem.amounts m1"
    "length xs + can_spend rs1 \<le> can_spend rs" "meter_day m1 (ID k) now = add_up (meter_day m (ID k) now) xs"
    by blast
  obtain m' c' rs' where "s'' = (m', c', rs')" "exhausted k now m'" "meter_mem.amounts m'"
    "length ys + can_spend rs' \<le> can_spend rs1" "meter_day m' (ID k) now = add_up (meter_day m1 (ID k) now) ys"
    using budget_step_exhausted [OF go.hyps(2) s'(1,2,3)] .
  with s' show ?case by (auto simp: add_up_def)
qed

lemma budget_run_slots:
  "budget_run k D s xs s' \<Longrightarrow> slots_ok k s \<Longrightarrow> 0 <s MaxConcurrent k \<Longrightarrow> sint (MaxConcurrent k) < i64_max \<Longrightarrow> slots_ok k s'"
  by (induction rule: budget_run.induct) (auto intro: slots_step)

lemma budget_run_amounts:
  "budget_run k D s xs s' \<Longrightarrow> meter_mem.amounts (fst s) \<Longrightarrow> meter_mem.amounts (fst s')"
proof (induction rule: budget_run.induct)
  case (go s xs s' ys s'')
  from go.hyps(2) go.IH [OF go.prems] show ?case
    by cases (auto simp: meter_mem.record_amounts)
qed simp

abbreviation "fresh_sys \<equiv> (meter_NewMemory, conc_NewMemory, []) :: budget_sys"

lemma fresh_ok: "0 <s MaxConcurrent k \<Longrightarrow> slots_ok k fresh_sys" "meter_mem.amounts (fst fresh_sys)"
  using meter_mem.init_amounts
  by (simp_all add: slots_ok_def conc_InFlight_def conc_NewMemory_def count_def sless_int)

lemma budget_step_mono: "budget_step k D s xs s' \<Longrightarrow> D \<subseteq> E \<Longrightarrow> budget_step k E s xs s'"
  by (induction rule: budget_step.induct) (auto split del: if_split intro: budget_step.intros)

lemma budget_run_mono: "budget_run k D s xs s' \<Longrightarrow> D \<subseteq> E \<Longrightarrow> budget_run k E s xs s'"
  by (induction rule: budget_run.induct) (auto intro: budget_run.intros budget_step_mono)

lemma budget_run_step:
  "budget_run k D s xs s' \<Longrightarrow> budget_step k D s' ys s'' \<Longrightarrow> zs = xs @ ys \<Longrightarrow> budget_run k D s zs s''"
  using budget_run.go by blast

text \<open>A request that \<open>ServeHTTP\<close> forwards is such a run, when its adapter records one cost: the steps
  are the calls the dispatcher makes, in its order.\<close>

lemma ServeHTTP_budget_run:
  assumes k: "admissible d w clk r k" and t: "t_meter clk \<in> D" "t \<in> D" "x \<noteq> NaN"
    and adapter: "adapter = (\<lambda>w r vk timeout. (w\<lparr>w_meter := fst (meter_Record (w_meter w) t (ID k) x)\<rparr>, y))"
    and w': "w' = fst (ServeHTTP (rein d) adapter adapter w clk r)"
  shows "budget_run k D (w_meter w, w_conc w, rs) [x] (w_meter w', w_conc w', rs @ [Finished])"
proof -
  let ?n = "length rs"
  obtain c where acq: "conc_Acquire (w_conc w) (ID k) (MaxConcurrent k) = (c, True)"
    using k by (cases "conc_Acquire (w_conc w) (ID k) (MaxConcurrent k)") (simp add: admissible_def)
  let ?m = "fst (meter_Record (w_meter w) t (ID k) x)"
  have rel: "w_conc (deferred_release (rein d) v k (0 <s MaxConcurrent k)) = conc_Release (w_conc v) (ID k) (MaxConcurrent k)"
    "w_meter (deferred_release (rein d) v k (0 <s MaxConcurrent k)) = w_meter v" for v
    using conc_mem.release_unlimited [of "MaxConcurrent k" "w_conc v" "ID k"]
    by (auto simp: deferred_release_def rein_def w_Release_def sless_int sle_int)
  have w: "w_meter w' = ?m" "w_conc w' = conc_Release c (ID k) (MaxConcurrent k)"
    by (simp_all add: w' ServeHTTP_admissible [OF k] adapter admitted_def acq rel)
  have "budget_step k D (w_meter w, w_conc w, rs) [] (w_meter w, w_conc w, rs @ [Checked])"
    using k t(1) unfolding admissible_def by (blast intro: budget_step.check)
  moreover have "budget_step k D (w_meter w, w_conc w, rs @ [Checked]) [] (w_meter w, c, rs @ [InUpstream])"
    using budget_step.acquire [of ?n "rs @ [Checked]" "w_conc w" k c True D "w_meter w"] acq by simp
  moreover have "budget_step k D (w_meter w, c, rs @ [InUpstream]) [x] (?m, c, rs @ [Recorded])"
    using budget_step.spend [of ?n "rs @ [InUpstream]" t D x k "w_meter w" c] t by simp
  moreover have "budget_step k D (?m, c, rs @ [Recorded]) [] (?m, conc_Release c (ID k) (MaxConcurrent k), rs @ [Finished])"
    using budget_step.release [of ?n "rs @ [Recorded]" k D ?m c] by simp
  ultimately show ?thesis unfolding w
    by (rule budget_run_step [OF budget_run_step [OF budget_run_step [OF budget_run_step [OF budget_run.stop _ refl] _ refl] _ refl]]) simp
qed

text \<open>C3: On a replica with the in-memory stores, started empty, and for a key whose settings stay as
  they are: whatever was served before, on whatever days, once the budget of the key is exhausted,
  what still adds to it that day are requests that had passed their check, one recorded cost each:
  those between their check and their slot and those in the upstream. With a positive
  \<open>MaxConcurrent\<close> below the largest 64-bit integer the latter are at most \<open>MaxConcurrent\<close>. Whatever the interleaving, with other keys'
  requests too, the day's total grows by these costs and by nothing else, and the budget stays
  exhausted. No recorded cost is NaN, by assumption.\<close>

theorem budget_overshoot_bound:
  assumes "budget_run k UNIV (meter_NewMemory, conc_NewMemory, []) before (m, c, rs)"
    "meter_Check m now (ID k) (DailyBudgetUSD k) (MonthBudgetUSD k) = Some ErrBudgetExceeded"
    "budget_run k {t. utc_day t = utc_day now} (m, c, rs) after (m', c', rs')"
  shows "length after \<le> count Checked rs + count InUpstream rs \<and>
    (0 <s MaxConcurrent k \<and> sint (MaxConcurrent k) < i64_max \<longrightarrow> int (count InUpstream rs) \<le> sint (MaxConcurrent k)) \<and>
    meter_day m' (ID k) now = add_up (meter_day m (ID k) now) after \<and>
    meter_Check m' now (ID k) (DailyBudgetUSD k) (MonthBudgetUSD k) = Some ErrBudgetExceeded"
proof -
  have "meter_mem.amounts m" using budget_run_amounts [OF assms(1)] fresh_ok(2) by simp
  from budget_run_exhausted [OF assms(3) [folded day_of_def] refl assms(2) this] have
    r: "exhausted k now m'" "length after + can_spend rs' \<le> can_spend rs"
      "meter_day m' (ID k) now = add_up (meter_day m (ID k) now) after" by auto
  have "slots_ok k (m, c, rs)" if "0 <s MaxConcurrent k" "sint (MaxConcurrent k) < i64_max"
    using budget_run_slots [OF assms(1) fresh_ok(1)] that by simp
  then show ?thesis using r by (auto simp: slots_ok_def can_spend_def)
qed

section \<open>The documented bound\<close>

text \<open>A key with a daily cap of one dollar and one slot, and requests that cost one dollar each.\<close>

definition capped_key :: VirtualKey where
  "capped_key = demo_key\<lparr>MaxConcurrent := 1\<rparr>"

lemma capped_key_simps [simp]:
  "ID capped_key = ''key_0''" "DailyBudgetUSD capped_key = Fin 1" "MonthBudgetUSD capped_key = Fin 0"
  "MaxConcurrent capped_key = 1"
  by (simp_all add: capped_key_def demo_key_def)

text \<open>The stores after \<open>n\<close> of these requests, with a free slot.\<close>

definition spent_n :: "nat \<Rightarrow> meter_memory" where
  "spent_n n = meter_after (replicate n (0, ''key_0'', Fin 1))"

definition free_slot :: conc_memory where
  "free_slot = [''key_0'' \<mapsto> 0]"

lemma spent_n_Suc: "fst (meter_Record (spent_n n) 0 ''key_0'' (Fin 1)) = spent_n (Suc n)"
  by (simp add: spent_n_def meter_after_snoc [symmetric] replicate_append_same)

lemma serve_one:
  assumes "i < length rs" "rs ! i = Checked" "budget_run capped_key (day_of 0) s xs (spent_n n, c, rs)"
    "c = conc_NewMemory \<or> c = free_slot"
  shows "budget_run capped_key (day_of 0) s (xs @ [Fin 1]) (spent_n (Suc n), free_slot, rs[i := Finished])"
proof -
  have "conc_Acquire c ''key_0'' 1 = ([''key_0'' \<mapsto> 1], True)"
    using assms(4) by (auto simp: conc_Acquire_def conc_NewMemory_def free_slot_def conc_loadOrCreate_def Let_def
        sless_int sle_int)
  then have a: "budget_step capped_key (day_of 0) (spent_n n, c, rs) [] (spent_n n, [''key_0'' \<mapsto> 1], rs[i := InUpstream])"
    using budget_step.acquire [OF assms(1,2), of c capped_key "[''key_0'' \<mapsto> 1]" True "day_of 0"] by simp
  have b: "budget_step capped_key (day_of 0) (spent_n n, [''key_0'' \<mapsto> 1], rs[i := InUpstream]) [Fin 1]
      (spent_n (Suc n), [''key_0'' \<mapsto> 1], rs[i := Recorded])"
    using budget_step.spend [of i "rs[i := InUpstream]" 0 "day_of 0" "Fin 1" capped_key "spent_n n" "[''key_0'' \<mapsto> 1]"] assms(1)
    by (simp add: spent_n_Suc)
  have "conc_Release [''key_0'' \<mapsto> 1] ''key_0'' 1 = free_slot"
    by (simp add: conc_Release_def free_slot_def sle_int)
  then have c: "budget_step capped_key (day_of 0) (spent_n (Suc n), [''key_0'' \<mapsto> 1], rs[i := Recorded]) []
      (spent_n (Suc n), free_slot, rs[i := Finished])"
    using budget_step.release [of i "rs[i := Recorded]" capped_key "day_of 0" "spent_n (Suc n)" "[''key_0'' \<mapsto> 1]"] assms(1) by simp
  show ?thesis
    by (rule budget_run_step [OF budget_run_step [OF budget_run_step [OF assms(3) a refl] b refl] c]) simp
qed

lemma three_checked:
  "budget_run capped_key (day_of 0) (meter_NewMemory, conc_NewMemory, []) []
    (spent_n 0, conc_NewMemory, [Checked, Checked, Checked])"
proof -
  have s0: "spent_n 0 = meter_NewMemory" by (simp add: spent_n_def meter_after_def)
  have chk: "budget_step capped_key (day_of 0) (spent_n 0, conc_NewMemory, rs) [] (spent_n 0, conc_NewMemory, rs @ [Checked])" for rs
    by (rule budget_step.check [of 0 "day_of 0"]) (simp_all add: meter_Check_alt s0 meter_mem.init_zero)
  show ?thesis
    using budget_run_step [OF budget_run_step [OF budget_run_step [OF budget_run.stop chk refl] chk refl] chk refl, of "[]"]
    by (simp add: s0)
qed

text \<open>The documentation bounds the overshoot of a budget by the number of slots times the largest
  cost of a request. The stores admit more: with a cap of 1, one slot and requests of cost 1, three
  requests that pass their check before the first has recorded and then take the slot in turn bring
  the day's total to 3, an overshoot of twice that bound.\<close>

theorem overshoot_beyond_documented_bound:
  "\<exists>m c rs. budget_run capped_key (day_of 0) (meter_NewMemory, conc_NewMemory, []) [Fin 1, Fin 1, Fin 1] (m, c, rs) \<and>
    MaxConcurrent capped_key = 1 \<and> DailyBudgetUSD capped_key = Fin 1 \<and>
    meter_day m (ID capped_key) 0 = Fin 3 \<and> \<not> f64_le (meter_day m (ID capped_key) 0) (Fin (1 + 1 * 1))"
proof -
  from serve_one [OF _ _ serve_one [OF _ _ serve_one [OF _ _ three_checked]], of 0 1 2]
  have "budget_run capped_key (day_of 0) (meter_NewMemory, conc_NewMemory, []) [Fin 1, Fin 1, Fin 1]
      (spent_n 3, free_slot, [Finished, Finished, Finished])"
    by (simp add: numeral_3_eq_3)
  moreover have "meter_day (spent_n 3) ''key_0'' 0 = Fin 3"
    by (simp add: spent_n_def meter_after_totals spent_def numeral_3_eq_3)
  ultimately show ?thesis by (intro exI conjI) auto
qed

theorem budget_overshoot_bound_witness:
  "length [Fin 1, Fin 1] \<le> count Checked [Finished, Checked, Checked] + count InUpstream [Finished, Checked, Checked] \<and>
   meter_day (spent_n 3) ''key_0'' 0 = add_up (Fin 1) [Fin 1, Fin 1]"
proof -
  from serve_one [OF _ _ three_checked, of 0] have "budget_run capped_key (day_of 0) (meter_NewMemory, conc_NewMemory, [])
      [Fin 1] (spent_n 1, free_slot, [Finished, Checked, Checked])" by simp
  from budget_run_mono [OF this subset_UNIV] have before: "budget_run capped_key UNIV (meter_NewMemory, conc_NewMemory, [])
      [Fin 1] (spent_n 1, free_slot, [Finished, Checked, Checked])" .
  have ex: "meter_Check (spent_n 1) 0 (ID capped_key) (DailyBudgetUSD capped_key) (MonthBudgetUSD capped_key) =
      Some ErrBudgetExceeded"
    by (simp add: meter_Check_alt spent_n_def meter_after_totals spent_def)
  have "budget_run capped_key (day_of 0) (spent_n 1, free_slot, [Finished, Checked, Checked]) [Fin 1, Fin 1]
      (spent_n 3, free_slot, [Finished, Finished, Finished])"
    using serve_one [OF _ _ serve_one [OF _ _ budget_run.stop [of capped_key "day_of 0" "(spent_n 1, free_slot, [Finished, Checked, Checked])"]], of 1 2]
    by (simp add: numeral_3_eq_3)
  from budget_overshoot_bound [OF before ex this [unfolded day_of_def]]
  show ?thesis by (simp add: spent_n_def meter_after_totals spent_def numeral_3_eq_3 del: length_Cons list.size)
qed

end
