(* ===== verification/Unknown_Model.thy ===== *)
theory Unknown_Model
  imports Civil_Time
begin

text \<open>
  \<open>internal/proxy/unknown_model_logger.go\<close>: which unknown-model warnings are logged. The two-field
  struct key is a pair; the map of states is the whole state, under one mutex, so a history is a
  list of occurrences with their clock readings. \<open>now.Sub(t)\<close> is the difference in nanoseconds (it
  saturates at 292 years, which no two clock readings of a process are apart).
\<close>

record unknownModelState =
  firstSeen :: instant
  lastLogged :: instant

type_synonym unknownModelLogger = "string \<times> string \<Rightarrow> unknownModelState option"

definition burstWindow :: int where "burstWindow = 60 * 1000000000"
definition steadyInterval :: int where "steadyInterval = 60 * 1000000000"

definition newUnknownModelLogger :: unknownModelLogger where
  "newUnknownModelLogger = (\<lambda>_. None)"

definition shouldLog :: "unknownModelLogger \<Rightarrow> instant \<Rightarrow> string \<Rightarrow> string \<Rightarrow> unknownModelLogger \<times> bool" where
  "shouldLog l now keyID model =
     (let k = (keyID, model) in
      case l k of None \<Rightarrow> (l(k \<mapsto> \<lparr>firstSeen = now, lastLogged = now\<rparr>), True)
      | Some state \<Rightarrow>
        if now - firstSeen state \<le> burstWindow then (l(k \<mapsto> state\<lparr>lastLogged := now\<rparr>), True)
        else if steadyInterval \<le> now - lastLogged state then (l(k \<mapsto> state\<lparr>lastLogged := now\<rparr>), True)
        else (l, False))"

text \<open>The log lines of a history: \<open>Warn\<close> on a logger that is not nil.\<close>

definition Warn :: "unknownModelLogger \<Rightarrow> instant \<Rightarrow> string \<Rightarrow> string \<Rightarrow> unknownModelLogger \<times> (string \<times> string) list" where
  "Warn l now keyID model = (let (l, b) = shouldLog l now keyID model in (l, if b then [(keyID, model)] else []))"

fun warn_run :: "unknownModelLogger \<Rightarrow> (instant \<times> string \<times> string) list \<Rightarrow> bool list" where
  "warn_run l [] = []"
| "warn_run l ((now, keyID, model) # occ) =
     (let (l, b) = shouldLog l now keyID model in b # warn_run l occ)"

text \<open>The times at which the pair \<open>p\<close> was logged.\<close>

definition logged :: "string \<times> string \<Rightarrow> (instant \<times> string \<times> string) list \<Rightarrow> bool list \<Rightarrow> instant list" where
  "logged p occ bs = map (\<lambda>(o1, _). fst o1) (filter (\<lambda>(o1, b). b \<and> snd o1 = p) (zip occ bs))"

lemma logged_Cons [simp]:
  "logged p ((t, q) # occ) (b # bs) = (if b \<and> q = p then t # logged p occ bs else logged p occ bs)"
  by (simp add: logged_def)

lemma logged_Nil [simp]: "logged p [] bs = []"
  by (simp add: logged_def)

lemma shouldLog_other:
  "shouldLog l now keyID model = (l', b) \<Longrightarrow> p \<noteq> (keyID, model) \<Longrightarrow> l' p = l p"
  by (auto simp: shouldLog_def Let_def split: option.splits if_splits)

text \<open>Two log lines of a pair, the later one after the burst window that began at \<open>t0\<close>.\<close>

abbreviation "spaced t0 x y \<equiv> y \<le> t0 + burstWindow \<or> x + steadyInterval \<le> y"

lemma warn_run_spaced:
  "l p = Some st \<Longrightarrow> sorted (map fst occ) \<Longrightarrow> \<forall>o1 \<in> set occ. lastLogged st \<le> fst o1 \<Longrightarrow>
    sorted_wrt (spaced (firstSeen st)) (lastLogged st # logged p occ (warn_run l occ))"
proof (induction occ arbitrary: l st)
  case (Cons o1 occ)
  obtain now keyID model where o: "o1 = (now, keyID, model)" by (cases o1)
  obtain l' b where s: "shouldLog l now keyID model = (l', b)" by fastforce
  have rest: "sorted (map fst occ)" "\<forall>o1 \<in> set occ. now \<le> fst o1" using Cons.prems(2) o by auto
  have now: "lastLogged st \<le> now" using Cons.prems(3) o by simp
  show ?case
  proof (cases "p = (keyID, model) \<and> b")
    case False
    have l': "l' p = Some st"
    proof (cases "p = (keyID, model)")
      case True
      with False s Cons.prems(1) show ?thesis by (auto simp: shouldLog_def Let_def split: if_splits)
    next
      case False
      then show ?thesis using shouldLog_other [OF s False] Cons.prems(1) by simp
    qed
    have "\<forall>o1 \<in> set occ. lastLogged st \<le> fst o1" using Cons.prems(3) by simp
    from Cons.IH [of l' st, OF l' rest(1) this] False show ?thesis by (auto simp: o s)
  next
    case True
    then have l': "l' p = Some (st\<lparr>lastLogged := now\<rparr>)" and sp: "spaced (firstSeen st) (lastLogged st) now"
      using s Cons.prems(1) by (auto simp: shouldLog_def Let_def split: if_splits)
    have IH: "sorted_wrt (spaced (firstSeen st)) (now # logged p occ (warn_run l' occ))"
      using Cons.IH [of l', OF l' rest(1)] rest(2) by simp
    moreover have "spaced (firstSeen st) (lastLogged st) y" if "y \<in> set (logged p occ (warn_run l' occ))" for y
      using IH that now by auto
    ultimately show ?thesis using True sp by (auto simp: o s)
  qed
qed simp

lemma warn_run_first:
  "l p = None \<Longrightarrow> sorted (map fst occ) \<Longrightarrow>
    (case logged p occ (warn_run l occ) of [] \<Rightarrow> p \<notin> snd ` set occ
     | t0 # ts \<Rightarrow> (\<exists>us vs. occ = us @ (t0, p) # vs \<and> p \<notin> snd ` set us) \<and> sorted_wrt (spaced t0) (t0 # ts))"
proof (induction occ arbitrary: l)
  case (Cons o1 occ)
  obtain now keyID model where o: "o1 = (now, keyID, model)" by (cases o1)
  obtain l' b where s: "shouldLog l now keyID model = (l', b)" by fastforce
  have rest: "sorted (map fst occ)" "\<forall>o1 \<in> set occ. now \<le> fst o1" using Cons.prems(2) o by auto
  show ?case
  proof (cases "p = (keyID, model)")
    case True
    then have l': "l' p = Some \<lparr>firstSeen = now, lastLogged = now\<rparr>" "b"
      using s Cons.prems(1) by (auto simp: shouldLog_def Let_def)
    have "sorted_wrt (spaced now) (now # logged p occ (warn_run l' occ))"
      using warn_run_spaced [of l' p, OF l'(1) rest(1)] rest(2) by simp
    moreover have "\<exists>us vs. o1 # occ = us @ (now, p) # vs \<and> p \<notin> snd ` set us"
      by (rule exI [of _ "[]"]) (simp add: o True)
    ultimately show ?thesis using True l'(2) by (simp add: o s)
  next
    case False
    then have "l' p = None" using shouldLog_other [OF s False] Cons.prems(1) by simp
    note IH = Cons.IH [of l', OF this rest(1)]
    have lg: "logged p (o1 # occ) (warn_run l (o1 # occ)) = logged p occ (warn_run l' occ)"
      using False by (simp add: o s)
    have p: "p \<noteq> snd o1" using False by (simp add: o)
    show ?thesis
    proof (cases "logged p occ (warn_run l' occ)")
      case Nil
      then show ?thesis using IH p unfolding lg by simp
    next
      case (Cons t0 ts)
      with IH obtain us vs where "occ = us @ (t0, p) # vs" "p \<notin> snd ` set us" "sorted_wrt (spaced t0) (t0 # ts)"
        by auto
      then have "o1 # occ = (o1 # us) @ (t0, p) # vs \<and> p \<notin> snd ` set (o1 # us)" using p by simp
      then have "\<exists>us vs. o1 # occ = us @ (t0, p) # vs \<and> p \<notin> snd ` set us" by blast
      then show ?thesis unfolding lg Cons using \<open>sorted_wrt _ (t0 # ts)\<close> by simp
    qed
  qed
qed simp

text \<open>The first time a key meets an unknown model a line is logged; after the minute that follows,
  the same pair is never logged twice within a minute, whatever else is logged in between.\<close>

theorem unknown_model_lines_are_spaced:
  assumes "sorted (map fst occ)" "(t, p) \<in> set occ"
  shows "\<exists>t0 ts us vs. logged p occ (warn_run newUnknownModelLogger occ) = t0 # ts \<and>
    occ = us @ (t0, p) # vs \<and> p \<notin> snd ` set us \<and>
    sorted_wrt (\<lambda>x y. y \<le> t0 + burstWindow \<or> x + steadyInterval \<le> y) (t0 # ts)"
proof -
  have "p \<in> snd ` set occ" using assms(2) by force
  then show ?thesis
    using warn_run_first [of newUnknownModelLogger p occ] assms(1)
    by (auto simp: newUnknownModelLogger_def split: list.splits)
qed

theorem unknown_model_lines_are_spaced_witness:
  "logged (''k'', ''m'') [(0, ''k'', ''m''), (5, ''k'', ''m''), (61000000000, ''k'', ''m''), (62000000000, ''k'', ''m'')]
     (warn_run newUnknownModelLogger [(0, ''k'', ''m''), (5, ''k'', ''m''), (61000000000, ''k'', ''m''), (62000000000, ''k'', ''m'')]) \<noteq> []"
  using unknown_model_lines_are_spaced [of "[(0, ''k'', ''m''), (5, ''k'', ''m''), (61000000000, ''k'', ''m''), (62000000000, ''k'', ''m'')]" 5 "(''k'', ''m'')"]
  by (force simp: newUnknownModelLogger_def)

end
