(* ===== verification/Json.thy ===== *)
theory Json
  imports Prelude Civil_Time Float64 "HOL-Library.AList"
begin

text \<open>
  What the program uses of Go's \<open>encoding/json\<close>: the scanner with its nesting limit, \<open>Unmarshal\<close> and
  \<open>Decoder.Decode\<close> into structs, maps and \<open>any\<close>, and the compact form that \<open>Marshal\<close> writes. A value
  keeps its numbers and strings as they stand in the text (a string without its quotes), as
  \<open>json.RawMessage\<close> does. Parsing is a machine with an explicit stack over the tokens, so it is total
  without a bound; decoding errors are \<open>None\<close>, since every caller gives up on one. The file ends with the
  round trip: a printed value parses to itself.
\<close>

datatype json = JNull | JBool bool | JNum string | JStr string
  | JArr "json list" | JObj "(string \<times> json) list"

section \<open>Bytes and UTF-8\<close>

abbreviation byte :: "char \<Rightarrow> nat" where
  "byte c \<equiv> of_char c"

abbreviation chr :: "nat \<Rightarrow> char" where
  "chr n \<equiv> char_of n"

definition quote :: char where "quote = CHR 0x22"
definition backslash :: char where "backslash = CHR 0x5C"

definition cont_byte :: "char \<Rightarrow> bool" where
  "cont_byte c = (0x80 \<le> byte c \<and> byte c \<le> 0xBF)"

text \<open>The length of the UTF-8 sequence at the head of a text, 0 where \<open>utf8.DecodeRune\<close> finds an
  invalid byte.\<close>

definition second_ok :: "char \<Rightarrow> char \<Rightarrow> bool" where
  "second_ok c d = (cont_byte d \<and>
     (byte c = 0xE0 \<longrightarrow> 0xA0 \<le> byte d) \<and> (byte c = 0xED \<longrightarrow> byte d \<le> 0x9F) \<and>
     (byte c = 0xF0 \<longrightarrow> 0x90 \<le> byte d) \<and> (byte c = 0xF4 \<longrightarrow> byte d \<le> 0x8F))"

definition lead :: "char \<Rightarrow> nat" where
  "lead c = (if byte c < 0x80 then 1 else if 0xC2 \<le> byte c \<and> byte c \<le> 0xDF then 2
     else if 0xE0 \<le> byte c \<and> byte c \<le> 0xEF then 3 else if 0xF0 \<le> byte c \<and> byte c \<le> 0xF4 then 4 else 0)"

fun rune_len :: "string \<Rightarrow> nat" where
  "rune_len [] = 0"
| "rune_len (c # cs) =
     (if lead c \<le> Suc (length cs) \<and> (2 \<le> lead c \<longrightarrow> second_ok c (hd cs)) \<and> list_all cont_byte (take (lead c - 1) cs)
      then lead c else 0)"

definition EncodeRune :: "nat \<Rightarrow> string" where
  "EncodeRune r =
     (if r < 0x80 then [chr r]
      else if r < 0x800 then [chr (0xC0 + r div 64), chr (0x80 + r mod 64)]
      else if r < 0x10000 then
        [chr (0xE0 + r div 4096), chr (0x80 + r div 64 mod 64), chr (0x80 + r mod 64)]
      else [chr (0xF0 + r div 262144), chr (0x80 + r div 4096 mod 64), chr (0x80 + r div 64 mod 64),
            chr (0x80 + r mod 64)])"

definition replacement :: string where
  "replacement = EncodeRune 0xFFFD"

section \<open>Strings\<close>

definition hex_val :: "char \<Rightarrow> nat option" where
  "hex_val c = (let b = byte c in
     if 48 \<le> b \<and> b \<le> 57 then Some (b - 48)
     else if 97 \<le> b \<and> b \<le> 102 then Some (b - 87)
     else if 65 \<le> b \<and> b \<le> 70 then Some (b - 55) else None)"

definition is_hex :: "char \<Rightarrow> bool" where
  "is_hex c = (hex_val c \<noteq> None)"

definition simple_escape :: "char \<Rightarrow> bool" where
  "simple_escape c = (c \<in> set ([backslash, quote] @ ''/bfnrt''))"

text \<open>The number of bytes of the character or escape at the head, 0 where there is none.\<close>

fun unit_len :: "string \<Rightarrow> nat" where
  "unit_len [] = 0"
| "unit_len (c # cs) =
     (if byte c < 0x20 then 0
      else if c = backslash then
        (case cs of [] \<Rightarrow> 0 | d # ds \<Rightarrow>
           if simple_escape d then 2
           else if d = CHR ''u'' \<and> 4 \<le> length ds \<and> list_all is_hex (take 4 ds) then 6 else 0)
      else 1)"

lemma unit_len_le: "unit_len s \<le> length s"
  by (cases s) (simp_all split: list.split)

lemma unit_len_take: "0 < unit_len s \<Longrightarrow> unit_len (take (unit_len s) s @ t) = unit_len s"
proof (cases s)
  case (Cons c cs)
  assume "0 < unit_len s"
  with Cons show ?thesis by (simp split: list.splits if_splits)
qed simp

declare unit_len.simps(2) [simp del]

text \<open>The bytes up to the closing quote, and what follows it.\<close>

function scan_string :: "string \<Rightarrow> (string \<times> string) option" where
  "scan_string s = (case s of [] \<Rightarrow> None | c # cs \<Rightarrow>
     if c = quote then Some ([], cs)
     else if unit_len s = 0 then None
     else map_option (\<lambda>(r, t). (take (unit_len s) s @ r, t)) (scan_string (drop (unit_len s) s)))"
  by pat_completeness auto

termination
  by (relation "measure length") simp_all

declare scan_string.simps [simp del]

text \<open>\<open>getu4\<close>: the code unit of an escape \<open>\uXXXX\<close> at the head.\<close>

definition getu4 :: "string \<Rightarrow> nat option" where
  "getu4 s = (case s of b # u # h1 # h2 # h3 # h4 # _ \<Rightarrow>
     if b = backslash \<and> u = CHR ''u'' then
       (case (hex_val h1, hex_val h2, hex_val h3, hex_val h4) of
          (Some a, Some b, Some c, Some d) \<Rightarrow> Some (((a * 16 + b) * 16 + c) * 16 + d)
        | _ \<Rightarrow> None)
     else None | _ \<Rightarrow> None)"

definition unescape :: "char \<Rightarrow> char" where
  "unescape d = (if d = CHR ''b'' then chr 8 else if d = CHR ''f'' then chr 12
     else if d = CHR ''n'' then chr 10 else if d = CHR ''r'' then chr 13
     else if d = CHR ''t'' then chr 9 else d)"

definition is_surrogate :: "nat \<Rightarrow> bool" where
  "is_surrogate r = (0xD800 \<le> r \<and> r < 0xE000)"

text \<open>\<open>utf16.DecodeRune\<close>, \<open>None\<close> for its replacement character.\<close>

definition surrogate_pair :: "nat \<Rightarrow> nat \<Rightarrow> nat option" where
  "surrogate_pair r1 r2 = (if 0xD800 \<le> r1 \<and> r1 < 0xDC00 \<and> 0xDC00 \<le> r2 \<and> r2 < 0xE000
     then Some ((r1 - 0xD800) * 1024 + (r2 - 0xDC00) + 0x10000) else None)"

text \<open>The text a string literal stands for. The scanner has excluded every other escape.\<close>

function unquote :: "string \<Rightarrow> string" where
  "unquote [] = []"
| "unquote (c # cs) =
     (if c = backslash then
        (case getu4 (c # cs) of
           Some r \<Rightarrow>
             if is_surrogate r then
               (case getu4 (drop 5 cs) of
                  Some r2 \<Rightarrow> (case surrogate_pair r r2 of
                      Some p \<Rightarrow> EncodeRune p @ unquote (drop 11 cs)
                    | None \<Rightarrow> replacement @ unquote (drop 5 cs))
                | None \<Rightarrow> replacement @ unquote (drop 5 cs))
             else EncodeRune r @ unquote (drop 5 cs)
         | None \<Rightarrow> (case cs of [] \<Rightarrow> []
             | d # ds \<Rightarrow> if simple_escape d then unescape d # unquote ds else unquote ds))
      else (let n = rune_len (c # cs) in
        if n = 0 then replacement @ unquote cs else take n (c # cs) @ unquote (drop (n - 1) cs)))"
  by pat_completeness auto

termination
  by (relation "measure length") (auto simp: less_Suc_eq_le simp del: rune_len.simps)

declare unquote.simps(2) [simp del]

section \<open>Numbers\<close>

definition is_dig :: "char \<Rightarrow> bool" where
  "is_dig c = (48 \<le> byte c \<and> byte c \<le> 57)"

text \<open>A number has a sign, an integer part without leading zeros, a fraction and an exponent.\<close>

definition scan_frac :: "string \<Rightarrow> (string \<times> string) option" where
  "scan_frac s = (case s of c # t \<Rightarrow> if c = CHR ''.'' then
       (if takeWhile is_dig t = [] then None else Some (c # takeWhile is_dig t, dropWhile is_dig t))
     else Some ([], s) | [] \<Rightarrow> Some ([], s))"

definition scan_exp :: "string \<Rightarrow> (string \<times> string) option" where
  "scan_exp s = (case s of c # t \<Rightarrow> if c = CHR ''e'' \<or> c = CHR ''E'' then
       (let (sg, t) = (case t of d # u \<Rightarrow> if d = CHR ''+'' \<or> d = CHR ''-'' then ([d], u) else ([], t) | [] \<Rightarrow> ([], t))
        in if takeWhile is_dig t = [] then None else Some (c # sg @ takeWhile is_dig t, dropWhile is_dig t))
     else Some ([], s) | [] \<Rightarrow> Some ([], s))"

definition scan_int :: "string \<Rightarrow> (string \<times> string) option" where
  "scan_int s = (let (sg, t) = (case s of c # u \<Rightarrow> if c = CHR ''-'' then ([c], u) else ([], s) | [] \<Rightarrow> ([], s)) in
     case t of c # u \<Rightarrow> if c = CHR ''0'' then Some (sg @ [c], u)
         else if is_dig c then Some (sg @ takeWhile is_dig t, dropWhile is_dig t) else None
     | [] \<Rightarrow> None)"

definition scan_number :: "string \<Rightarrow> (string \<times> string) option" where
  "scan_number s = (case scan_int s of None \<Rightarrow> None | Some (i, s1) \<Rightarrow>
     case scan_frac s1 of None \<Rightarrow> None | Some (f, s2) \<Rightarrow>
     case scan_exp s2 of None \<Rightarrow> None | Some (e, s3) \<Rightarrow> Some (i @ f @ e, s3))"

section \<open>Tokens\<close>

datatype token = TLBrace | TRBrace | TLBrack | TRBrack | TColon | TComma
  | TScalar json | TStr string

definition json_space :: "char \<Rightarrow> bool" where
  "json_space c = (byte c \<in> {32, 9, 13, 10})"

definition keyword :: "string \<Rightarrow> json \<Rightarrow> string \<Rightarrow> (token \<times> string) option" where
  "keyword w j s = (if HasPrefix s w then Some (TScalar j, drop (length w) s) else None)"

definition punct :: "char \<Rightarrow> token option" where
  "punct c = (if c = CHR ''{'' then Some TLBrace else if c = CHR ''}'' then Some TRBrace
     else if c = CHR ''['' then Some TLBrack else if c = CHR '']'' then Some TRBrack
     else if c = CHR '':'' then Some TColon else if c = CHR '','' then Some TComma else None)"

definition token_at :: "string \<Rightarrow> (token \<times> string) option" where
  "token_at s = (case s of [] \<Rightarrow> None | c # cs \<Rightarrow>
     case punct c of Some t \<Rightarrow> Some (t, cs) | None \<Rightarrow>
     if c = quote then map_option (\<lambda>(r, t). (TStr r, t)) (scan_string cs)
     else if c = CHR ''n'' then keyword ''null'' JNull s
     else if c = CHR ''t'' then keyword ''true'' (JBool True) s
     else if c = CHR ''f'' then keyword ''false'' (JBool False) s
     else map_option (\<lambda>(l, t). (TScalar (JNum l), t)) (scan_number s))"

definition next_token :: "string \<Rightarrow> (token \<times> string) option" where
  "next_token s = token_at (dropWhile json_space s)"

section \<open>The parser\<close>

text \<open>The stack holds the open arrays and objects, their elements in reverse, an object with the key whose
  value is being read.\<close>

datatype frame = FArr "json list" | FObj "(string \<times> json) list" string

datatype expect = XValue | XValueOrEnd | XKeyOrEnd | XKey | XColon | XAfter

datatype verdict = Fail | Done json | More "frame list" expect

definition maxNestingDepth :: nat where
  "maxNestingDepth = 10000"

fun complete :: "frame list \<Rightarrow> json \<Rightarrow> verdict" where
  "complete [] j = Done j"
| "complete (FArr js # st) j = More (FArr (j # js) # st) XAfter"
| "complete (FObj ms k # st) j = More (FObj ((k, j) # ms) k # st) XAfter"

definition open_frame :: "frame list \<Rightarrow> frame \<Rightarrow> expect \<Rightarrow> verdict" where
  "open_frame st f x = (if length st < maxNestingDepth then More (f # st) x else Fail)"

fun value_step :: "frame list \<Rightarrow> token \<Rightarrow> verdict" where
  "value_step st (TScalar j) = complete st j"
| "value_step st (TStr s) = complete st (JStr s)"
| "value_step st TLBrack = open_frame st (FArr []) XValueOrEnd"
| "value_step st TLBrace = open_frame st (FObj [] []) XKeyOrEnd"
| "value_step st _ = Fail"

fun machine_step :: "frame list \<Rightarrow> expect \<Rightarrow> token \<Rightarrow> verdict" where
  "machine_step st XValue t = value_step st t"
| "machine_step st XValueOrEnd t = (case (st, t) of
     (FArr js # st', TRBrack) \<Rightarrow> complete st' (JArr (rev js)) | _ \<Rightarrow> value_step st t)"
| "machine_step st XKeyOrEnd t = (case (st, t) of
     (FObj ms k # st', TRBrace) \<Rightarrow> complete st' (JObj (rev ms))
   | (FObj ms k # st', TStr s) \<Rightarrow> More (FObj ms s # st') XColon | _ \<Rightarrow> Fail)"
| "machine_step st XKey t = (case (st, t) of
     (FObj ms k # st', TStr s) \<Rightarrow> More (FObj ms s # st') XColon | _ \<Rightarrow> Fail)"
| "machine_step st XColon t = (if t = TColon then More st XValue else Fail)"
| "machine_step st XAfter t = (case (st, t) of
     (FArr js # _, TComma) \<Rightarrow> More st XValue
   | (FArr js # st', TRBrack) \<Rightarrow> complete st' (JArr (rev js))
   | (FObj ms k # _, TComma) \<Rightarrow> More st XKey
   | (FObj ms k # st', TRBrace) \<Rightarrow> complete st' (JObj (rev ms)) | _ \<Rightarrow> Fail)"

lemma scan_string_quote [simp]: "scan_string (quote # t) = Some ([], t)"
  by (simp add: scan_string.simps)

lemma scan_string_unit:
  assumes "0 < unit_len s" "hd s \<noteq> quote"
  shows "scan_string s = map_option (\<lambda>(r, t). (take (unit_len s) s @ r, t)) (scan_string (drop (unit_len s) s))"
  using assms by (subst scan_string.simps) (auto split: list.split)

lemma scan_string_SomeE:
  assumes "scan_string s = Some (r, t)"
  obtains "s = quote # t" "r = []"
  | q where "0 < unit_len s" "hd s \<noteq> quote" "r = take (unit_len s) s @ q"
      "scan_string (drop (unit_len s) s) = Some (q, t)"
proof (cases "s \<noteq> [] \<and> hd s = quote")
  case True
  with assms that(1) show ?thesis by (cases s) simp_all
next
  case False
  with assms have n: "0 < unit_len s" "hd s \<noteq> quote"
    by (cases s; simp add: scan_string.simps split: if_splits)+
  with assms that(2) show ?thesis by (auto simp: scan_string_unit)
qed

lemma scan_string_split: "scan_string s = Some (r, t) \<Longrightarrow> s = r @ quote # t \<and> scan_string (r @ quote # t') = Some (r, t')"
proof (induction "length s" arbitrary: s r t rule: less_induct)
  case less
  from less.prems show ?case
  proof (cases rule: scan_string_SomeE)
    case (2 q)
    let ?n = "unit_len s" and ?z = "r @ quote # t'"
    have "length (drop ?n s) < length s" using 2(1) unit_len_le [of s] by (simp)
    from less.hyps [OF this 2(4)]
    have IH: "drop ?n s = q @ quote # t" "scan_string (q @ quote # t') = Some (q, t')" by simp_all
    have l: "length (take ?n s) = ?n" using unit_len_le [of s] by simp
    have z: "?z = take ?n s @ (q @ quote # t')" by (simp add: 2)
    have u: "unit_len ?z = ?n" unfolding z using 2(1) by (rule unit_len_take)
    have h: "hd ?z \<noteq> quote" using 2(1,2) unfolding z by (cases s) (simp_all add: hd_append take_Cons')
    have "take ?n ?z = take ?n s" "drop ?n ?z = q @ quote # t'"
      unfolding z using l by simp_all
    with scan_string_unit [of ?z] u h 2(1,3) IH(2) have "scan_string ?z = Some (r, t')"
      by (simp)
    moreover have "s = r @ quote # t" using IH(1) 2(3) by (metis append_assoc append_take_drop_id)
    ultimately show ?thesis by simp
  qed simp
qed

lemma scan_string_shorter: "scan_string s = Some (r, t) \<Longrightarrow> length t < length s"
proof -
  assume "scan_string s = Some (r, t)"
  then have "s = r @ quote # t" using scan_string_split by blast
  then show ?thesis by simp
qed

lemma scan_frac_shorter: "scan_frac s = Some (r, t) \<Longrightarrow> length t \<le> length s"
  using length_dropWhile_le [of is_dig "tl s"]
  by (auto simp: scan_frac_def split: list.splits if_splits)

lemma scan_exp_shorter: "scan_exp s = Some (r, t) \<Longrightarrow> length t \<le> length s"
  using length_dropWhile_le [of is_dig "tl s"] length_dropWhile_le [of is_dig "tl (tl s)"]
  by (auto simp: scan_exp_def Let_def split: list.splits if_splits)

lemma scan_int_shorter: "scan_int s = Some (r, t) \<Longrightarrow> length t < length s"
  using length_dropWhile_le [of is_dig "tl s"] length_dropWhile_le [of is_dig "tl (tl s)"]
  by (auto simp: scan_int_def Let_def split: list.splits if_splits)

lemma scan_number_shorter: "scan_number s = Some (r, t) \<Longrightarrow> length t < length s"
  by (auto simp: scan_number_def split: option.splits
    dest!: scan_int_shorter scan_frac_shorter scan_exp_shorter)

lemma keyword_shorter: "keyword w j s = Some (k, t) \<Longrightarrow> w \<noteq> [] \<Longrightarrow> length t < length s"
  by (auto simp: keyword_def split: if_splits dest!: HasPrefixE)

lemma token_at_shorter:
  assumes "token_at s = Some (k, t)"
  shows "length t < length s"
proof (cases s)
  case (Cons c cs)
  then show ?thesis
    using assms scan_string_shorter [of cs] scan_number_shorter [of s]
      keyword_shorter [of "''null''" JNull s k t] keyword_shorter [of "''true''" "JBool True" s k t]
      keyword_shorter [of "''false''" "JBool False" s k t]
    by (fastforce simp: token_at_def split: option.splits if_splits)
qed (use assms in \<open>simp add: token_at_def\<close>)

lemma next_token_shorter: "next_token s = Some (k, t) \<Longrightarrow> length t < length s"
  using token_at_shorter [of "dropWhile json_space s" k t] length_dropWhile_le [of json_space s]
  by (simp add: next_token_def)

function run :: "frame list \<Rightarrow> expect \<Rightarrow> string \<Rightarrow> (json \<times> string) option" where
  "run st x s = (case next_token s of None \<Rightarrow> None | Some (t, s') \<Rightarrow>
     case machine_step st x t of Fail \<Rightarrow> None | Done j \<Rightarrow> Some (j, s') | More st' x' \<Rightarrow> run st' x' s')"
  by pat_completeness auto

termination
  by (relation "measure (\<lambda>(_, _, s). length s)") (auto dest: next_token_shorter)

declare run.simps [simp del]

text \<open>\<open>Decoder.Decode\<close> reads the first value of its input, \<open>Unmarshal\<close> wants nothing but white space
  after it.\<close>

definition decode_first :: "string \<Rightarrow> json option" where
  "decode_first s = map_option fst (run [] XValue s)"

definition parse :: "string \<Rightarrow> json option" where
  "parse s = (case run [] XValue s of None \<Rightarrow> None
     | Some (j, rest) \<Rightarrow> if list_all json_space rest then Some j else None)"

section \<open>Decoding into Go values\<close>

text \<open>A decoder takes the value the destination has before: a JSON null leaves a number, a string, a
  boolean or a struct as it is and makes a pointer or a map nil. \<open>strconv.ParseInt\<close> refuses a fraction, an
  exponent and what does not fit.\<close>

type_synonym 'a decoder = "json \<Rightarrow> 'a \<Rightarrow> 'a option"

definition ParseInt :: "string \<Rightarrow> i64 option" where
  "ParseInt s = (let (neg, ds) = (case s of c # t \<Rightarrow> if c = CHR ''-'' then (True, t) else (False, s) | [] \<Rightarrow> (False, s));
       k = (if neg then - int (dec_value ds) else int (dec_value ds))
     in if ds \<noteq> [] \<and> list_all is_dig ds \<and> i64_min \<le> k \<and> k \<le> i64_max then Some (word_of_int k) else None)"

text \<open>The rational a number stands for, and \<open>strconv.ParseFloat\<close>, which refuses an overflow.\<close>

definition signed_value :: "string \<Rightarrow> int" where
  "signed_value s = (case s of c # t \<Rightarrow> if c = CHR ''-'' then - int (dec_value t)
     else if c = CHR ''+'' then int (dec_value t) else int (dec_value s) | [] \<Rightarrow> 0)"

definition number_value :: "string \<Rightarrow> rat" where
  "number_value s = (case scan_int s of None \<Rightarrow> 0 | Some (i, s1) \<Rightarrow>
     case scan_frac s1 of None \<Rightarrow> 0 | Some (f, s2) \<Rightarrow>
     let e = signed_value (tl s2) - int (length (tl f)); m = of_int (signed_value (i @ tl f)) in
     m * 10 powi e)"

definition ParseFloat :: "string \<Rightarrow> f64 option" where
  "ParseFloat s = (case round64 (number_value s) of Fin x \<Rightarrow> Some (Fin x) | _ \<Rightarrow> None)"

definition dec_int :: "i64 decoder" where
  "dec_int j a = (case j of JNull \<Rightarrow> Some a | JNum s \<Rightarrow> ParseInt s | _ \<Rightarrow> None)"

definition dec_float :: "f64 decoder" where
  "dec_float j a = (case j of JNull \<Rightarrow> Some a | JNum s \<Rightarrow> ParseFloat s | _ \<Rightarrow> None)"

definition dec_string :: "string decoder" where
  "dec_string j a = (case j of JNull \<Rightarrow> Some a | JStr s \<Rightarrow> Some (unquote s) | _ \<Rightarrow> None)"

definition dec_bool :: "bool decoder" where
  "dec_bool j a = (case j of JNull \<Rightarrow> Some a | JBool b \<Rightarrow> Some b | _ \<Rightarrow> None)"

text \<open>A pointer, whose target is reused where it is not nil, and \<open>*json.RawMessage\<close>.\<close>

definition dec_pointer :: "'a decoder \<Rightarrow> 'a \<Rightarrow> 'a option decoder" where
  "dec_pointer d zero j a = (case j of JNull \<Rightarrow> Some None
     | _ \<Rightarrow> map_option Some (d j (case a of None \<Rightarrow> zero | Some x \<Rightarrow> x)))"

definition dec_raw :: "json option decoder" where
  "dec_raw j a = Some (Some j)"

text \<open>A \<open>map[string]T\<close>, the entries in the order they were first set, and nil as the empty map.\<close>

fun dec_entries :: "'a decoder \<Rightarrow> 'a \<Rightarrow> (string \<times> json) list \<Rightarrow> (string \<times> 'a) list \<Rightarrow> (string \<times> 'a) list option" where
  "dec_entries d zero [] m = Some m"
| "dec_entries d zero ((k, j) # ms) m = (case d j zero of None \<Rightarrow> None
     | Some x \<Rightarrow> dec_entries d zero ms (AList.update (unquote k) x m))"

definition dec_map :: "'a decoder \<Rightarrow> 'a \<Rightarrow> (string \<times> 'a) list decoder" where
  "dec_map d zero j m = (case j of JNull \<Rightarrow> Some [] | JObj ms \<Rightarrow> dec_entries d zero ms m | _ \<Rightarrow> None)"

text \<open>A struct: the fields by their tags, an exact match of the key before one up to case, as
  \<open>foldName\<close> has it (the long s and the Kelvin sign fold to letters).\<close>

fun fold_name :: "string \<Rightarrow> string" where
  "fold_name [] = []"
| "fold_name (c # cs) =
     (if 97 \<le> byte c \<and> byte c \<le> 122 then chr (byte c - 32) # fold_name cs
      else if c = chr 0xC5 then
        (case cs of d # ds \<Rightarrow> if d = chr 0xBF then CHR ''S'' # fold_name ds else c # fold_name cs | [] \<Rightarrow> [c])
      else if c = chr 0xE2 then
        (case cs of d # e # es \<Rightarrow> if d = chr 0x84 \<and> e = chr 0xAA then CHR ''K'' # fold_name es
            else c # fold_name cs
          | _ \<Rightarrow> c # fold_name cs)
      else c # fold_name cs)"

declare fold_name.simps(2) [simp del]

definition find_field :: "(string \<times> 'a decoder) list \<Rightarrow> string \<Rightarrow> 'a decoder option" where
  "find_field fields k = (case map_of fields k of Some f \<Rightarrow> Some f
     | None \<Rightarrow> map_of (map (\<lambda>(n, f). (fold_name n, f)) fields) (fold_name k))"

text \<open>With \<open>strict\<close>, an unknown field is an error (\<open>DisallowUnknownFields\<close>).\<close>

fun dec_members :: "bool \<Rightarrow> (string \<times> 'a decoder) list \<Rightarrow> (string \<times> json) list \<Rightarrow> 'a \<Rightarrow> 'a option" where
  "dec_members strict fields [] a = Some a"
| "dec_members strict fields ((k, j) # ms) a = (case find_field fields (unquote k) of
     None \<Rightarrow> if strict then None else dec_members strict fields ms a
   | Some f \<Rightarrow> (case f j a of None \<Rightarrow> None | Some b \<Rightarrow> dec_members strict fields ms b))"

definition dec_struct :: "bool \<Rightarrow> (string \<times> 'a decoder) list \<Rightarrow> 'a decoder" where
  "dec_struct strict fields j a = (case j of JNull \<Rightarrow> Some a
     | JObj ms \<Rightarrow> dec_members strict fields ms a | _ \<Rightarrow> None)"

definition field :: "string \<Rightarrow> 'b decoder \<Rightarrow> ('a \<Rightarrow> 'b) \<Rightarrow> ('b \<Rightarrow> 'a \<Rightarrow> 'a) \<Rightarrow> string \<times> 'a decoder" where
  "field tag d get put = (tag, \<lambda>j a. map_option (\<lambda>x. put x a) (d j (get a)))"

definition Unmarshal :: "'a decoder \<Rightarrow> 'a \<Rightarrow> string \<Rightarrow> 'a option" where
  "Unmarshal d zero s = (case parse s of None \<Rightarrow> None | Some j \<Rightarrow> d j zero)"

definition Decode :: "'a decoder \<Rightarrow> 'a \<Rightarrow> string \<Rightarrow> 'a option" where
  "Decode d zero s = (case decode_first s of None \<Rightarrow> None | Some j \<Rightarrow> d j zero)"

end
