(* ===== verification/Json_Print.thy ===== *)
theory Json_Print
  imports Json
begin

text \<open>
  The compact form of a JSON value, as \<open>json.Marshal\<close> writes it, and the round trip: a well-formed value
  within the nesting limit parses back to itself (\<open>parse_json_text\<close>). The proof follows the stack machine:
  printing a value and running the machine over it completes that value on whatever stack it started
  with.
\<close>

section \<open>Printing\<close>

fun commas :: "string list \<Rightarrow> string" where
  "commas [] = []"
| "commas [x] = x"
| "commas (x # y # xs) = x @ CHR '','' # commas (y # xs)"

definition quoted :: "string \<Rightarrow> string" where
  "quoted s = quote # s @ [quote]"

lemma size_snd_mem [termination_simp]:
  "m \<in> set ms \<Longrightarrow> size (snd m) < Suc (size_list (size_prod (\<lambda>_. 0) size) ms)"
  by (induction ms) (auto split: prod.splits)

fun json_text :: "json \<Rightarrow> string" where
  "json_text JNull = ''null''"
| "json_text (JBool b) = (if b then ''true'' else ''false'')"
| "json_text (JNum s) = s"
| "json_text (JStr s) = quoted s"
| "json_text (JArr js) = CHR ''['' # commas (map json_text js) @ '']''"
| "json_text (JObj ms) = CHR ''{'' # commas (map (\<lambda>m. quoted (fst m) @ CHR '':'' # json_text (snd m)) ms) @ ''}''"

text \<open>What the scanner accepts as a number or as the inside of a string, and how deep a value nests.\<close>

definition valid_number :: "string \<Rightarrow> bool" where
  "valid_number s \<longleftrightarrow> scan_number s = Some (s, [])"

definition valid_raw :: "string \<Rightarrow> bool" where
  "valid_raw s \<longleftrightarrow> scan_string (s @ [quote]) = Some (s, [])"

fun wf_json :: "json \<Rightarrow> bool" where
  "wf_json (JNum s) = valid_number s"
| "wf_json (JStr s) = valid_raw s"
| "wf_json (JArr js) = (\<forall>j \<in> set js. wf_json j)"
| "wf_json (JObj ms) = (\<forall>m \<in> set ms. valid_raw (fst m) \<and> wf_json (snd m))"
| "wf_json _ = True"

fun depth :: "json \<Rightarrow> nat" where
  "depth (JArr js) = Suc (Max (insert 0 (depth ` set js)))"
| "depth (JObj ms) = Suc (Max (insert 0 ((\<lambda>m. depth (snd m)) ` set ms)))"
| "depth _ = 0"

lemma depth_member:
  "j \<in> set js \<Longrightarrow> depth j < depth (JArr js)"
  "m \<in> set ms \<Longrightarrow> depth (snd m) < depth (JObj ms)"
  by (simp_all add: less_Suc_eq_le)

section \<open>Tokens of a printed text\<close>

text \<open>What may follow a number.\<close>

definition num_end :: "string \<Rightarrow> bool" where
  "num_end rest = (case rest of [] \<Rightarrow> True | c # _ \<Rightarrow> \<not> is_dig c \<and> c \<noteq> CHR ''.'' \<and> c \<noteq> CHR ''e'' \<and> c \<noteq> CHR ''E'')"

lemma num_end_simps [simp]: "num_end []" "num_end (CHR '','' # s)" "num_end (CHR '']'' # s)" "num_end (CHR ''}'' # s)"
  by (simp_all add: num_end_def is_dig_def)

lemma digits_append:
  assumes "num_end rest"
  shows "takeWhile is_dig (s @ rest) = takeWhile is_dig s" "dropWhile is_dig (s @ rest) = dropWhile is_dig s @ rest"
    "takeWhile is_dig rest = []" "dropWhile is_dig rest = rest"
proof -
  show 1: "takeWhile is_dig rest = []" "dropWhile is_dig rest = rest"
    using assms by (cases rest; simp add: num_end_def)+
  show "takeWhile is_dig (s @ rest) = takeWhile is_dig s" "dropWhile is_dig (s @ rest) = dropWhile is_dig s @ rest"
    by (induction s) (simp_all add: 1)
qed

lemma scan_int_append: "num_end rest \<Longrightarrow> scan_int s = Some (r, t) \<Longrightarrow> scan_int (s @ rest) = Some (r, t @ rest)"
  by (cases s; cases "tl s") (auto simp: scan_int_def Let_def digits_append split: if_splits list.splits)

lemma scan_frac_append: "num_end rest \<Longrightarrow> scan_frac s = Some (r, t) \<Longrightarrow> scan_frac (s @ rest) = Some (r, t @ rest)"
  by (cases s; cases rest) (auto simp: scan_frac_def digits_append num_end_def split: if_splits)

lemma scan_exp_append: "num_end rest \<Longrightarrow> scan_exp s = Some (r, t) \<Longrightarrow> scan_exp (s @ rest) = Some (r, t @ rest)"
  by (cases s; cases "tl s"; cases rest)
    (auto simp: scan_exp_def Let_def digits_append num_end_def split: if_splits)

lemma scan_number_append:
  assumes "num_end rest" "valid_number s"
  shows "scan_number (s @ rest) = Some (s, rest)"
proof -
  obtain i s1 f s2 e where *: "scan_int s = Some (i, s1)" "scan_frac s1 = Some (f, s2)"
      "scan_exp s2 = Some (e, [])" "s = i @ f @ e"
    using assms(2) by (auto simp: valid_number_def scan_number_def split: option.splits)
  then show ?thesis
    unfolding scan_number_def scan_int_append [OF assms(1) *(1)] option.case prod.case
      scan_frac_append [OF assms(1) *(2)] scan_exp_append [OF assms(1) *(3)] append_Nil
    by simp
qed

lemma number_start:
  assumes "valid_number s"
  obtains c t where "s = c # t" "\<not> json_space c" "punct c = None" "c \<noteq> quote"
    "c \<noteq> CHR ''n''" "c \<noteq> CHR ''t''" "c \<noteq> CHR ''f''"
proof (cases s)
  case (Cons c t)
  have "c = CHR ''-'' \<or> is_dig c"
    using assms Cons by (auto simp: valid_number_def scan_number_def scan_int_def is_dig_def split: option.splits if_splits)
  then have b: "byte c = 45 \<or> 48 \<le> byte c \<and> byte c \<le> 57" by (auto simp: is_dig_def)
  have ne: "c \<noteq> d" if "byte d \<noteq> 45" "byte d < 48 \<or> 57 < byte d" for d using b that by auto
  show ?thesis
    using Cons b by (intro that [of c t]) (auto simp: json_space_def punct_def quote_def ne)
qed (use assms in \<open>simp add: valid_number_def scan_number_def scan_int_def\<close>)

lemma next_token_number:
  "valid_number s \<Longrightarrow> num_end rest \<Longrightarrow> next_token (s @ rest) = Some (TScalar (JNum s), rest)"
  using scan_number_append [of rest s]
  by (auto elim!: number_start simp: next_token_def token_at_def)

lemma next_token_string: "valid_raw s \<Longrightarrow> next_token (quoted s @ rest) = Some (TStr s, rest)"
  using scan_string_split [of "s @ [quote]" s "[]" rest]
  by (simp add: next_token_def token_at_def quoted_def valid_raw_def json_space_def punct_def quote_def)

lemma next_token_simps [simp]:
  "next_token (CHR ''['' # s) = Some (TLBrack, s)" "next_token (CHR '']'' # s) = Some (TRBrack, s)"
  "next_token (CHR ''{'' # s) = Some (TLBrace, s)" "next_token (CHR ''}'' # s) = Some (TRBrace, s)"
  "next_token (CHR '':'' # s) = Some (TColon, s)" "next_token (CHR '','' # s) = Some (TComma, s)"
  "next_token (''null'' @ s) = Some (TScalar JNull, s)" "next_token (''true'' @ s) = Some (TScalar (JBool True), s)"
  "next_token (''false'' @ s) = Some (TScalar (JBool False), s)"
  by (simp_all add: next_token_def token_at_def json_space_def punct_def keyword_def HasPrefix_def quote_def)

section \<open>The round trip\<close>

text \<open>What the machine does with a value it has just completed, and where a value may stand.\<close>

definition resume :: "verdict \<Rightarrow> string \<Rightarrow> (json \<times> string) option" where
  "resume v rest = (case v of Fail \<Rightarrow> None | Done j \<Rightarrow> Some (j, rest) | More st x \<Rightarrow> run st x rest)"

definition value_here :: "expect \<Rightarrow> bool" where
  "value_here x \<longleftrightarrow> x = XValue \<or> x = XValueOrEnd"

lemma value_here_simps [simp]: "value_here XValue" "value_here XValueOrEnd"
  by (simp_all add: value_here_def)

lemma run_token: "next_token s = Some (t, s') \<Longrightarrow> run st x s = resume (machine_step st x t) s'"
  by (subst run.simps) (simp add: resume_def split: verdict.split)

lemma resume_More [simp]: "resume (More st x) s = run st x s"
  by (simp add: resume_def)

lemma machine_value: "value_here x \<Longrightarrow> t \<noteq> TRBrack \<Longrightarrow> machine_step st x t = value_step st t"
  by (auto simp: value_here_def split: list.split frame.split token.split)

lemma run_value: "next_token s = Some (t, s') \<Longrightarrow> value_here x \<Longrightarrow> t \<noteq> TRBrack \<Longrightarrow>
    run st x s = resume (value_step st t) s'"
  by (simp add: run_token machine_value)

text \<open>Elements, given that each of them round-trips.\<close>

definition reads_back :: "nat \<Rightarrow> json \<Rightarrow> bool" where
  "reads_back n j \<longleftrightarrow> (\<forall>st x rest. length st + n \<le> maxNestingDepth \<longrightarrow> value_here x \<longrightarrow> num_end rest \<longrightarrow>
     run st x (json_text j @ rest) = resume (complete st j) rest)"

lemma reads_backD:
  "reads_back n j \<Longrightarrow> length st + n \<le> maxNestingDepth \<Longrightarrow> value_here x \<Longrightarrow> num_end rest \<Longrightarrow>
    run st x (json_text j @ rest) = resume (complete st j) rest"
  by (simp add: reads_back_def)

lemma run_elements:
  assumes "\<And>j. j \<in> set js \<Longrightarrow> reads_back n j" "Suc (length st) + n \<le> maxNestingDepth" "value_here x" "js \<noteq> []"
  shows "run (FArr acc # st) x (commas (map json_text js) @ CHR '']'' # rest) =
    resume (complete st (JArr (rev acc @ js))) rest"
  using assms
proof (induction js arbitrary: acc x)
  case (Cons j js)
  have j: "run (FArr acc # st) x (json_text j @ s) = run (FArr (j # acc) # st) XAfter s" if "num_end s" for s
    using reads_backD [OF Cons.prems(1), of j "FArr acc # st" x s] Cons.prems that by simp
  show ?case
  proof (cases js)
    case Nil
    then show ?thesis using j [of "CHR '']'' # rest"] by (simp add: run_token [of "CHR '']'' # rest"])
  next
    case (Cons k ks)
    have "run (FArr acc # st) x (commas (map json_text (j # js)) @ CHR '']'' # rest) =
        run (FArr (j # acc) # st) XValue (commas (map json_text js) @ CHR '']'' # rest)"
      using Cons j [of "CHR '','' # commas (map json_text js) @ CHR '']'' # rest"]
      by (simp add: run_token [of "CHR '','' # _"])
    also have "\<dots> = resume (complete st (JArr (rev (j # acc) @ js))) rest"
      using Cons.IH [of XValue "j # acc"] Cons.prems Cons by simp
    finally show ?thesis by simp
  qed
qed simp

text \<open>Members: the key's string, a colon, the value.\<close>

abbreviation member :: "string \<times> json \<Rightarrow> string" where
  "member m \<equiv> quoted (fst m) @ CHR '':'' # json_text (snd m)"

lemma run_member:
  assumes "valid_raw (fst m)" "reads_back n (snd m)" "Suc (length st) + n \<le> maxNestingDepth"
    "x = XKey \<or> x = XKeyOrEnd" "num_end rest"
  shows "run (FObj acc k # st) x (member m @ rest) = run (FObj (m # acc) (fst m) # st) XAfter rest"
proof -
  have "run (FObj acc k # st) x (member m @ rest) = run (FObj acc (fst m) # st) XColon (CHR '':'' # json_text (snd m) @ rest)"
    using assms(1,4) next_token_string [of "fst m" "CHR '':'' # json_text (snd m) @ rest"]
    by (auto simp: run_token)
  also have "\<dots> = run (FObj acc (fst m) # st) XValue (json_text (snd m) @ rest)"
    by (simp add: run_token [of "CHR '':'' # _"])
  also have "\<dots> = run (FObj (m # acc) (fst m) # st) XAfter rest"
    using reads_backD [OF assms(2), of "FObj acc (fst m) # st" XValue rest] assms(3,5) by simp
  finally show ?thesis .
qed

lemma run_members:
  assumes "\<And>m. m \<in> set ms \<Longrightarrow> valid_raw (fst m) \<and> reads_back n (snd m)"
    "Suc (length st) + n \<le> maxNestingDepth" "x = XKey \<or> x = XKeyOrEnd" "ms \<noteq> []"
  shows "run (FObj acc k # st) x (commas (map member ms) @ CHR ''}'' # rest) =
    resume (complete st (JObj (rev acc @ ms))) rest"
  using assms
proof (induction ms arbitrary: acc k x)
  case (Cons m ms)
  have m: "run (FObj acc k # st) x (member m @ s) = run (FObj (m # acc) (fst m) # st) XAfter s" if "num_end s" for s
    using Cons.prems that by (intro run_member) simp_all
  show ?case
  proof (cases ms)
    case Nil
    then show ?thesis using m [of "CHR ''}'' # rest"] by (simp add: run_token [of "CHR ''}'' # rest"])
  next
    case (Cons p ps)
    have "run (FObj acc k # st) x (commas (map member (m # ms)) @ CHR ''}'' # rest) =
        run (FObj (m # acc) (fst m) # st) XKey (commas (map member ms) @ CHR ''}'' # rest)"
      using Cons m [of "CHR '','' # commas (map member ms) @ CHR ''}'' # rest"]
      by (simp add: run_token [of "CHR '','' # _"])
    also have "\<dots> = resume (complete st (JObj (rev (m # acc) @ ms))) rest"
      using Cons.IH [of XKey "m # acc" "fst m"] Cons.prems Cons by simp
    finally show ?thesis by simp
  qed
qed simp

lemma reads_back_json_text: "wf_json j \<Longrightarrow> reads_back (depth j) j"
proof (induction j rule: json_text.induct)
  case (5 js)
  have deep: "reads_back (Max (insert 0 (depth ` set js))) j" if "j \<in> set js" for j
    using 5 that depth_member(1) [OF that] by (fastforce simp: reads_back_def)
  show ?case
    unfolding reads_back_def
  proof (intro allI impI)
    fix st :: "frame list" and x rest
    assume st: "length st + depth (JArr js) \<le> maxNestingDepth" and x: "value_here x"
    let ?r = "commas (map json_text js) @ CHR '']'' # rest"
    have "run st x (json_text (JArr js) @ rest) = run (FArr [] # st) XValueOrEnd ?r"
      using st x by (simp add: run_value [of "CHR ''['' # _"] open_frame_def)
    also have "\<dots> = resume (complete st (JArr js)) rest"
    proof (cases "js = []")
      case False
      then show ?thesis using run_elements [OF deep, of js st XValueOrEnd "[]" rest] st by simp
    qed (simp add: run_token [of "CHR '']'' # rest"])
    finally show "run st x (json_text (JArr js) @ rest) = resume (complete st (JArr js)) rest" .
  qed
next
  case (6 ms)
  have deep: "valid_raw (fst m) \<and> reads_back (Max (insert 0 ((\<lambda>m. depth (snd m)) ` set ms))) (snd m)" if "m \<in> set ms" for m
    using 6 that depth_member(2) [OF that] by (fastforce simp: reads_back_def)
  show ?case
    unfolding reads_back_def
  proof (intro allI impI)
    fix st :: "frame list" and x rest
    assume st: "length st + depth (JObj ms) \<le> maxNestingDepth" and x: "value_here x"
    let ?r = "commas (map member ms) @ CHR ''}'' # rest"
    have "run st x (json_text (JObj ms) @ rest) = run (FObj [] [] # st) XKeyOrEnd ?r"
      using st x by (simp add: run_value [of "CHR ''{'' # _"] open_frame_def)
    also have "\<dots> = resume (complete st (JObj ms)) rest"
    proof (cases "ms = []")
      case False
      then show ?thesis using run_members [OF deep, of ms st XKeyOrEnd "[]" "[]" rest] st by simp
    qed (simp add: run_token [of "CHR ''}'' # rest"])
    finally show "run st x (json_text (JObj ms) @ rest) = resume (complete st (JObj ms)) rest" .
  qed
qed (auto simp: reads_back_def run_value next_token_number next_token_string run_value [OF next_token_simps(7)]
  run_value [OF next_token_simps(8)] run_value [OF next_token_simps(9)] simp del: append_Cons)

lemma run_json_text:
  "wf_json j \<Longrightarrow> depth j \<le> maxNestingDepth \<Longrightarrow> num_end rest \<Longrightarrow> run [] XValue (json_text j @ rest) = Some (j, rest)"
  using reads_back_json_text [of j] by (simp add: reads_back_def resume_def)

lemma parse_json_text: "wf_json j \<Longrightarrow> depth j \<le> maxNestingDepth \<Longrightarrow> parse (json_text j) = Some j"
  using run_json_text [of j "[]"] by (simp add: parse_def)

section \<open>Plain strings\<close>

text \<open>A string of printable ASCII without quotes and backslashes stands for itself.\<close>

definition plain :: "char \<Rightarrow> bool" where
  "plain c \<longleftrightarrow> 32 \<le> byte c \<and> byte c < 128 \<and> c \<noteq> quote \<and> c \<noteq> backslash"

lemma scan_string_plain: "list_all plain s \<Longrightarrow> scan_string (s @ quote # t) = Some (s, t)"
proof (induction s)
  case (Cons c s)
  then have "unit_len (c # s @ quote # t) = 1" "c \<noteq> quote" by (simp_all add: plain_def unit_len.simps)
  then show ?case using Cons scan_string_unit [of "c # s @ quote # t"] by simp
qed simp

lemma valid_raw_plain: "list_all plain s \<Longrightarrow> valid_raw s"
  by (simp add: valid_raw_def scan_string_plain)

lemma unquote_plain [simp]: "list_all plain s \<Longrightarrow> unquote s = s"
  by (induction s) (simp_all add: unquote.simps plain_def lead_def)

section \<open>Nesting of parsed values\<close>

text \<open>With \<open>l\<close> frames below it, a frame's finished parts leave room for the frame itself.\<close>

fun frames_fit :: "frame list \<Rightarrow> bool" where
  "frames_fit [] = True"
| "frames_fit (FArr js # st) = ((\<forall>j \<in> set js. depth j + Suc (length st) \<le> maxNestingDepth) \<and>
     Suc (length st) \<le> maxNestingDepth \<and> frames_fit st)"
| "frames_fit (FObj ms k # st) = ((\<forall>m \<in> set ms. depth (snd m) + Suc (length st) \<le> maxNestingDepth) \<and>
     Suc (length st) \<le> maxNestingDepth \<and> frames_fit st)"

definition verdict_fits :: "verdict \<Rightarrow> bool" where
  "verdict_fits v = (case v of Fail \<Rightarrow> True | Done j \<Rightarrow> depth j \<le> maxNestingDepth | More st x \<Rightarrow> frames_fit st)"

lemma verdict_fits_simps [simp]: "verdict_fits Fail" "verdict_fits (More st x) = frames_fit st"
  "verdict_fits (Done j) = (depth j \<le> maxNestingDepth)"
  by (simp_all add: verdict_fits_def)

lemma complete_fits: "frames_fit st \<Longrightarrow> depth j + length st \<le> maxNestingDepth \<Longrightarrow> verdict_fits (complete st j)"
  by (cases "(st, j)" rule: complete.cases) auto

lemma closed_fits:
  "frames_fit (FArr js # st) \<Longrightarrow> depth (JArr (rev js)) + length st \<le> maxNestingDepth"
  "frames_fit (FObj ms k # st) \<Longrightarrow> depth (JObj (rev ms)) + length st \<le> maxNestingDepth"
proof -
  have m: "Suc (Max (insert 0 A)) + l \<le> n" if "finite A" "\<forall>a \<in> A. a + Suc l \<le> n" "Suc l \<le> n" for A l n
    using that Max_in [of "insert 0 A"] by fastforce
  show "frames_fit (FArr js # st) \<Longrightarrow> depth (JArr (rev js)) + length st \<le> maxNestingDepth"
    using m [of "depth ` set js" "length st" maxNestingDepth] by simp
  show "frames_fit (FObj ms k # st) \<Longrightarrow> depth (JObj (rev ms)) + length st \<le> maxNestingDepth"
    using m [of "(\<lambda>m. depth (snd m)) ` set ms" "length st" maxNestingDepth] by simp
qed

lemma value_step_fits:
  assumes "frames_fit st" "\<And>j. t = TScalar j \<Longrightarrow> depth j = 0"
  shows "verdict_fits (value_step st t)"
proof -
  have "length st \<le> maxNestingDepth" using assms(1) by (cases st rule: frames_fit.cases) auto
  then show ?thesis
    using assms by (cases "(st, t)" rule: value_step.cases) (auto intro!: complete_fits simp: open_frame_def)
qed

lemma frame_fits_below: "frames_fit (f # st) \<Longrightarrow> frames_fit st"
  by (cases f) auto

lemma frames_fit_key: "frames_fit (FObj ms k # st) \<Longrightarrow> frames_fit (FObj ms k' # st)"
  by simp

lemma close_fits:
  "frames_fit (FArr js # st) \<Longrightarrow> verdict_fits (complete st (JArr (rev js)))"
  "frames_fit (FObj ms k # st) \<Longrightarrow> verdict_fits (complete st (JObj (rev ms)))"
  by (blast intro: complete_fits closed_fits dest: frame_fits_below)+

lemma machine_step_fits:
  assumes "frames_fit st" "\<And>j. t = TScalar j \<Longrightarrow> depth j = 0"
  shows "verdict_fits (machine_step st x t)"
  using assms(1) value_step_fits [OF assms]
  by (cases x) (auto intro: close_fits frames_fit_key simp del: value_step.simps frames_fit.simps depth.simps
    split: list.split frame.split token.split)

lemma token_scalar: "next_token s = Some (TScalar j, t) \<Longrightarrow> depth j = 0"
  by (auto simp: next_token_def token_at_def keyword_def punct_def split: list.splits option.splits if_splits)

lemma run_fits: "run st x s = Some (j, rest) \<Longrightarrow> frames_fit st \<Longrightarrow> depth j \<le> maxNestingDepth"
proof (induction st x s rule: run.induct)
  case (1 st x s)
  then obtain t s' where t: "next_token s = Some (t, s')" by (subst (asm) run.simps) (auto split: option.splits)
  have "verdict_fits (machine_step st x t)" using machine_step_fits [of st t x] "1.prems"(2) token_scalar t by blast
  then show ?case
    using 1 t by (auto simp: run.simps [of st x s] split: verdict.splits)
qed

lemma parse_depth: "parse s = Some j \<Longrightarrow> depth j \<le> maxNestingDepth"
  using run_fits [of "[]" XValue s j] by (auto simp: parse_def split: option.splits if_splits)

end
