(* ===== verification/Json_Any.thy ===== *)
theory Json_Any
  imports Json_Print "HOL-Library.List_Lexorder" "HOL-Library.Char_ord"
begin

text \<open>
  Go's \<open>any\<close>: what \<open>encoding/json\<close> decodes a value to when the destination does not say more, and what
  \<open>Marshal\<close> writes for it. Numbers become \<open>float64\<close> and are written with the fewest decimal digits that
  read back; strings are written with the HTML-safe escapes; the keys of a map are written in order. The
  file ends with the round trip \<open>decode_Marshal\<close>: what \<open>Marshal\<close> writes decodes to the same value.
\<close>

datatype gval = VNil | VBool bool | VNum f64 | VStr string
  | VArr "gval list" | VObj "(string \<times> gval) list"

section \<open>Decoding\<close>

definition set_all :: "(string \<times> 'a) list \<Rightarrow> (string \<times> 'a) list" where
  "set_all ps = foldl (\<lambda>m p. AList.update (fst p) (snd p) m) [] ps"

fun any_of :: "json \<Rightarrow> gval option" where
  "any_of JNull = Some VNil"
| "any_of (JBool b) = Some (VBool b)"
| "any_of (JNum s) = map_option VNum (ParseFloat s)"
| "any_of (JStr s) = Some (VStr (unquote s))"
| "any_of (JArr js) = map_option VArr (those (map any_of js))"
| "any_of (JObj ms) = map_option (\<lambda>ps. VObj (set_all ps))
     (those (map (\<lambda>m. map_option (Pair (unquote (fst m))) (any_of (snd m))) ms))"

text \<open>\<open>json.Unmarshal\<close> into a \<open>map[string]any\<close>; null leaves the map nil, that is empty.\<close>

definition Unmarshal_object :: "string \<Rightarrow> (string \<times> gval) list option" where
  "Unmarshal_object s = (case parse s of
     Some JNull \<Rightarrow> Some [] | Some (JObj ms) \<Rightarrow> (case any_of (JObj ms) of Some (VObj m) \<Rightarrow> Some m | _ \<Rightarrow> None)
   | _ \<Rightarrow> None)"

section \<open>Strings\<close>

definition hex_lower :: "nat \<Rightarrow> char" where
  "hex_lower n = (if n < 10 then chr (48 + n) else chr (87 + n))"

definition u_escape :: "nat \<Rightarrow> string" where
  "u_escape n = [backslash, CHR ''u'', hex_lower (n div 4096), hex_lower (n div 256 mod 16),
     hex_lower (n div 16 mod 16), hex_lower (n mod 16)]"

text \<open>An ASCII character: the two-character escapes, then \<open>\u00xx\<close> for the other control characters and for
  what HTML gives a meaning to.\<close>

definition escape_ascii :: "char \<Rightarrow> string" where
  "escape_ascii c =
     (if c = quote \<or> c = backslash then [backslash, c]
      else if byte c = 8 then [backslash, CHR ''b''] else if byte c = 12 then [backslash, CHR ''f'']
      else if byte c = 10 then [backslash, CHR ''n''] else if byte c = 13 then [backslash, CHR ''r'']
      else if byte c = 9 then [backslash, CHR ''t'']
      else if byte c < 32 \<or> c = CHR ''<'' \<or> c = CHR ''>'' \<or> c = CHR ''&'' then u_escape (byte c)
      else [c])"

definition line_separators :: "string list" where
  "line_separators = [[chr 0xE2, chr 0x80, chr 0xA8], [chr 0xE2, chr 0x80, chr 0xA9]]"

function escape :: "string \<Rightarrow> string" where
  "escape [] = []"
| "escape (c # cs) =
     (if byte c < 0x80 then escape_ascii c @ escape cs
      else let n = rune_len (c # cs) in
        if n = 0 then u_escape 0xFFFD @ escape cs
        else if take n (c # cs) = [chr 0xE2, chr 0x80, chr 0xA8] then u_escape 0x2028 @ escape (drop (n - 1) cs)
        else if take n (c # cs) = [chr 0xE2, chr 0x80, chr 0xA9] then u_escape 0x2029 @ escape (drop (n - 1) cs)
        else take n (c # cs) @ escape (drop (n - 1) cs))"
  by pat_completeness auto

termination
  by (relation "measure length") (auto simp: less_Suc_eq_le simp del: rune_len.simps)

declare escape.simps(2) [simp del]

section \<open>Numbers\<close>

text \<open>The decimal exponent of a positive rational: \<open>10 powi (ilog10 x - 1) \<le> x < 10 powi (ilog10 x)\<close>.\<close>

definition ilog10 :: "rat \<Rightarrow> int" where
  "ilog10 x = (if 1 \<le> x then int (length (dec (nat \<lfloor>x\<rfloor>)))
     else 1 - int (length (dec (nat (\<lceil>1 / x\<rceil> - 1)))))"

text \<open>A positive float64 as \<open>D * 10 powi p\<close> with \<open>n\<close> digits: the decimals of \<open>n\<close> digits around it that
  read back to it, the nearer one first.\<close>

definition digits_try :: "rat \<Rightarrow> nat \<Rightarrow> (nat \<times> int) option" where
  "digits_try x n = (let p = ilog10 x - int n; y = x / 10 powi p; lo = nat \<lfloor>y\<rfloor>;
       up = (of_nat lo + 1 / 2 < y \<or> of_nat lo + 1 / 2 = y \<and> odd lo);
       candidates = (if up then [lo + 1, lo] else [lo, lo + 1])
     in map_option (\<lambda>D. (D, p)) (find (\<lambda>D. round64 (of_nat D * 10 powi p) = Fin x) candidates))"

fun strip_zeros :: "nat \<Rightarrow> int \<Rightarrow> nat \<times> int" where
  "strip_zeros D p = (if D \<noteq> 0 \<and> D mod 10 = 0 then strip_zeros (D div 10) (p + 1) else (D, p))"

declare strip_zeros.simps [simp del]

text \<open>The fewest digits that do. Seventeen always suffice; the exact expansion after them makes the
  function total without a proof of that.\<close>

definition exact_digits :: "rat \<Rightarrow> nat \<times> int" where
  "exact_digits x = (let q = qexp x; k = nat \<lfloor>x / 2 powi q\<rfloor> in
     if 0 \<le> q then (k * 2 ^ nat q, 0) else (k * 5 ^ nat (- q), q))"

fun first_some :: "('a \<Rightarrow> 'b option) \<Rightarrow> 'a list \<Rightarrow> 'b option" where
  "first_some f [] = None"
| "first_some f (x # xs) = (case f x of Some y \<Rightarrow> Some y | None \<Rightarrow> first_some f xs)"

definition shortest :: "rat \<Rightarrow> nat \<times> int" where
  "shortest x = (case first_some (digits_try x) [1..<18] of Some (D, p) \<Rightarrow> strip_zeros D p
     | None \<Rightarrow> exact_digits x)"

text \<open>\<open>strconv.AppendFloat\<close> in the formats \<open>f\<close> and \<open>e\<close> with the shortest digits, as \<open>floatEncoder\<close>
  chooses between them.\<close>

definition fixed_form :: "string \<Rightarrow> int \<Rightarrow> string" where
  "fixed_form ds p =
     (if 0 \<le> p then ds @ replicate (nat p) CHR ''0''
      else let k = length ds - nat (- p) in
        if nat (- p) < length ds then take k ds @ CHR ''.'' # drop k ds
        else ''0.'' @ replicate (nat (- p) - length ds) CHR ''0'' @ ds)"

definition exp_form :: "string \<Rightarrow> int \<Rightarrow> string" where
  "exp_form ds p = (let e = p + int (length ds) - 1 in
     take 1 ds @ (if length ds = 1 then [] else CHR ''.'' # drop 1 ds) @
     CHR ''e'' # (if e < 0 then CHR ''-'' else CHR ''+'') # dec (nat \<bar>e\<bar>))"

definition format_pos :: "rat \<Rightarrow> string" where
  "format_pos x = (case shortest x of (D, p) \<Rightarrow>
     if x < 1 / 10 ^ 6 \<or> 10 ^ 21 \<le> x then exp_form (dec D) p else fixed_form (dec D) p)"

definition format_float :: "rat \<Rightarrow> string" where
  "format_float x = (if x = 0 then ''0'' else if x < 0 then CHR ''-'' # format_pos (- x) else format_pos x)"

section \<open>Marshal\<close>

fun json_of :: "gval \<Rightarrow> json" where
  "json_of VNil = JNull"
| "json_of (VBool b) = JBool b"
| "json_of (VNum x) = (case x of Fin r \<Rightarrow> JNum (format_float r) | _ \<Rightarrow> JNull)"
| "json_of (VStr s) = JStr (escape s)"
| "json_of (VArr vs) = JArr (map json_of vs)"
| "json_of (VObj m) = JObj (map (\<lambda>p. (escape (fst p), json_of (snd p))) (sort_key fst m))"

definition Marshal :: "gval \<Rightarrow> string" where
  "Marshal v = json_text (json_of v)"

section \<open>The round trip of strings\<close>

function valid_utf8 :: "string \<Rightarrow> bool" where
  "valid_utf8 s = (if s = [] then True else if rune_len s = 0 then False else valid_utf8 (drop (rune_len s) s))"
  by pat_completeness auto

termination
  by (relation "measure length") (auto intro!: diff_less)

declare valid_utf8.simps [simp del]

lemma valid_utf8_Nil [simp]: "valid_utf8 []"
  by (subst valid_utf8.simps) simp

lemma rune_len_le: "rune_len s \<le> length s"
proof (cases s)
  case (Cons c cs)
  then show ?thesis unfolding Cons rune_len.simps list.size by auto
qed simp

lemma rune_len_take: "0 < rune_len s \<Longrightarrow> rune_len (take (rune_len s) s @ t) = rune_len s"
proof (cases s)
  case (Cons c cs)
  assume "0 < rune_len s"
  with Cons have *: "lead c \<le> Suc (length cs)" "2 \<le> lead c \<longrightarrow> second_ok c (hd cs)"
      "list_all cont_byte (take (lead c - 1) cs)" "0 < lead c" "rune_len s = lead c"
    by (simp_all split: if_splits)
  obtain n where n: "lead c = Suc n" using *(4) gr0_conv_Suc by blast
  have "n = 0 \<or> hd (take n cs @ t) = hd cs" using *(1) n by (cases cs; cases n) simp_all
  with * n Cons show ?thesis by (auto simp: min_def)
qed simp

lemma valid_utf8_rune:
  assumes "0 < rune_len a" "rune_len a = length a"
  shows "valid_utf8 (a @ b) = valid_utf8 b"
  using assms rune_len_take [of a b] by (subst valid_utf8.simps) auto

lemma valid_utf8_append: "valid_utf8 a \<Longrightarrow> valid_utf8 b \<Longrightarrow> valid_utf8 (a @ b)"
proof (induction a rule: valid_utf8.induct)
  case (1 a)
  show ?case
  proof (cases "a = []")
    case False
    then have n: "0 < rune_len a" "valid_utf8 (drop (rune_len a) a)"
      using "1.prems" by (simp_all add: valid_utf8.simps [of a] split: if_splits)
    let ?h = "take (rune_len a) a"
    have h: "rune_len ?h = rune_len a" "length ?h = rune_len a"
      using rune_len_take [of a "[]"] n rune_len_le [of a] by simp_all
    have "valid_utf8 (?h @ drop (rune_len a) a @ b) = valid_utf8 (drop (rune_len a) a @ b)"
      using h n by (intro valid_utf8_rune) simp_all
    moreover have "valid_utf8 (drop (rune_len a) a @ b)" using "1.IH" n "1.prems" False by simp
    moreover have "a @ b = ?h @ drop (rune_len a) a @ b" by (metis append_assoc append_take_drop_id)
    ultimately show ?thesis by metis
  qed (use "1.prems" in simp)
qed

lemma byte_chr [simp]: "byte (chr n) = n mod 256"
  by simp

lemma base64_digits:
  fixes r :: nat
  obtains x y z where "r = (x * 64 + y) * 64 + z" "y < 64" "z < 64"
    "r div 4096 = x" "r div 64 = x * 64 + y" "r div 64 mod 64 = y" "r mod 64 = z"
proof -
  have "r = (r div 64 div 64 * 64 + r div 64 mod 64) * 64 + r mod 64" by simp
  moreover have "r div 4096 = r div 64 div 64" by (simp add: div_mult2_eq [symmetric])
  moreover have "r div 64 = r div 64 div 64 * 64 + r div 64 mod 64" by simp
  ultimately show ?thesis using that [of "r div 64 div 64" "r div 64 mod 64" "r mod 64"] by simp
qed

lemma EncodeRune_rune:
  assumes "r < 0x110000" "\<not> is_surrogate r"
  shows "0 < rune_len (EncodeRune r) \<and> rune_len (EncodeRune r) = length (EncodeRune r)"
proof -
  consider "r < 0x80" | "0x80 \<le> r" "r < 0x800" | "0x800 \<le> r" "r < 0x10000" | "0x10000 \<le> r" by linarith
  then show ?thesis
  proof cases
    case 1
    then show ?thesis by (simp add: EncodeRune_def lead_def)
  next
    case 2
    obtain x z where r: "r = x * 64 + z" "z < 64" "r div 64 = x" "r mod 64 = z"
      using that [of "r div 64" "r mod 64"] by simp
    then have "2 \<le> x" "x < 32" using 2 by linarith+
    with r 2 show ?thesis by (simp add: EncodeRune_def lead_def second_ok_def cont_byte_def)
  next
    case 3
    obtain x y z where r: "r = (x * 64 + y) * 64 + z" "y < 64" "z < 64"
        "r div 4096 = x" "r div 64 mod 64 = y" "r mod 64 = z"
      by (rule base64_digits)
    have x: "x < 16" "x = 0 \<longrightarrow> 32 \<le> y" using r(1-3) 3 by auto
    have y: "x = 13 \<longrightarrow> y \<le> 31" using r(1-3) assms(2) by (auto simp: is_surrogate_def)
    have "EncodeRune r = [chr (0xE0 + x), chr (0x80 + y), chr (0x80 + z)]" using 3 r(4-6) by (simp add: EncodeRune_def)
    with x y r(2,3) show ?thesis by (simp add: lead_def second_ok_def cont_byte_def)
  next
    case 4
    obtain v z where r: "r = v * 64 + z" "z < 64" "r div 64 = v" "r mod 64 = z"
      using that [of "r div 64" "r mod 64"] by simp
    obtain w x y where v: "v = (w * 64 + x) * 64 + y" "x < 64" "y < 64"
        "v div 4096 = w" "v div 64 mod 64 = x" "v mod 64 = y"
      by (rule base64_digits)
    have d: "r div 262144 = v div 4096" "r div 4096 = v div 64"
      by (simp_all add: div_mult2_eq [symmetric] flip: r(3))
    have w: "w < 5" "w = 0 \<longrightarrow> 16 \<le> x" "w = 4 \<longrightarrow> x \<le> 15" using r(1,2) v(1-3) 4 assms(1) by auto
    have "EncodeRune r = [chr (0xF0 + w), chr (0x80 + x), chr (0x80 + y), chr (0x80 + z)]"
      using 4 r(3,4) v(4-6) d by (simp add: EncodeRune_def)
    with w v(2,3) r(2) show ?thesis by (simp add: lead_def second_ok_def cont_byte_def)
  qed
qed

lemma valid_utf8_EncodeRune: "r < 0x110000 \<Longrightarrow> \<not> is_surrogate r \<Longrightarrow> valid_utf8 (EncodeRune r)"
  using valid_utf8_rune [of "EncodeRune r" "[]"] EncodeRune_rune [of r] by (metis append_Nil2 valid_utf8_Nil)

lemma valid_utf8_ascii: "byte c < 0x80 \<Longrightarrow> valid_utf8 (c # s) = valid_utf8 s"
  using valid_utf8_rune [of "[c]" s] by (simp add: lead_def)

lemma hex_val_16: "hex_val c = Some a \<Longrightarrow> a < 16"
  by (auto simp: hex_val_def Let_def split: if_splits)

lemma getu4_bound: "getu4 s = Some r \<Longrightarrow> r < 0x10000"
  by (fastforce simp: getu4_def dest: hex_val_16 split: list.splits if_splits option.splits)

lemma valid_utf8_unquote: "valid_utf8 (unquote s)"
proof (induction "length s" arbitrary: s rule: less_induct)
  case less
  have IH: "valid_utf8 (unquote (drop n t))" if "length t < length s" for n t
    using that by (intro less) simp
  have IH0: "valid_utf8 (unquote t)" if "length t < length s" for t using that by (rule less)
  have rep: "valid_utf8 replacement" by (simp add: replacement_def valid_utf8_EncodeRune is_surrogate_def)
  have pair: "p < 0x110000 \<and> \<not> is_surrogate p" if "surrogate_pair r r2 = Some p" for r r2 p
    using that by (auto simp: surrogate_pair_def is_surrogate_def split: if_splits)
  have "\<forall>d \<in> set ([backslash, quote] @ ''/bfnrt''). byte (unescape d) < 0x80" by code_simp
  then have une: "byte (unescape d) < 0x80" if "simple_escape d" for d
    using that unfolding simple_escape_def by blast
  show ?case
  proof (cases s)
    case s: (Cons c cs)
    show ?thesis
    proof (cases "c = backslash")
      case esc: True
      show ?thesis
      proof (cases "getu4 s")
        case None
        with s esc have "unquote s = (case cs of [] \<Rightarrow> []
            | d # ds \<Rightarrow> if simple_escape d then unescape d # unquote ds else unquote ds)"
          by (simp add: unquote.simps)
        then show ?thesis using s une IH0 by (auto simp: valid_utf8_ascii split: list.split)
      next
        case (Some r)
        then have "unquote s = (if is_surrogate r then
             (case getu4 (drop 5 cs) of None \<Rightarrow> replacement @ unquote (drop 5 cs)
              | Some r2 \<Rightarrow> (case surrogate_pair r r2 of None \<Rightarrow> replacement @ unquote (drop 5 cs)
                  | Some p \<Rightarrow> EncodeRune p @ unquote (drop 11 cs)))
           else EncodeRune r @ unquote (drop 5 cs))"
          using s esc by (simp add: unquote.simps split: option.split)
        moreover have "r < 0x110000" using getu4_bound [OF Some] by simp
        ultimately show ?thesis
          using s rep IH [of cs] pair [of r]
          by (auto intro!: valid_utf8_append valid_utf8_EncodeRune split: option.split)
      qed
    next
      case False
      then have u: "unquote s = (if rune_len s = 0 then replacement @ unquote cs
          else take (rune_len s) s @ unquote (drop (rune_len s - 1) cs))"
        unfolding s by (simp add: unquote.simps Let_def del: rune_len.simps)
      have "valid_utf8 (take (rune_len s) s)" if "0 < rune_len s"
        using that rune_len_take [of s "[]"] rune_len_le [of s] valid_utf8_rune [of "take (rune_len s) s" "[]"] by simp
      then show ?thesis
        using s rep IH [of cs] IH0 [of cs] unfolding u by (auto intro!: valid_utf8_append simp del: rune_len.simps take_Suc_Cons)
    qed
  qed simp
qed

text \<open>What \<open>unquote\<close> does with each piece \<open>escape\<close> writes, and that the scanner accepts it.\<close>

lemma hex_lower_val: "n < 16 \<Longrightarrow> hex_val (hex_lower n) = Some n"
  by (auto simp: hex_lower_def hex_val_def Let_def)

lemma getu4_u_escape: "r < 0x10000 \<Longrightarrow> getu4 (u_escape r @ t) = Some r"
proof -
  assume r: "r < 0x10000"
  have "r div 4096 < 16" using r by (simp add: less_mult_imp_div_less)
  moreover have "((r div 4096 * 16 + r div 256 mod 16) * 16 + r div 16 mod 16) * 16 + r mod 16 = r"
  proof -
    have "r div 4096 = r div 256 div 16" "r div 256 = r div 16 div 16" by (simp_all add: div_mult2_eq [symmetric])
    then show ?thesis by simp
  qed
  ultimately show ?thesis by (simp add: getu4_def u_escape_def hex_lower_val)
qed

lemma unquote_u_escape:
  assumes "r < 0x10000" "\<not> is_surrogate r"
  shows "unquote (u_escape r @ t) = EncodeRune r @ unquote t"
proof -
  obtain cs where cs: "u_escape r @ t = backslash # cs" "drop 5 cs = t" by (simp add: u_escape_def)
  then have "getu4 (backslash # cs) = Some r" using getu4_u_escape [OF assms(1), of t] by simp
  with cs assms show ?thesis by (simp add: unquote.simps)
qed

lemma unquote_simple: "simple_escape d \<Longrightarrow> unquote (backslash # d # t) = unescape d # unquote t"
proof -
  assume d: "simple_escape d"
  then have "d \<noteq> CHR ''u''" by (auto simp: simple_escape_def quote_def backslash_def)
  then have "getu4 (backslash # d # t) = None" by (simp add: getu4_def split: list.split)
  with d show ?thesis by (simp add: unquote.simps)
qed

lemma unquote_rune:
  assumes "0 < rune_len u" "rune_len u = length u" "hd u \<noteq> backslash"
  shows "unquote (u @ t) = u @ unquote t"
proof (cases u)
  case (Cons c cs)
  have "rune_len (u @ t) = length u" using assms rune_len_take [of u t] by simp
  with Cons assms show ?thesis by (simp add: unquote.simps Let_def del: rune_len.simps)
qed (use assms in simp)

definition is_unit :: "string \<Rightarrow> bool" where
  "is_unit u \<longleftrightarrow> u \<noteq> [] \<and> hd u \<noteq> quote \<and> (\<forall>x. unit_len (u @ x) = length u)"

definition raw_ok :: "string \<Rightarrow> bool" where
  "raw_ok s \<longleftrightarrow> (\<forall>t. scan_string (s @ quote # t) = Some (s, t))"

lemma raw_ok_Nil [simp]: "raw_ok []"
  by (simp add: raw_ok_def)

lemma raw_ok_unit: "is_unit u \<Longrightarrow> raw_ok s \<Longrightarrow> raw_ok (u @ s)"
  using scan_string_unit [of "u @ s @ quote # _"] by (auto simp: raw_ok_def is_unit_def)

lemma raw_ok_valid: "raw_ok s \<Longrightarrow> valid_raw s"
  by (simp add: raw_ok_def valid_raw_def)

lemma hex_lower_hex: "n < 16 \<Longrightarrow> is_hex (hex_lower n)"
  by (simp add: is_hex_def hex_lower_val)

lemma is_unit_u_escape: "r < 0x10000 \<Longrightarrow> is_unit (u_escape r)"
  by (simp add: is_unit_def u_escape_def unit_len.simps hex_lower_hex less_mult_imp_div_less simple_escape_def
    backslash_def quote_def)

lemma is_unit_simple: "simple_escape d \<Longrightarrow> is_unit [backslash, d]"
  by (simp add: is_unit_def unit_len.simps backslash_def quote_def)

lemma is_unit_char: "0x20 \<le> byte c \<Longrightarrow> c \<noteq> quote \<Longrightarrow> c \<noteq> backslash \<Longrightarrow> is_unit [c]"
  by (simp add: is_unit_def unit_len.simps)

lemma raw_ok_chars: "\<forall>c \<in> set u. 0x20 \<le> byte c \<and> c \<noteq> quote \<and> c \<noteq> backslash \<Longrightarrow> raw_ok s \<Longrightarrow> raw_ok (u @ s)"
proof (induction u)
  case (Cons c u)
  then show ?case using raw_ok_unit [OF is_unit_char, of c "u @ s"] by simp
qed simp

lemma byte_eq: "c = chr n \<longleftrightarrow> byte c = n mod 256"
  by (metis byte_chr char_of_eq_iff of_char_mod_256)

lemma escape_ascii_ok:
  assumes "byte c < 0x80"
  shows "unquote (escape_ascii c @ t) = c # unquote t \<and> is_unit (escape_ascii c)"
proof -
  have simple: "unquote ([backslash, d] @ t) = unescape d # unquote t \<and> is_unit [backslash, d]" if "simple_escape d" for d
    using that by (simp add: unquote_simple is_unit_simple)
  have un: "unquote (u_escape (byte c) @ t) = c # unquote t \<and> is_unit (u_escape (byte c))"
    using assms by (simp add: unquote_u_escape is_surrogate_def EncodeRune_def is_unit_u_escape)
  show ?thesis
  proof (cases "c = quote \<or> c = backslash")
    case True
    then have "simple_escape c" "unescape c = c" by (auto simp: simple_escape_def unescape_def quote_def backslash_def)
    with True simple [of c] show ?thesis by (simp add: escape_ascii_def)
  next
    case False
    show ?thesis
    proof (cases "byte c = 8 \<or> byte c = 12 \<or> byte c = 10 \<or> byte c = 13 \<or> byte c = 9")
      case True
      have "escape_ascii (chr 8) = [backslash, CHR ''b'']" "escape_ascii (chr 12) = [backslash, CHR ''f'']"
        "escape_ascii (chr 10) = [backslash, CHR ''n'']" "escape_ascii (chr 13) = [backslash, CHR ''r'']"
        "escape_ascii (chr 9) = [backslash, CHR ''t'']"
        "unescape (CHR ''b'') = chr 8" "unescape (CHR ''f'') = chr 12" "unescape (CHR ''n'') = chr 10"
        "unescape (CHR ''r'') = chr 13" "unescape (CHR ''t'') = chr 9"
        "simple_escape (CHR ''b'')" "simple_escape (CHR ''f'')" "simple_escape (CHR ''n'')"
        "simple_escape (CHR ''r'')" "simple_escape (CHR ''t'')"
        by code_simp+
      note known = this
      from True have "c = chr 8 \<or> c = chr 12 \<or> c = chr 10 \<or> c = chr 13 \<or> c = chr 9" by (simp add: byte_eq)
      then show ?thesis
        using known simple [of "CHR ''b''"] simple [of "CHR ''f''"] simple [of "CHR ''n''"]
          simple [of "CHR ''r''"] simple [of "CHR ''t''"] by (elim disjE) (simp_all only:)
    next
      case nesc: False
      show ?thesis
      proof (cases "byte c < 32 \<or> c = CHR ''<'' \<or> c = CHR ''>'' \<or> c = CHR ''&''")
        case True
        with False nesc have "escape_ascii c = u_escape (byte c)" by (simp add: escape_ascii_def)
        with un show ?thesis by simp
      next
        case plain: False
        with False nesc have "escape_ascii c = [c]" "32 \<le> byte c" by (auto simp: escape_ascii_def not_less)
        moreover have "unquote ([c] @ t) = [c] @ unquote t"
          using False assms by (intro unquote_rune) (simp_all add: lead_def)
        ultimately show ?thesis using False by (simp add: is_unit_char)
      qed
    qed
  qed
qed

lemma rune_bytes: "0x80 \<le> byte c \<Longrightarrow> b \<in> set (take (rune_len (c # cs)) (c # cs)) \<Longrightarrow> 0x80 \<le> byte b"
proof -
  assume c: "0x80 \<le> byte c" and b: "b \<in> set (take (rune_len (c # cs)) (c # cs))"
  then have n: "0 < rune_len (c # cs)" by (cases "rune_len (c # cs) = 0") (simp_all del: rune_len.simps)
  then have *: "rune_len (c # cs) = lead c" "list_all cont_byte (take (lead c - 1) cs)"
    by (simp_all split: if_splits)
  then have "b = c \<or> b \<in> set (take (lead c - 1) cs)" using b n by (cases "lead c") auto
  with c * show ?thesis by (auto simp: list_all_iff cont_byte_def)
qed

definition rune_text :: "string \<Rightarrow> string" where
  "rune_text u = (if u = [chr 0xE2, chr 0x80, chr 0xA8] then u_escape 0x2028
     else if u = [chr 0xE2, chr 0x80, chr 0xA9] then u_escape 0x2029 else u)"

lemma rune_text_ok:
  assumes u: "0 < rune_len u" "rune_len u = length u" and b: "\<And>b. b \<in> set u \<Longrightarrow> 0x80 \<le> byte b"
  shows "escape (u @ t) = rune_text u @ escape t" "unquote (rune_text u @ t) = u @ unquote t"
    "raw_ok t \<Longrightarrow> raw_ok (rune_text u @ t)"
proof -
  obtain c cs where c: "u = c # cs" using u by (cases u) auto
  have n: "rune_len (u @ t) = length u" using u rune_len_take [of u t] by simp
  have "\<not> byte c < 0x80" using b [of c] c by simp
  moreover have "rune_len (c # cs @ t) = length u" using n c by simp
  then have "rune_len (c # cs @ t) \<noteq> 0" and tk: "take (rune_len (c # cs @ t)) (c # cs @ t) = u"
    and dr: "drop (rune_len (c # cs @ t) - 1) (cs @ t) = t" using u(1) by (simp_all add: c del: rune_len.simps)
  ultimately have "escape (c # cs @ t) = rune_text u @ escape t"
    unfolding escape.simps(2) [of c "cs @ t"] Let_def rune_text_def tk dr by (simp del: rune_len.simps)
  then show "escape (u @ t) = rune_text u @ escape t" by (simp add: c)
  have sep: "EncodeRune 0x2028 = [chr 0xE2, chr 0x80, chr 0xA8]" "EncodeRune 0x2029 = [chr 0xE2, chr 0x80, chr 0xA9]"
    by (simp_all add: EncodeRune_def)
  have ne: "0x20 \<le> byte b \<and> b \<noteq> quote \<and> b \<noteq> backslash" if "b \<in> set u" for b
  proof -
    have "byte quote < 0x80" "byte backslash < 0x80" by code_simp+
    with b [OF that] show ?thesis by auto
  qed
  then have "unquote (u @ t) = u @ unquote t" using u c by (intro unquote_rune) simp_all
  then show "unquote (rune_text u @ t) = u @ unquote t"
    using unquote_u_escape [of "0x2028" t] unquote_u_escape [of "0x2029" t] sep
    by (simp add: rune_text_def is_surrogate_def)
  assume t: "raw_ok t"
  then have "raw_ok (u @ t)" using ne by (intro raw_ok_chars) simp_all
  moreover have "raw_ok (u_escape r @ t)" if "r < 0x10000" for r using raw_ok_unit [OF is_unit_u_escape [OF that] t] .
  ultimately show "raw_ok (rune_text u @ t)" by (simp add: rune_text_def)
qed

lemma escape_ok: "valid_utf8 s \<Longrightarrow> unquote (escape s) = s \<and> raw_ok (escape s)"
proof (induction "length s" arbitrary: s rule: less_induct)
  case less
  show ?case
  proof (cases s)
    case s: (Cons c cs)
    show ?thesis
    proof (cases "byte c < 0x80")
      case True
      with less.prems s have "valid_utf8 cs" by (simp add: valid_utf8_ascii)
      then have "unquote (escape cs) = cs \<and> raw_ok (escape cs)" using less.hyps [of cs] s by simp
      then show ?thesis
        using True s escape_ascii_ok [OF True, of "escape cs"] raw_ok_unit by (simp add: escape.simps)
    next
      case False
      define u t where "u = take (rune_len s) s" and "t = drop (rune_len s) s"
      have n: "0 < rune_len s" and v: "valid_utf8 t"
        using less.prems unfolding valid_utf8.simps [of s] t_def by (simp_all add: s split: if_splits del: rune_len.simps)
      have st: "s = u @ t" by (simp add: u_def t_def)
      have b: "0x80 \<le> byte b" if "b \<in> set u" for b using that False rune_bytes [of c b cs] s by (simp add: u_def)
      have u: "0 < rune_len u" "rune_len u = length u"
        using n rune_len_take [of s "[]"] rune_len_le [of s] by (simp_all add: u_def)
      then have "length t < length s" using st by simp
      then have "unquote (escape t) = t \<and> raw_ok (escape t)" using less.hyps v by blast
      then show ?thesis using rune_text_ok [OF u b] unfolding st by simp
    qed
  qed simp
qed

lemma escape_inj: "valid_utf8 a \<Longrightarrow> valid_utf8 b \<Longrightarrow> escape a = escape b \<Longrightarrow> a = b"
  by (metis escape_ok)

section \<open>The round trip of numbers\<close>

lemma digits_all: "list_all is_dig i \<Longrightarrow> takeWhile is_dig (i @ rest) = i @ takeWhile is_dig rest \<and>
    dropWhile is_dig (i @ rest) = dropWhile is_dig rest"
  by (induction i) simp_all

lemma not_dig [simp]: "\<not> is_dig (CHR ''.'')" "\<not> is_dig (CHR ''e'')" "\<not> is_dig (CHR ''+'')" "\<not> is_dig (CHR ''-'')"
  by (simp_all add: is_dig_def)

text \<open>The shape of a number that \<open>format_float\<close> writes.\<close>

lemma number_text:
  assumes i: "i \<noteq> []" "list_all is_dig i" "hd i \<noteq> CHR ''0'' \<or> i = ''0''"
    and fr: "fr = [] \<or> (\<exists>f. fr = CHR ''.'' # f \<and> f \<noteq> [] \<and> list_all is_dig f)"
    and ex: "ex = [] \<or> (\<exists>c x. ex = CHR ''e'' # c # x \<and> (c = CHR ''+'' \<or> c = CHR ''-'') \<and> x \<noteq> [] \<and> list_all is_dig x)"
    and sg: "sg = [] \<or> sg = ''-''"
  shows "valid_number (sg @ i @ fr @ ex)"
    "number_value (sg @ i @ fr @ ex) =
      of_int (signed_value (sg @ i @ tl fr)) * 10 powi (signed_value (tl ex) - int (length (tl fr)))"
proof -
  obtain c t where c: "i = c # t" using i(1) by (cases i) auto
  then have d: "is_dig c" "c \<noteq> CHR ''-''" using i(2) by (auto simp: is_dig_def)
  have stop: "takeWhile is_dig (fr @ ex) = []" "dropWhile is_dig (fr @ ex) = fr @ ex"
    using fr ex by auto
  have 1: "scan_int (sg @ i @ fr @ ex) = Some (sg @ i, fr @ ex)"
    using sg i digits_all [OF i(2), of "fr @ ex"] stop c d
    by (auto simp: scan_int_def Let_def)
  have whole: "takeWhile is_dig x = x" "dropWhile is_dig x = []" if "list_all is_dig x" for x
    using digits_all [OF that, of "[]"] by simp_all
  have 2: "scan_frac (fr @ ex) = Some (fr, ex)"
    using fr ex by (auto simp: scan_frac_def whole digits_all)
  have 3: "scan_exp ex = Some (ex, [])"
    using ex by (auto simp: scan_exp_def Let_def whole)
  show "valid_number (sg @ i @ fr @ ex)"
    unfolding valid_number_def scan_number_def 1 2 3 option.case prod.case by simp
  show "number_value (sg @ i @ fr @ ex) =
      of_int (signed_value (sg @ i @ tl fr)) * 10 powi (signed_value (tl ex) - int (length (tl fr)))"
    unfolding number_value_def 1 2 option.case prod.case Let_def by simp
qed

lemma dec_digits: "list_all is_dig (dec n)" "dec n \<noteq> []"
proof -
  show "list_all is_dig (dec n)"
    using set_dec [of n] by (fastforce simp: list_all_iff is_dig_def of_char_digit)
  show "dec n \<noteq> []" by (subst dec.simps) simp
qed

lemma dec_head: "0 < n \<Longrightarrow> hd (dec n) \<noteq> CHR ''0''"
proof (induction n rule: dec.induct)
  case (1 n)
  show ?case
  proof (cases "n < 10")
    case True
    then have "byte (digit n) = 48 + n" by (rule of_char_digit)
    with 1 True show ?thesis by (subst dec.simps) auto
  next
    case False
    then show ?thesis using 1 dec_digits(2) [of "n div 10"] by (subst dec.simps) simp
  qed
qed

lemma dec_value_zeros: "dec_value (s @ replicate k CHR ''0'') = dec_value s * 10 ^ k"
proof (induction k)
  case (Suc k)
  have "dec_value (s @ replicate (Suc k) CHR ''0'') = dec_value ((s @ replicate k CHR ''0'') @ [CHR ''0''])"
    by (simp flip: replicate_append_same)
  then show ?case using Suc by (simp only: dec_value_append) simp
qed simp

lemma zeros_digits [simp]: "list_all is_dig (replicate k CHR ''0'')"
  by (induction k) (simp_all add: is_dig_def)

lemma dec_value_leading: "dec_value (replicate k CHR ''0'' @ s) = dec_value s"
  by (induction k) (simp_all add: dec_value_def)

lemma signed_value_digits:
  "list_all is_dig s \<Longrightarrow> s \<noteq> [] \<Longrightarrow> signed_value s = int (dec_value s)"
  "signed_value (CHR ''-'' # s) = - int (dec_value s)" "signed_value (CHR ''+'' # s) = int (dec_value s)"
  "signed_value [] = 0"
  by (cases s; auto simp: signed_value_def is_dig_def)+

lemma take_drop_digits:
  "list_all is_dig s \<Longrightarrow> list_all is_dig (take k s)" "list_all is_dig s \<Longrightarrow> list_all is_dig (drop k s)"
  by (auto simp: list_all_iff dest: in_set_takeD in_set_dropD)

text \<open>Both forms of a positive decimal, with an optional minus sign.\<close>

lemma fixed_form_ok:
  assumes "0 < D" "sg = [] \<or> sg = ''-''"
  shows "valid_number (sg @ fixed_form (dec D) p) \<and>
    number_value (sg @ fixed_form (dec D) p) = (if sg = [] then 1 else - 1) * of_nat D * 10 powi p"
proof -
  let ?ds = "dec D"
  note d = dec_digits [of D] dec_head [OF assms(1)]
  have sign: "signed_value (sg @ s) = (if sg = [] then 1 else - 1) * int (dec_value s)"
    if "list_all is_dig s" "s \<noteq> []" for s
    using assms(2) that by (auto simp: signed_value_digits)
  show ?thesis
  proof (cases "0 \<le> p")
    case True
    let ?i = "?ds @ replicate (nat p) CHR ''0''"
    have i: "?i \<noteq> []" "list_all is_dig ?i" "hd ?i \<noteq> CHR ''0'' \<or> ?i = ''0''"
      using d by simp_all
    have "fixed_form ?ds p = ?i" using True by (simp add: fixed_form_def)
    then show ?thesis
      using number_text [OF i, of "[]" "[]" sg] assms(2) sign [OF i(2,1)] True
      by (simp add: dec_value_zeros signed_value_digits power_int_def)
  next
    case False
    define m where "m = nat (- p)"
    have m: "p = - int m" "0 < m" using False by (simp_all add: m_def)
    show ?thesis
    proof (cases "m < length ?ds")
      case True
      let ?i = "take (length ?ds - m) ?ds" and ?f = "drop (length ?ds - m) ?ds"
      have i: "?i \<noteq> []" "list_all is_dig ?i" "hd ?i \<noteq> CHR ''0'' \<or> ?i = ''0''"
        using d True by (simp_all add: take_drop_digits)
      have f: "?f \<noteq> []" "list_all is_dig ?f" "length ?f = m" using d True m by (simp_all add: take_drop_digits)
      have "fixed_form ?ds p = ?i @ CHR ''.'' # ?f" using False True by (simp add: fixed_form_def m_def Let_def)
      then show ?thesis
        using number_text [OF i, of "CHR ''.'' # ?f" "[]" sg] f assms(2) sign [of ?ds] d m
        by (simp add: signed_value_digits)
    next
      case short: False
      let ?f = "replicate (m - length ?ds) CHR ''0'' @ ?ds"
      have f: "?f \<noteq> []" "list_all is_dig ?f" "length ?f = m"
        using d short by simp_all
      have v: "dec_value (CHR ''0'' # ?f) = D"
        using dec_value_leading [of "Suc (m - length ?ds)" ?ds] by simp
      have "fixed_form ?ds p = ''0'' @ CHR ''.'' # ?f" using False short by (simp add: fixed_form_def m_def Let_def)
      then show ?thesis
        using number_text [of "''0''" "CHR ''.'' # ?f" "[]" sg] f assms(2) sign [of "CHR ''0'' # ?f"] v m
        by (simp add: signed_value_digits is_dig_def)
    qed
  qed
qed

lemma exp_form_ok:
  assumes "0 < D" "sg = [] \<or> sg = ''-''"
  shows "valid_number (sg @ exp_form (dec D) p) \<and>
    number_value (sg @ exp_form (dec D) p) = (if sg = [] then 1 else - 1) * of_nat D * 10 powi p"
proof -
  let ?ds = "dec D" and ?e = "p + int (length (dec D)) - 1"
  note d = dec_digits [of D] dec_head [OF assms(1)]
  let ?i = "take 1 ?ds" and ?f = "drop 1 ?ds"
  let ?fr = "if length ?ds = 1 then [] else CHR ''.'' # ?f"
  let ?ex = "CHR ''e'' # (if ?e < 0 then CHR ''-'' else CHR ''+'') # dec (nat \<bar>?e\<bar>)"
  have i: "?i \<noteq> []" "list_all is_dig ?i" "hd ?i \<noteq> CHR ''0'' \<or> ?i = ''0''" using d by (simp_all add: take_drop_digits)
  have len: "length ?ds = 1 \<or> ?f \<noteq> []" using d(2) by (cases ?ds) auto
  have fr: "?fr = [] \<or> (\<exists>f. ?fr = CHR ''.'' # f \<and> f \<noteq> [] \<and> list_all is_dig f)"
    using len d(1) by (auto simp: take_drop_digits)
  have ex: "?ex = [] \<or> (\<exists>c x. ?ex = CHR ''e'' # c # x \<and> (c = CHR ''+'' \<or> c = CHR ''-'') \<and> x \<noteq> [] \<and> list_all is_dig x)"
    by (simp add: dec_digits)
  have tl: "tl ?fr = ?f" "length ?f = length ?ds - 1" using len d(2) by (cases ?ds; simp)+
  have sv: "signed_value (tl ?ex) = ?e" by (simp add: signed_value_digits)
  have "0 < length ?ds" using d(2) by simp
  then have pe: "?e - int (length ?f) = p" using tl(2) by (simp add: of_nat_diff Suc_le_eq)
  have "signed_value (sg @ ?i @ ?f) = (if sg = [] then 1 else - 1) * int D"
    using assms(2) d by (auto simp: signed_value_digits)
  then show ?thesis
    using number_text [OF i fr ex assms(2)] pe unfolding tl sv exp_form_def Let_def by simp
qed

text \<open>The digits \<open>shortest\<close> finds read back.\<close>

lemma strip_zeros_value:
  "strip_zeros D p = (D', p') \<Longrightarrow> (of_nat D' :: rat) * 10 powi p' = of_nat D * 10 powi p"
proof (induction D p rule: strip_zeros.induct)
  case (1 D p)
  show ?case
  proof (cases "D \<noteq> 0 \<and> D mod 10 = 0")
    case True
    then have "(of_nat D' :: rat) * 10 powi p' = of_nat (D div 10) * 10 powi (p + 1)"
      using 1 by (simp add: strip_zeros.simps [of D p])
    moreover have "(of_nat D :: rat) = of_nat (D div 10) * 10"
      using True by (metis mod_0_imp_dvd dvd_div_mult_self of_nat_mult of_nat_numeral)
    ultimately show ?thesis by (simp add: power_int_add)
  qed (use "1.prems" in \<open>auto simp: strip_zeros.simps [of D p] split: if_splits\<close>)
qed

lemma first_some_Some: "first_some f xs = Some y \<Longrightarrow> \<exists>x \<in> set xs. f x = Some y"
  by (induction xs) (auto split: option.splits)

lemma digits_try_reads: "digits_try x n = Some (D, p) \<Longrightarrow> round64 (of_nat D * 10 powi p) = Fin x"
  by (auto simp: digits_try_def Let_def find_Some_iff split: if_splits)

lemma exact_digits_value:
  assumes "0 < x" "wf64 (Fin x)" "exact_digits x = (D, p)"
  shows "of_nat D * 10 powi p = x"
proof -
  let ?q = "qexp x"
  define k where "k = rne (x / 2 powi ?q)"
  have "rnd_pos x = x" using assms(1,2) by (simp add: rnd_def)
  then have x: "x = of_int k * 2 powi ?q" by (simp add: rnd_pos_def k_def)
  then have "0 < (of_int k :: rat)" using assms(1) by (metis powi_2_pos zero_less_mult_pos2)
  then have k: "0 < k" by simp
  have d: "x / 2 powi ?q = of_int k" using x by (metis nonzero_mult_div_cancel_right powi_2_pos less_irrefl)
  show ?thesis
  proof (cases "0 \<le> ?q")
    case True
    then have "D = nat k * 2 ^ nat ?q" "p = 0" using assms(3) d by (simp_all add: exact_digits_def)
    then show ?thesis using x k True by (simp add: power_int_def)
  next
    case False
    define m where "m = nat (- ?q)"
    have m: "?q = - int m" using False by (simp add: m_def)
    have D: "D = nat k * 5 ^ m" "p = ?q" using assms(3) d False by (auto simp: exact_digits_def m_def Let_def)
    have "(10 :: rat) ^ m = 5 ^ m * 2 ^ m" by (simp flip: power_mult_distrib)
    then show ?thesis using x k unfolding D m by (simp add: power_int_minus field_simps)
  qed
qed

lemma shortest_ok:
  assumes "0 < x" "wf64 (Fin x)" "shortest x = (D, p)"
  shows "round64 (of_nat D * 10 powi p) = Fin x" "0 < D"
proof -
  show r: "round64 (of_nat D * 10 powi p) = Fin x"
  proof (cases "first_some (digits_try x) [1..<18]")
    case None
    with assms have "exact_digits x = (D, p)" by (simp add: shortest_def)
    with exact_digits_value [OF assms(1,2)] assms(2) show ?thesis by (simp add: round64_wf64)
  next
    case (Some Dp)
    obtain D0 p0 where Dp: "Dp = (D0, p0)" by fastforce
    with Some have "round64 (of_nat D0 * 10 powi p0) = Fin x"
      using first_some_Some [OF Some] digits_try_reads by auto
    moreover have "strip_zeros D0 p0 = (D, p)" using assms(3) Some Dp by (simp add: shortest_def)
    ultimately show ?thesis using strip_zeros_value by metis
  qed
  show "0 < D"
  proof (rule ccontr)
    assume "\<not> 0 < D"
    with r assms(1) show False by simp
  qed
qed

lemma format_float_ok:
  assumes "wf64 (Fin x)"
  shows "valid_number (format_float x)" "ParseFloat (format_float x) = Some (Fin x)"
proof -
  have pos: "valid_number (sg @ format_pos y) \<and>
      round64 (number_value (sg @ format_pos y)) = Fin (if sg = [] then y else - y)"
    if "0 < y" "wf64 (Fin y)" "sg = [] \<or> sg = ''-''" for y sg
  proof -
    obtain D p where Dp: "shortest y = (D, p)" by fastforce
    note s = shortest_ok [OF that(1,2) Dp]
    have neg: "round64 (- (of_nat D * 10 powi p)) = Fin (- y)"
      using s(1) that(1,2) by (auto simp: round64_def Let_def rnd_minus split: if_splits)
    show ?thesis
      using fixed_form_ok [OF s(2) that(3), of p] exp_form_ok [OF s(2) that(3), of p] s(1) neg
      by (auto simp: format_pos_def Dp)
  qed
  have "valid_number ''0''" "number_value ''0'' = 0" by code_simp+
  moreover have "wf64 (Fin (- x))" using assms by (simp add: rnd_minus)
  ultimately have "valid_number (format_float x) \<and> round64 (number_value (format_float x)) = Fin x"
    using pos [of x "[]"] pos [of "- x" "''-''"] assms by (auto simp: format_float_def)
  then show "valid_number (format_float x)" "ParseFloat (format_float x) = Some (Fin x)"
    by (simp_all add: ParseFloat_def)
qed

section \<open>The round trip of values\<close>

text \<open>The values \<open>Unmarshal\<close> produces: finite numbers of the format, valid UTF-8, distinct keys.\<close>

fun wf_gval :: "gval \<Rightarrow> bool" where
  "wf_gval (VNum x) = (wf64 x \<and> (\<exists>r. x = Fin r))"
| "wf_gval (VStr s) = valid_utf8 s"
| "wf_gval (VArr vs) = (\<forall>v \<in> set vs. wf_gval v)"
| "wf_gval (VObj m) = (distinct (map fst m) \<and> (\<forall>p \<in> set m. valid_utf8 (fst p) \<and> wf_gval (snd p)))"
| "wf_gval _ = True"

text \<open>The same value with its maps in the order of their keys.\<close>

fun sorted_gval :: "gval \<Rightarrow> gval" where
  "sorted_gval (VArr vs) = VArr (map sorted_gval vs)"
| "sorted_gval (VObj m) = VObj (map (\<lambda>p. (fst p, sorted_gval (snd p))) (sort_key fst m))"
| "sorted_gval v = v"

lemma set_all_distinct: "distinct (map fst ps) \<Longrightarrow> set_all ps = ps"
proof -
  have "distinct (map fst (m @ ps)) \<Longrightarrow> foldl (\<lambda>m p. AList.update (fst p) (snd p) m) m ps = m @ ps" for m
  proof (induction ps arbitrary: m)
    case (Cons p ps)
    have "AList.update (fst p) (snd p) m = m @ [p]"
      using Cons.prems by (induction m) auto
    then show ?case using Cons.IH [of "m @ [p]"] Cons.prems by simp
  qed simp
  then show "distinct (map fst ps) \<Longrightarrow> set_all ps = ps" by (simp add: set_all_def)
qed

lemma set_all_wf:
  "distinct (map fst (set_all ps))" "p \<in> set (set_all ps) \<Longrightarrow> p \<in> set ps"
proof -
  have "distinct (map fst m) \<Longrightarrow> distinct (map fst (foldl (\<lambda>m p. AList.update (fst p) (snd p) m) m ps)) \<and>
      set (foldl (\<lambda>m p. AList.update (fst p) (snd p) m) m ps) \<subseteq> set m \<union> set ps" for m
  proof (induction ps arbitrary: m)
    case (Cons q ps)
    have "set (AList.update (fst q) (snd q) m) \<subseteq> insert q (set m)"
      by (induction m) auto
    with Cons show ?case using distinct_update [OF Cons.prems, of "fst q" "snd q"] by fastforce
  qed simp
  from this [of "[]"] show "distinct (map fst (set_all ps))" "p \<in> set (set_all ps) \<Longrightarrow> p \<in> set ps"
    by (auto simp: set_all_def)
qed

lemma map_of_set_all: "map_of (set_all ps) = map_of (rev ps)"
proof -
  have "map_of (foldl (\<lambda>m p. AList.update (fst p) (snd p) m) m ps) = map_of (rev ps @ m)" for m :: "(string \<times> 'a) list"
  proof (induction ps arbitrary: m)
    case (Cons q ps)
    have "map_of (AList.update (fst q) (snd q) m) = map_of (q # m)"
      by (cases q) (simp add: update_conv')
    then show ?case using Cons.IH [of "AList.update (fst q) (snd q) m"] by (simp add: map_of_append flip: fun_upd_def)
  qed simp
  from this [of "[]"] show ?thesis by (simp add: set_all_def)
qed

lemma those_map: "(\<And>x. x \<in> set xs \<Longrightarrow> f x = Some (g x)) \<Longrightarrow> those (map f xs) = Some (map g xs)"
  by (induction xs) simp_all

lemma any_of_json_of: "wf_gval v \<Longrightarrow> any_of (json_of v) = Some (sorted_gval v)"
proof (induction v rule: sorted_gval.induct)
  case (1 vs)
  then show ?case by (simp add: those_map [where g = sorted_gval] o_def)
next
  case (2 m)
  let ?s = "sort_key fst m"
  have "those (map (\<lambda>p. map_option (Pair (unquote (escape (fst p)))) (any_of (json_of (snd p)))) ?s) =
      Some (map (\<lambda>p. (fst p, sorted_gval (snd p))) ?s)"
    using 2 by (intro those_map) (simp add: escape_ok)
  moreover have "distinct (map fst (map (\<lambda>p. (fst p, sorted_gval (snd p))) ?s))"
    using 2 by (simp add: o_def distinct_map inj_on_def)
  ultimately show ?case by (simp add: o_def set_all_distinct)
qed (auto simp: escape_ok format_float_ok split: f64.splits)

lemma wf_json_of: "wf_gval v \<Longrightarrow> wf_json (json_of v)"
  by (induction v rule: sorted_gval.induct)
    (auto simp: escape_ok raw_ok_valid format_float_ok split: f64.splits)

lemma those_Some: "those (map f xs) = Some ys \<Longrightarrow> y \<in> set ys \<Longrightarrow> \<exists>x \<in> set xs. f x = Some y"
  by (induction xs arbitrary: ys) (auto split: option.splits)

lemma any_of_wf: "any_of j = Some v \<Longrightarrow> wf_gval v"
proof (induction j arbitrary: v rule: any_of.induct)
  case (3 s)
  then obtain r where "round64 (number_value s) = Fin r" "v = VNum (Fin r)"
    by (auto simp: ParseFloat_def split: f64.splits)
  then show ?case using wf64_round64 [of "number_value s"] by (simp del: wf64.simps wf64_round64)
next
  case (5 js)
  then show ?case by (fastforce dest: those_Some)
next
  case (6 ms)
  then obtain ps where ps: "those (map (\<lambda>m. map_option (Pair (unquote (fst m))) (any_of (snd m))) ms) = Some ps"
      "v = VObj (set_all ps)" by auto
  have "valid_utf8 (fst p) \<and> wf_gval (snd p)" if p: "p \<in> set (set_all ps)" for p
  proof -
    from those_Some [OF ps(1) set_all_wf(2) [OF p]] obtain m v
      where "m \<in> set ms" "any_of (snd m) = Some v" "p = (unquote (fst m), v)" by auto
    then show ?thesis using 6 by (auto simp: valid_utf8_unquote)
  qed
  then show ?case using set_all_wf(1) ps by simp
qed (auto simp: valid_utf8_unquote)

lemma depth_le_JArr: "(\<And>j. j \<in> set js \<Longrightarrow> depth j \<le> n) \<Longrightarrow> depth (JArr js) \<le> Suc n"
  by auto

lemma depth_le_JObj: "(\<And>m. m \<in> set ms \<Longrightarrow> depth (snd m) \<le> n) \<Longrightarrow> depth (JObj ms) \<le> Suc n"
  by auto

lemma le_Max_image: "a \<le> f x \<Longrightarrow> x \<in> set xs \<Longrightarrow> a \<le> Max (insert (0 :: nat) (f ` set xs))"
  by (rule le_trans, assumption) simp

lemma any_of_depth: "any_of j = Some v \<Longrightarrow> depth (json_of v) \<le> depth j"
proof (induction j arbitrary: v rule: any_of.induct)
  case (5 js)
  then obtain vs where vs: "those (map any_of js) = Some vs" "v = VArr vs" by auto
  have "depth (json_of v) \<le> Max (insert 0 (depth ` set js))" if "v \<in> set vs" for v
  proof -
    from those_Some [OF vs(1) that] obtain j where "j \<in> set js" "any_of j = Some v" by auto
    then show ?thesis using 5(1) by (blast intro: le_Max_image)
  qed
  then have "depth (JArr (map json_of vs)) \<le> depth (JArr js)" unfolding depth.simps(1) [of js] by (intro depth_le_JArr) auto
  then show ?case using vs(2) by (simp del: depth.simps)
next
  case (6 ms)
  then obtain ps where ps: "those (map (\<lambda>m. map_option (Pair (unquote (fst m))) (any_of (snd m))) ms) = Some ps"
      "v = VObj (set_all ps)" by auto
  have "depth (json_of (snd p)) \<le> Max (insert 0 ((\<lambda>m. depth (snd m)) ` set ms))" if p: "p \<in> set (set_all ps)" for p
  proof -
    from those_Some [OF ps(1) set_all_wf(2) [OF p]] obtain m v
      where "m \<in> set ms" "any_of (snd m) = Some v" "snd p = v" by auto
    then show ?thesis using 6(1) by (blast intro: le_Max_image [where f = "\<lambda>m. depth (snd m)"])
  qed
  then have "depth (json_of (VObj (set_all ps))) \<le> depth (JObj ms)"
    unfolding depth.simps(2) [of ms] json_of.simps by (intro depth_le_JObj) auto
  then show ?case using ps(2) by simp
qed (auto split: f64.splits)

text \<open>What \<open>Marshal\<close> writes decodes to the value it was given.\<close>

lemma decode_Marshal:
  assumes "wf_gval (VObj m)" "depth (json_of (VObj m)) \<le> maxNestingDepth"
  shows "Unmarshal_object (Marshal (VObj m)) = Some (map (\<lambda>p. (fst p, sorted_gval (snd p))) (sort_key fst m))"
proof -
  have "parse (Marshal (VObj m)) = Some (json_of (VObj m))"
    unfolding Marshal_def using wf_json_of [OF assms(1)] assms(2) by (rule parse_json_text)
  with any_of_json_of [OF assms(1)] show ?thesis by (simp add: Unmarshal_object_def del: any_of.simps)
qed

end
