(* ===== verification/Stream.thy ===== *)
theory Stream
  imports Keys Json_Print
begin

text \<open>
  \<open>internal/proxy/stream.go\<close>: the tee on a streaming response. \<open>Read\<close> passes bytes on and feeds them
  to a line parser, \<open>Close\<close> reports the captured usage once. A call of the wrapped body's \<open>Read\<close> is
  an argument: the bytes it put into the buffer and its error, and whether the request's deadline
  has passed by then.
\<close>

section \<open>The chunks\<close>

record openai_usage =
  PromptTokens :: i64
  CompletionTokens :: i64

record openai_chunk =
  oc_Model :: string
  oc_Usage :: "openai_usage option"

record anthropic_usage =
  InputTokens :: i64
  OutputTokens :: i64

record anthropic_message =
  am_Model :: string
  am_Usage :: "anthropic_usage option"

record anthropic_chunk =
  ac_Type :: string
  ac_Message :: "anthropic_message option"
  ac_Usage :: "anthropic_usage option"

definition dec_openai_usage :: "openai_usage decoder" where
  "dec_openai_usage = dec_struct False
     [field ''prompt_tokens'' dec_int PromptTokens (\<lambda>x. PromptTokens_update (\<lambda>_. x)),
      field ''completion_tokens'' dec_int CompletionTokens (\<lambda>x. CompletionTokens_update (\<lambda>_. x))]"

definition dec_openai_chunk :: "openai_chunk decoder" where
  "dec_openai_chunk = dec_struct False
     [field ''model'' dec_string oc_Model (\<lambda>x. oc_Model_update (\<lambda>_. x)),
      field ''usage'' (dec_pointer dec_openai_usage \<lparr>PromptTokens = 0, CompletionTokens = 0\<rparr>)
        oc_Usage (\<lambda>x. oc_Usage_update (\<lambda>_. x))]"

definition dec_anthropic_usage :: "anthropic_usage decoder" where
  "dec_anthropic_usage = dec_struct False
     [field ''input_tokens'' dec_int InputTokens (\<lambda>x. InputTokens_update (\<lambda>_. x)),
      field ''output_tokens'' dec_int OutputTokens (\<lambda>x. OutputTokens_update (\<lambda>_. x))]"

definition dec_anthropic_message :: "anthropic_message decoder" where
  "dec_anthropic_message = dec_struct False
     [field ''model'' dec_string am_Model (\<lambda>x. am_Model_update (\<lambda>_. x)),
      field ''usage'' (dec_pointer dec_anthropic_usage \<lparr>InputTokens = 0, OutputTokens = 0\<rparr>)
        am_Usage (\<lambda>x. am_Usage_update (\<lambda>_. x))]"

definition dec_anthropic_chunk :: "anthropic_chunk decoder" where
  "dec_anthropic_chunk = dec_struct False
     [field ''type'' dec_string ac_Type (\<lambda>x. ac_Type_update (\<lambda>_. x)),
      field ''message'' (dec_pointer dec_anthropic_message \<lparr>am_Model = [], am_Usage = None\<rparr>)
        ac_Message (\<lambda>x. ac_Message_update (\<lambda>_. x)),
      field ''usage'' (dec_pointer dec_anthropic_usage \<lparr>InputTokens = 0, OutputTokens = 0\<rparr>)
        ac_Usage (\<lambda>x. ac_Usage_update (\<lambda>_. x))]"

section \<open>The meter\<close>

text \<open>The state of a \<open>streamMeter\<close>. Its other fields are fixed when it is built: the body, the
  provider, the callback and the context.\<close>

record streamMeter =
  partial :: string
  sm_model :: string
  inputTok :: i64
  outputTok :: i64
  reported :: bool
  pending :: string
  ended :: bool

definition newStreamMeter :: streamMeter where
  "newStreamMeter = \<lparr>partial = '''', sm_model = '''', inputTok = 0, outputTok = 0, reported = False,
     pending = '''', ended = False\<rparr>"

section \<open>Parsing\<close>

definition parseOpenAI :: "streamMeter \<Rightarrow> string \<Rightarrow> streamMeter" where
  "parseOpenAI s payload = (case Unmarshal dec_openai_chunk \<lparr>oc_Model = [], oc_Usage = None\<rparr> payload of None \<Rightarrow> s | Some chunk \<Rightarrow>
     let s = (if sm_model s = '''' \<and> oc_Model chunk \<noteq> '''' then s\<lparr>sm_model := oc_Model chunk\<rparr> else s)
     in case oc_Usage chunk of None \<Rightarrow> s
        | Some u \<Rightarrow> s\<lparr>inputTok := PromptTokens u, outputTok := CompletionTokens u\<rparr>)"

definition parseAnthropic :: "streamMeter \<Rightarrow> string \<Rightarrow> streamMeter" where
  "parseAnthropic s payload = (case Unmarshal dec_anthropic_chunk \<lparr>ac_Type = [], ac_Message = None, ac_Usage = None\<rparr> payload of None \<Rightarrow> s | Some chunk \<Rightarrow>
     if ac_Type chunk = ''message_start'' then
       (case ac_Message chunk of None \<Rightarrow> s | Some msg \<Rightarrow>
         let s = (if am_Model msg \<noteq> '''' then s\<lparr>sm_model := am_Model msg\<rparr> else s)
         in case am_Usage msg of None \<Rightarrow> s
            | Some u \<Rightarrow> s\<lparr>inputTok := InputTokens u, outputTok := OutputTokens u\<rparr>)
     else if ac_Type chunk = ''message_delta'' then
       (case ac_Usage chunk of None \<Rightarrow> s
        | Some u \<Rightarrow> if 0 <s OutputTokens u then s\<lparr>outputTok := OutputTokens u\<rparr> else s)
     else s)"

text \<open>\<open>bytes.TrimRight(line, "\r")\<close>.\<close>

definition newline :: char where "newline = CHR 0x0A"
definition carriage :: char where "carriage = CHR 0x0D"

definition TrimRight_cr :: "string \<Rightarrow> string" where
  "TrimRight_cr b = rev (dropWhile (\<lambda>c. c = carriage) (rev b))"

definition parseLine :: "string \<Rightarrow> streamMeter \<Rightarrow> string \<Rightarrow> streamMeter" where
  "parseLine upstream s line =
     (if \<not> HasPrefix line ''data: '' then s
      else let payload = TrimSpace (drop (length ''data: '') line) in
        if length payload = 0 \<or> payload = ''[DONE]'' then s
        else if upstream = UpstreamOpenAI then parseOpenAI s payload
        else if upstream = UpstreamAnthropic then parseAnthropic s payload
        else s)"

lemma partial_parse [simp]:
  "partial (parseOpenAI s p) = partial s" "partial (parseAnthropic s p) = partial s"
  "partial (parseLine u s l) = partial s"
proof -
  show 1: "partial (parseOpenAI s p) = partial s" for p
    by (simp add: parseOpenAI_def Let_def split: option.split)
  show 2: "partial (parseAnthropic s p) = partial s" for p
    by (simp add: parseAnthropic_def Let_def split: option.split)
  show "partial (parseLine u s l) = partial s" by (simp add: parseLine_def Let_def 1 2)
qed

text \<open>The loop of \<open>consume\<close>: take the bytes up to the first newline as a line, keep the rest.\<close>

function consume_loop :: "string \<Rightarrow> streamMeter \<Rightarrow> streamMeter" where
  "consume_loop upstream s =
     (case dropWhile (\<lambda>c. c \<noteq> newline) (partial s) of [] \<Rightarrow> s
      | _ # rest \<Rightarrow>
          let line = TrimRight_cr (takeWhile (\<lambda>c. c \<noteq> newline) (partial s))
          in consume_loop upstream (parseLine upstream (s\<lparr>partial := rest\<rparr>) line))"
  by pat_completeness auto

termination
proof (relation "measure (\<lambda>(_, s). length (partial s))", simp)
  fix upstream and s :: streamMeter and c rest line
  assume d: "dropWhile (\<lambda>c. c \<noteq> newline) (partial s) = c # rest"
  have "length (dropWhile (\<lambda>c. c \<noteq> newline) (partial s)) \<le> length (partial s)" by (rule length_dropWhile_le)
  with d show "((upstream, parseLine upstream (s\<lparr>partial := rest\<rparr>) line), upstream, s)
      \<in> measure (\<lambda>(_, s). length (partial s))" by simp
qed

declare consume_loop.simps [simp del]

definition consume :: "string \<Rightarrow> streamMeter \<Rightarrow> string \<Rightarrow> streamMeter" where
  "consume upstream s chunk = consume_loop upstream (s\<lparr>partial := partial s @ chunk\<rparr>)"

section \<open>Read and Close\<close>

text \<open>\<open>fmt.Sprintf("%d")\<close> of a positive number.\<close>

definition buildTimeoutTrailer :: "i64 \<Rightarrow> string" where
  "buildTimeoutTrailer secs =
     (if 0 <s secs then '': rein upstream timeout after '' @ dec (nat (sint secs)) @ '' seconds'' @ [newline, newline]
      else '': rein upstream timeout'' @ [newline, newline])"

datatype read_error = EOF | ReadErr string

text \<open>\<open>Read(p)\<close> with a buffer of \<open>buflen\<close> bytes. \<open>body\<close> is what the wrapped body's \<open>Read(p)\<close> would
  return, \<open>deadline\<close> whether \<open>ctx.Err()\<close> is \<open>DeadlineExceeded\<close> then, \<open>secs\<close> the key's timeout. The
  result is the bytes put into the buffer and the error.\<close>

definition stream_Read :: "string \<Rightarrow> bool \<Rightarrow> i64 \<Rightarrow> nat \<Rightarrow> string \<times> read_error option \<Rightarrow>
    streamMeter \<Rightarrow> streamMeter \<times> string \<times> read_error option" where
  "stream_Read upstream deadline secs buflen body s =
     (if 0 < length (pending s) then
        let out = take buflen (pending s); s = s\<lparr>pending := drop buflen (pending s)\<rparr>
        in if length (pending s) = 0 then (s, out, Some EOF) else (s, out, None)
      else if ended s then (s, [], Some EOF)
      else let (bytes, err) = body;
               s = (if 0 < length bytes then consume upstream s bytes else s)
           in if err = None then (s, bytes, None)
              else if deadline then
                (s\<lparr>pending := buildTimeoutTrailer secs, ended := True\<rparr>, bytes, None)
              else (s, bytes, err))"

text \<open>\<open>Close\<close>: the state and what \<open>onDone\<close> is called with, if it is called.\<close>

definition stream_Close :: "streamMeter \<Rightarrow> streamMeter \<times> (string \<times> i64 \<times> i64) option" where
  "stream_Close s =
     (if \<not> reported s then
        (s\<lparr>reported := True\<rparr>,
         if 0 <s inputTok s \<or> 0 <s outputTok s then Some (sm_model s, inputTok s, outputTok s) else None)
      else (s, None))"

section \<open>Usage does not depend on how the bytes arrive\<close>

text \<open>The complete lines of a text and what follows the last newline.\<close>

fun split_lines :: "string \<Rightarrow> string list \<times> string" where
  "split_lines [] = ([], [])"
| "split_lines (c # cs) = (case split_lines cs of (ls, r) \<Rightarrow>
     if c = newline then ([] # ls, r)
     else (case ls of [] \<Rightarrow> ([], c # r) | l # ls' \<Rightarrow> ((c # l) # ls', r)))"

text \<open>The reference: all lines of the whole text, parsed in order from the state \<open>s\<close>.\<close>

definition parse_text :: "string \<Rightarrow> streamMeter \<Rightarrow> string \<Rightarrow> streamMeter" where
  "parse_text upstream s text =
     (foldl (parseLine upstream) s (map TrimRight_cr (fst (split_lines text))))\<lparr>partial := snd (split_lines text)\<rparr>"

lemma split_lines_append:
  "split_lines (a @ b) = (case split_lines a of (ls, r) \<Rightarrow> case split_lines (r @ b) of (ms, q) \<Rightarrow> (ls @ ms, q))"
proof (induction a)
  case (Cons c a)
  obtain ls r where a: "split_lines a = (ls, r)" by fastforce
  obtain ms q where b: "split_lines (r @ b) = (ms, q)" by fastforce
  from Cons a b show ?case by (cases ls) (auto split: list.split)
qed (simp split: prod.split)

lemma split_lines_rest: "split_lines (snd (split_lines s)) = ([], snd (split_lines s))"
  by (induction s) (auto split: prod.splits list.splits)

lemma split_lines_cases:
  "dropWhile (\<lambda>c. c \<noteq> newline) s = [] \<Longrightarrow> split_lines s = ([], s)"
  "dropWhile (\<lambda>c. c \<noteq> newline) s = d # rest \<Longrightarrow>
    split_lines s = (takeWhile (\<lambda>c. c \<noteq> newline) s # fst (split_lines rest), snd (split_lines rest))"
  by (induction s) (auto split: prod.splits if_splits)

text \<open>A parser looks at the line only, not at the unfinished bytes.\<close>

lemma parse_partial:
  "parseLine u (s\<lparr>partial := p\<rparr>) l = (parseLine u s l)\<lparr>partial := p\<rparr>"
proof -
  have "parseOpenAI (s\<lparr>partial := p\<rparr>) l = (parseOpenAI s l)\<lparr>partial := p\<rparr>" for s l
    by (simp add: parseOpenAI_def Let_def split: option.split)
  moreover have "parseAnthropic (s\<lparr>partial := p\<rparr>) l = (parseAnthropic s l)\<lparr>partial := p\<rparr>" for s l
    by (simp add: parseAnthropic_def Let_def split: option.split)
  ultimately show ?thesis by (simp add: parseLine_def Let_def)
qed

lemma foldl_parse_partial:
  "foldl (parseLine u) (s\<lparr>partial := p\<rparr>) ls = (foldl (parseLine u) s ls)\<lparr>partial := p\<rparr>"
  by (induction ls arbitrary: s) (simp_all add: parse_partial)

lemma consume_loop_eq: "consume_loop u s = parse_text u s (partial s)"
proof (induction u s rule: consume_loop.induct)
  case (1 u s)
  show ?case
  proof (cases "dropWhile (\<lambda>c. c \<noteq> newline) (partial s)")
    case Nil
    then show ?thesis
      by (subst consume_loop.simps) (simp add: Nil parse_text_def split_lines_cases(1) del: dropWhile_eq_Nil_conv)
  next
    case (Cons d rest)
    then show ?thesis
      using "1.IH" [OF Cons refl]
      by (simp add: consume_loop.simps [of u s] Let_def parse_text_def split_lines_cases(2)
        parse_partial foldl_parse_partial)
  qed
qed

lemma consume_eq: "consume u s chunk = parse_text u s (partial s @ chunk)"
  by (simp add: consume_def consume_loop_eq parse_text_def foldl_parse_partial)

lemma parse_text_append:
  "consume u (parse_text u s a) b = parse_text u s (a @ b)"
proof -
  obtain ls r where a: "split_lines a = (ls, r)" by fastforce
  then have "split_lines r = ([], r)" using split_lines_rest [of a] by simp
  with a show ?thesis
    by (simp add: consume_eq parse_text_def split_lines_append [of a b] foldl_parse_partial split: prod.split)
qed

lemma consume_chunks: "foldl (consume u) (parse_text u s a) chunks = parse_text u s (a @ concat chunks)"
  by (induction chunks arbitrary: a) (simp_all add: parse_text_append)

lemma parse_text_start: "partial s = [] \<Longrightarrow> parse_text u s [] = s"
  by (simp add: parse_text_def)

lemma consume_from_start: "foldl (consume upstream) newStreamMeter chunks = parse_text upstream newStreamMeter (concat chunks)"
  using consume_chunks [of upstream newStreamMeter "[]" chunks]
  by (simp add: parse_text_start newStreamMeter_def)

text \<open>C31: What the meter has captured after a sequence of chunks is what parsing the lines of the whole
  body in order gives: it depends on the bytes and not on how the reads cut them up, and the bytes of an
  unfinished line are kept for later.\<close>

theorem usage_independent_of_chunking:
  "foldl (consume upstream) newStreamMeter chunks = parse_text upstream newStreamMeter (concat chunks)"
  by (rule consume_from_start)

section \<open>Copying a stream to the client\<close>

text \<open>A client copies until a read reports an error or the end. Each read comes with what the wrapped
  body would answer; the outcome is the meter, the bytes written to the client, and how it ended
  (\<open>None\<close> while it has not).\<close>

record body_read =
  br_deadline :: bool
  br_buflen :: nat
  br_bytes :: string
  br_err :: "read_error option"

fun copy_stream :: "string \<Rightarrow> i64 \<Rightarrow> body_read list \<Rightarrow> streamMeter \<Rightarrow> streamMeter \<times> string \<times> read_error option" where
  "copy_stream upstream secs [] s = (s, [], None)"
| "copy_stream upstream secs (r # rs) s =
     (case stream_Read upstream (br_deadline r) secs (br_buflen r) (br_bytes r, br_err r) s of
        (s, out, Some e) \<Rightarrow> (s, out, Some e)
      | (s, out, None) \<Rightarrow> (case copy_stream upstream secs rs s of (s, out', e) \<Rightarrow> (s, out @ out', e)))"

definition captured :: "streamMeter \<Rightarrow> string \<times> i64 \<times> i64" where
  "captured s = (sm_model s, inputTok s, outputTok s)"

definition body_text :: "body_read list \<Rightarrow> string" where
  "body_text rs = concat (map br_bytes rs)"

abbreviation open_meter :: "streamMeter \<Rightarrow> bool" where
  "open_meter s \<equiv> pending s = [] \<and> \<not> ended s"

lemma pending_parse [simp]:
  "pending (parse_text u s t) = pending s" "ended (parse_text u s t) = ended s" "reported (parse_text u s t) = reported s"
proof -
  have oa: "pending (parseOpenAI s l) = pending s \<and> ended (parseOpenAI s l) = ended s \<and> reported (parseOpenAI s l) = reported s"
    for s l by (simp add: parseOpenAI_def Let_def split: option.split)
  have an: "pending (parseAnthropic s l) = pending s \<and> ended (parseAnthropic s l) = ended s \<and>
      reported (parseAnthropic s l) = reported s" for s l
    by (simp add: parseAnthropic_def Let_def split: option.split)
  have "pending (parseLine u s l) = pending s \<and> ended (parseLine u s l) = ended s \<and>
      reported (parseLine u s l) = reported s" for s l
    using oa an by (simp add: parseLine_def Let_def)
  then have "pending (foldl (parseLine u) s ls) = pending s \<and> ended (foldl (parseLine u) s ls) = ended s \<and>
      reported (foldl (parseLine u) s ls) = reported s" for ls
    by (induction ls arbitrary: s) simp_all
  then show "pending (parse_text u s t) = pending s" "ended (parse_text u s t) = ended s"
      "reported (parse_text u s t) = reported s"
    by (simp_all add: parse_text_def)
qed

lemma Read_data:
  assumes "open_meter s"
  shows "stream_Read u dl secs n (bytes, None) (parse_text u s t) = (parse_text u s (t @ bytes), bytes, None)"
  using assms parse_text_append [of u s t bytes] by (simp add: stream_Read_def Let_def)

lemma copy_data:
  assumes "open_meter s" "\<forall>r \<in> set rs. br_err r = None"
  shows "copy_stream u secs (rs @ rs') (parse_text u s t) =
    (case copy_stream u secs rs' (parse_text u s (t @ body_text rs)) of (s', out, e) \<Rightarrow> (s', body_text rs @ out, e))"
  using assms
proof (induction rs arbitrary: t)
  case (Cons r rs)
  then show ?case by (simp add: Read_data body_text_def split: prod.split)
qed (simp add: body_text_def split: prod.split)

lemma copy_trailer:
  assumes "\<forall>r \<in> set rs. 0 < br_buflen r" "length (pending s) \<le> length rs" "pending s \<noteq> []"
  shows "\<exists>s'. copy_stream u secs rs s = (s', pending s, Some EOF) \<and> s' = s\<lparr>pending := []\<rparr>"
  using assms
proof (induction rs arbitrary: s)
  case (Cons r rs)
  let ?n = "br_buflen r"
  show ?case
  proof (cases "length (pending s) \<le> ?n")
    case True
    then show ?thesis using Cons.prems by (simp add: stream_Read_def)
  next
    case False
    let ?s = "s\<lparr>pending := drop ?n (pending s)\<rparr>"
    have "\<exists>s'. copy_stream u secs rs ?s = (s', pending ?s, Some EOF) \<and> s' = ?s\<lparr>pending := []\<rparr>"
      using Cons.prems False by (intro Cons.IH) auto
    then show ?thesis using Cons.prems False by (auto simp: stream_Read_def Let_def)
  qed
qed simp

text \<open>A stream that is copied to its end.\<close>

lemma copy_stream_result:
  assumes "\<forall>r \<in> set rs. br_err r = None" "br_err lst = Some e"
    "br_deadline lst \<Longrightarrow> \<forall>r \<in> set tail. 0 < br_buflen r"
    "br_deadline lst \<Longrightarrow> length (buildTimeoutTrailer secs) \<le> length tail"
  shows "\<exists>s. copy_stream upstream secs (rs @ lst # tail) newStreamMeter =
      (s, body_text (rs @ [lst]) @ (if br_deadline lst then buildTimeoutTrailer secs else []),
       Some (if br_deadline lst then EOF else e)) \<and>
    captured s = captured (parse_text upstream newStreamMeter (body_text (rs @ [lst])))"
proof -
  have new: "open_meter newStreamMeter" "parse_text upstream newStreamMeter [] = newStreamMeter"
    by (simp_all add: newStreamMeter_def parse_text_start)
  let ?p = "parse_text upstream newStreamMeter (body_text rs)"
    and ?q = "parse_text upstream newStreamMeter (body_text rs @ br_bytes lst)"
  have q: "(if br_bytes lst = [] then ?p else consume upstream ?p (br_bytes lst)) = ?q"
    by (simp add: parse_text_append)
  have whole: "body_text (rs @ [lst]) = body_text rs @ br_bytes lst" by (simp add: body_text_def)
  have copy: "copy_stream upstream secs (rs @ lst # tail) newStreamMeter =
      (case copy_stream upstream secs (lst # tail) ?p of (s', out, e) \<Rightarrow> (s', body_text rs @ out, e))"
    using copy_data [OF new(1) assms(1), of upstream secs "lst # tail" "[]"] by (simp add: new(2))
  show ?thesis
  proof (cases "br_deadline lst")
    case False
    then have "stream_Read upstream (br_deadline lst) secs (br_buflen lst) (br_bytes lst, br_err lst) ?p =
        (?q, br_bytes lst, Some e)"
      using new q assms(2) by (simp add: stream_Read_def Let_def split: if_splits)
    with False copy whole show ?thesis by (simp add: captured_def)
  next
    case True
    let ?s = "?q\<lparr>pending := buildTimeoutTrailer secs, ended := True\<rparr>"
    have "stream_Read upstream (br_deadline lst) secs (br_buflen lst) (br_bytes lst, br_err lst) ?p =
        (?s, br_bytes lst, None)"
      using True new q assms(2) by (simp add: stream_Read_def Let_def split: if_splits)
    moreover have "\<exists>s'. copy_stream upstream secs tail ?s = (s', pending ?s, Some EOF) \<and> s' = ?s\<lparr>pending := []\<rparr>"
      using assms(3,4) True by (intro copy_trailer) (auto simp: buildTimeoutTrailer_def)
    ultimately show ?thesis using True copy whole by (auto simp: captured_def)
  qed
qed

text \<open>A copy that is given up at any point: what was read from the provider is the reads up to the first that
  reports an error or the end, and the usage captured is that of their bytes.\<close>

fun received :: "body_read list \<Rightarrow> body_read list" where
  "received [] = []"
| "received (r # rs) = r # (if br_err r = None then received rs else [])"

lemma copy_ended: "ended s \<Longrightarrow> captured (fst (copy_stream u secs rs s)) = captured s"
proof (induction rs arbitrary: s)
  case (Cons r rs)
  obtain s' out e where r: "stream_Read u (br_deadline r) secs (br_buflen r) (br_bytes r, br_err r) s = (s', out, e)"
    by (metis prod_cases3)
  then have "ended s' \<and> captured s' = captured s"
    using Cons.prems by (auto simp: stream_Read_def captured_def Let_def split: if_splits)
  with Cons.IH [of s'] r show ?case by (simp split: option.split prod.split) (metis fst_conv)
qed simp

lemma copy_captured:
  "open_meter s \<Longrightarrow> captured (fst (copy_stream u secs rs (parse_text u s t))) = captured (parse_text u s (t @ body_text (received rs)))"
proof (induction rs arbitrary: t)
  case (Cons r rs)
  let ?q = "parse_text u s (t @ br_bytes r)"
  show ?case
  proof (cases "br_err r")
    case None
    then show ?thesis using Cons.IH [OF Cons.prems, of "t @ br_bytes r"] Read_data [OF Cons.prems]
      by (simp add: body_text_def split: prod.split) (metis fst_conv)
  next
    case (Some e)
    let ?s = "if br_deadline r then ?q\<lparr>pending := buildTimeoutTrailer secs, ended := True\<rparr> else ?q"
    have q: "(if br_bytes r = [] then parse_text u s t else consume u (parse_text u s t) (br_bytes r)) = ?q"
      by (simp add: parse_text_append)
    have r: "stream_Read u (br_deadline r) secs (br_buflen r) (br_bytes r, br_err r) (parse_text u s t) =
        (?s, br_bytes r, if br_deadline r then None else Some e)"
      using Cons.prems q Some by (simp add: stream_Read_def Let_def split: if_splits)
    have "captured (fst (copy_stream u secs rs ?s)) = captured ?q" if "br_deadline r"
      using copy_ended [of ?s u secs rs] that by (simp add: captured_def)
    then show ?thesis using Some r
      by (cases "br_deadline r") (simp_all add: body_text_def split: prod.split, metis fst_conv)
  qed
qed (simp add: body_text_def)

lemma copy_from_start:
  "captured (fst (copy_stream u secs rs newStreamMeter)) = captured (parse_text u newStreamMeter (body_text (received rs)))"
proof -
  have "open_meter newStreamMeter" "parse_text u newStreamMeter [] = newStreamMeter"
    by (simp_all add: newStreamMeter_def parse_text_start)
  from copy_captured [OF this(1), of u secs rs "[]"] this(2) show ?thesis by simp
qed

text \<open>C32: The bytes of the body reach the client untouched and in order, with the error the body ended
  with; and when the key's timeout cuts the body off, the client still gets every byte read before, then the
  whole trailer however small its buffer is, then a clean end. Either way the usage captured is that of
  the bytes passed on.\<close>

theorem stream_is_transparent:
  assumes "\<forall>r \<in> set rs. br_err r = None" "br_err lst = Some e"
    "br_deadline lst \<Longrightarrow> \<forall>r \<in> set tail. 0 < br_buflen r"
    "br_deadline lst \<Longrightarrow> length (buildTimeoutTrailer secs) \<le> length tail"
  shows "\<exists>s. copy_stream upstream secs (rs @ lst # tail) newStreamMeter =
      (s, body_text (rs @ [lst]) @ (if br_deadline lst then buildTimeoutTrailer secs else []),
       Some (if br_deadline lst then EOF else e)) \<and>
    captured s = captured (parse_text upstream newStreamMeter (body_text (rs @ [lst])))"
  using assms by (rule copy_stream_result)

section \<open>Reporting\<close>

text \<open>The calls of \<open>onDone\<close> in a sequence of calls of \<open>Close\<close>.\<close>

fun close_calls :: "nat \<Rightarrow> streamMeter \<Rightarrow> (string \<times> i64 \<times> i64) list" where
  "close_calls 0 s = []"
| "close_calls (Suc n) s = (case stream_Close s of (s, None) \<Rightarrow> close_calls n s | (s, Some u) \<Rightarrow> u # close_calls n s)"

definition spendable :: "string \<times> i64 \<times> i64 \<Rightarrow> bool" where
  "spendable u = (case u of (_, i, out) \<Rightarrow> 0 <s i \<or> 0 <s out)"

lemma copy_reported: "reported (fst (copy_stream u secs rs s)) = reported s"
proof -
  have "reported (fst (stream_Read u dl secs n b s)) = reported s" for dl n b s
    by (cases b) (simp add: stream_Read_def Let_def consume_eq)
  then show ?thesis
    by (induction rs arbitrary: s) (simp_all split: prod.split option.split, metis fst_conv)
qed

lemma close_calls_reported: "reported s \<Longrightarrow> close_calls n s = []"
  by (induction n) (simp_all add: stream_Close_def)

lemma close_calls_once:
  "close_calls (Suc n) s = (if \<not> reported s \<and> spendable (captured s) then [captured s] else [])"
  by (simp add: stream_Close_def close_calls_reported spendable_def captured_def)

text \<open>However often a stream is closed, its usage is reported at most once: once with exactly the
  usage of the bytes that were passed on when that usage has tokens, and not at all when it has none,
  whether the body ended, the client went away in the middle or the timeout cut it off.\<close>

theorem stream_usage_reported_once:
  "close_calls (Suc n) (foldl (consume upstream) newStreamMeter chunks) =
    (let u = captured (parse_text upstream newStreamMeter (concat chunks)) in if spendable u then [u] else [])"
proof -
  have "\<not> reported (parse_text upstream newStreamMeter (concat chunks))" by (simp add: newStreamMeter_def)
  then show ?thesis by (simp add: consume_from_start close_calls_once Let_def del: close_calls.simps)
qed

text \<open>An OpenAI stream cut off by a timeout of two seconds after its usage chunk, drained one byte at a
  time.\<close>

definition demo_chunk :: json where
  "demo_chunk = JObj [(''model'', JStr ''gpt-4o''),
     (''usage'', JObj [(''prompt_tokens'', JNum ''9''), (''completion_tokens'', JNum ''2'')])]"

definition demo_line :: string where
  "demo_line = ''data: '' @ json_text demo_chunk @ [newline]"

definition demo_read :: "bool \<Rightarrow> string \<Rightarrow> read_error option \<Rightarrow> body_read" where
  "demo_read dl bytes e = \<lparr>br_deadline = dl, br_buflen = 1, br_bytes = bytes, br_err = e\<rparr>"

lemma TrimRight_cr_id: "last s \<noteq> carriage \<Longrightarrow> TrimRight_cr s = s"
  by (cases s rule: rev_cases) (simp_all add: TrimRight_cr_def)

lemma split_lines_line: "newline \<notin> set l \<Longrightarrow> split_lines (l @ [newline]) = ([l], [])"
  by (induction l) auto

lemma demo_strings:
  "unquote ''model'' = ''model''" "unquote ''gpt-4o'' = ''gpt-4o''" "unquote ''usage'' = ''usage''"
  "unquote ''prompt_tokens'' = ''prompt_tokens''" "unquote ''completion_tokens'' = ''completion_tokens''"
  by (simp_all add: plain_def quote_def backslash_def)

lemma parseLine_openai:
  "TrimSpace p = p \<Longrightarrow> p \<noteq> [] \<Longrightarrow> p \<noteq> ''[DONE]'' \<Longrightarrow> parseLine UpstreamOpenAI s (''data: '' @ p) = parseOpenAI s p"
  by (simp add: parseLine_def HasPrefix_def)

lemma demo_decoded: "dec_openai_chunk demo_chunk \<lparr>oc_Model = [], oc_Usage = None\<rparr> =
    Some \<lparr>oc_Model = ''gpt-4o'', oc_Usage = Some \<lparr>PromptTokens = 9, CompletionTokens = 2\<rparr>\<rparr>"
proof -
  have "ParseInt ''9'' = Some 9" "ParseInt ''2'' = Some 2" by code_simp+
  then show ?thesis
    by (simp add: demo_chunk_def dec_openai_chunk_def dec_openai_usage_def dec_struct_def
      field_def find_field_def dec_pointer_def dec_string_def dec_int_def demo_strings)
qed

lemma demo_usage: "captured (parse_text UpstreamOpenAI newStreamMeter demo_line) = (''gpt-4o'', 9, 2)"
proof -
  let ?p = "json_text demo_chunk"
  have c: "?p = CHR ''{'' # tl (butlast ?p) @ ''}''" "newline \<notin> set (''data: '' @ ?p)"
    by (simp_all add: demo_chunk_def quoted_def quote_def newline_def)
  then have l: "split_lines demo_line = ([''data: '' @ ?p], [])"
    unfolding demo_line_def by (metis append_assoc split_lines_line)
  have r: "TrimRight_cr (''data: '' @ ?p) = ''data: '' @ ?p"
    by (rule TrimRight_cr_id) (simp add: demo_chunk_def quoted_def carriage_def)
  have "hd ?p = CHR ''{''" "last ?p = CHR ''}''" "?p \<noteq> []" by (subst c(1); simp)+
  then have t: "TrimSpace ?p = ?p" by (intro TrimSpace_id) (simp_all add: visible_def)
  have "wf_json demo_chunk" "depth demo_chunk \<le> maxNestingDepth"
    by (simp_all add: demo_chunk_def valid_raw_plain plain_def quote_def backslash_def maxNestingDepth_def)
      (simp_all add: valid_number_def; code_simp)
  then have p: "parse ?p = Some demo_chunk" by (rule parse_json_text)
  have u: "Unmarshal dec_openai_chunk \<lparr>oc_Model = [], oc_Usage = None\<rparr> ?p =
      Some \<lparr>oc_Model = ''gpt-4o'', oc_Usage = Some \<lparr>PromptTokens = 9, CompletionTokens = 2\<rparr>\<rparr>"
    unfolding Unmarshal_def p by (simp add: demo_decoded)
  have "hd ?p \<noteq> hd ''[DONE]''" using c(1) by (simp add: \<open>hd ?p = CHR ''{''\<close>)
  then have "?p \<noteq> ''[DONE]''" by metis
  with t \<open>?p \<noteq> []\<close> have "parseLine UpstreamOpenAI s (''data: '' @ ?p) = parseOpenAI s ?p" for s
    by (rule parseLine_openai)
  then show ?thesis
    unfolding parse_text_def l fst_conv snd_conv list.map r foldl.simps
    by (simp add: parseOpenAI_def u captured_def newStreamMeter_def)
qed

theorem stream_is_transparent_witness:
  "\<exists>s. copy_stream UpstreamOpenAI 2 ([demo_read False (take 30 demo_line) None] @
      demo_read True (drop 30 demo_line) (Some (ReadErr ''context deadline exceeded'')) #
      replicate 60 (demo_read False ''late'' None)) newStreamMeter =
    (s, demo_line @ '': rein upstream timeout after 2 seconds'' @ [newline, newline], Some EOF) \<and>
    captured s = (''gpt-4o'', 9, 2)"
proof -
  have t: "buildTimeoutTrailer 2 = '': rein upstream timeout after 2 seconds'' @ [newline, newline]"
    by code_simp
  show ?thesis
    using stream_is_transparent [of "[demo_read False (take 30 demo_line) None]"
      "demo_read True (drop 30 demo_line) (Some (ReadErr ''context deadline exceeded''))"
      "ReadErr ''context deadline exceeded''" "replicate 60 (demo_read False ''late'' None)" 2 UpstreamOpenAI]
    by (simp add: demo_read_def t demo_usage body_text_def flip: append_assoc)
qed

end
