(* ===== verification/Url.thy ===== *)
theory Url
  imports Json
begin

text \<open>
  What the program uses of Go's \<open>net/url\<close> (of Go 1.25.0, which \<open>go.mod\<close> names): \<open>Parse\<close> with its
  scheme, authority, host, port and percent-decoding rules, and \<open>URL.Hostname\<close>. An error is \<open>None\<close>, since
  no caller looks at which one it is. A URL keeps its decoded path; the encoded form that Go remembers
  beside it (\<open>RawPath\<close>) is not modelled.
\<close>

record URL =
  Scheme :: string
  Opaque :: string
  User :: bool
  Host :: string
  url_Path :: string
  RawQuery :: string
  Fragment :: string

definition is_alpha :: "char \<Rightarrow> bool" where
  "is_alpha c = (97 \<le> byte c \<and> byte c \<le> 122 \<or> 65 \<le> byte c \<and> byte c \<le> 90)"

definition lower_char :: "char \<Rightarrow> char" where
  "lower_char c = (if 65 \<le> byte c \<and> byte c \<le> 90 then chr (byte c + 32) else c)"

text \<open>\<open>strings.ToLower\<close> on ASCII letters.\<close>

definition ToLower :: "string \<Rightarrow> string" where
  "ToLower s = map lower_char s"

text \<open>\<open>strings.Cut(s, sep)\<close> for a one-byte separator: before, after and whether it was found.\<close>

definition Cut :: "char \<Rightarrow> string \<Rightarrow> string \<times> string \<times> bool" where
  "Cut c s = (case dropWhile (\<lambda>d. d \<noteq> c) s of [] \<Rightarrow> (s, [], False)
     | _ # r \<Rightarrow> (takeWhile (\<lambda>d. d \<noteq> c) s, r, True))"

text \<open>The part after the last occurrence of a byte and the part before it, \<open>None\<close> where there is none.\<close>

definition last_cut :: "char \<Rightarrow> string \<Rightarrow> (string \<times> string) option" where
  "last_cut c s = (case Cut c (rev s) of (a, b, found) \<Rightarrow> if found then Some (rev b, rev a) else None)"

section \<open>Percent-decoding\<close>

datatype url_part = PathPart | FragmentPart | UserPart | HostPart | ZonePart

text \<open>\<open>shouldEscape\<close> in a host or a zone.\<close>

definition host_char :: "char \<Rightarrow> bool" where
  "host_char c = (is_alpha c \<or> is_dig c \<or> c \<in> set (quote # ''!$&()*+,;=:[]<>-_.~'' @ [chr 39]))"

fun unescape_url :: "url_part \<Rightarrow> string \<Rightarrow> string option" where
  "unescape_url m [] = Some []"
| "unescape_url m (c # cs) =
     (if c = CHR ''%'' then
        (case cs of a # b # r \<Rightarrow>
           (case (hex_val a, hex_val b) of
              (Some x, Some y) \<Rightarrow>
                if m = HostPart \<and> x < 8 \<and> (a, b) \<noteq> (CHR ''2'', CHR ''5'') then None
                else if m = ZonePart \<and> (a, b) \<noteq> (CHR ''2'', CHR ''5'') \<and> x * 16 + y \<noteq> 32 \<and>
                  \<not> host_char (chr (x * 16 + y)) then None
                else map_option (Cons (chr (x * 16 + y))) (unescape_url m r)
            | _ \<Rightarrow> None)
         | _ \<Rightarrow> None)
      else if (m = HostPart \<or> m = ZonePart) \<and> byte c < 0x80 \<and> \<not> host_char c then None
      else map_option (Cons c) (unescape_url m cs))"

section \<open>Parsing\<close>

text \<open>\<open>getScheme\<close>: the scheme, empty where there is none, and the rest.\<close>

definition scheme_char :: "char \<Rightarrow> bool" where
  "scheme_char c = (is_alpha c \<or> is_dig c \<or> c \<in> set ''+-.'')"

definition getScheme :: "string \<Rightarrow> (string \<times> string) option" where
  "getScheme s = (case dropWhile scheme_char s of
     c # r \<Rightarrow> if c = CHR '':'' then
         (if r = tl s then None
          else if is_alpha (hd s) then Some (takeWhile scheme_char s, r) else Some ([], s))
       else Some ([], s)
   | [] \<Rightarrow> Some ([], s))"

definition validOptionalPort :: "string \<Rightarrow> bool" where
  "validOptionalPort p = (case p of [] \<Rightarrow> True | c # ds \<Rightarrow> c = CHR '':'' \<and> list_all is_dig ds)"

text \<open>The first occurrence of \<open>%25\<close>.\<close>

fun zone_split :: "string \<Rightarrow> (string \<times> string) option" where
  "zone_split [] = None"
| "zone_split (c # cs) = (if HasPrefix (c # cs) ''%25'' then Some ([], c # cs)
     else map_option (\<lambda>(a, b). (c # a, b)) (zone_split cs))"

definition append3 :: "string option \<Rightarrow> string option \<Rightarrow> string option \<Rightarrow> string option" where
  "append3 x y z = (case (x, y, z) of (Some a, Some b, Some c) \<Rightarrow> Some (a @ b @ c) | _ \<Rightarrow> None)"

definition parseHost :: "string \<Rightarrow> string option" where
  "parseHost h =
     (if HasPrefix h ''['' then
        (case last_cut (CHR '']'') h of None \<Rightarrow> None
         | Some (inside, port) \<Rightarrow>
             if \<not> validOptionalPort port then None
             else (case zone_split inside of
                 Some (ip, zone) \<Rightarrow>
                   append3 (unescape_url HostPart ip) (unescape_url ZonePart zone) (unescape_url HostPart ('']'' @ port))
               | None \<Rightarrow> unescape_url HostPart h))
      else (case last_cut (CHR '':'') h of
          Some (_, port) \<Rightarrow> if validOptionalPort (CHR '':'' # port) then unescape_url HostPart h else None
        | None \<Rightarrow> unescape_url HostPart h))"

definition user_char :: "char \<Rightarrow> bool" where
  "user_char c = (is_alpha c \<or> is_dig c \<or> c \<in> set (''-._:~!$&()*+,;=%@'' @ [chr 39]))"

text \<open>Whether there is user information, and the host.\<close>

definition parseAuthority :: "string \<Rightarrow> (bool \<times> string) option" where
  "parseAuthority a = (case last_cut (CHR ''@'') a of
     None \<Rightarrow> map_option (Pair False) (parseHost a)
   | Some (userinfo, h) \<Rightarrow> (case parseHost h of None \<Rightarrow> None | Some host \<Rightarrow>
       if \<not> list_all user_char userinfo then None
       else case Cut (CHR '':'') userinfo of (name, password, _) \<Rightarrow>
         (if unescape_url UserPart name = None \<or> unescape_url UserPart password = None then None
          else Some (True, host))))"

definition control_byte :: "char \<Rightarrow> bool" where
  "control_byte c = (byte c < 32 \<or> byte c = 127)"

definition empty_URL :: URL where
  "empty_URL = \<lparr>Scheme = [], Opaque = [], User = False, Host = [], url_Path = [], RawQuery = [], Fragment = []\<rparr>"

text \<open>A query that is a single question mark at the end is dropped.\<close>

definition cut_query :: "string \<Rightarrow> string \<times> string" where
  "cut_query s = (case Cut (CHR ''?'') s of (a, b, _) \<Rightarrow> (a, b))"

definition set_path :: "URL \<Rightarrow> string \<Rightarrow> URL option" where
  "set_path u s = map_option (\<lambda>p. u\<lparr>url_Path := p\<rparr>) (unescape_url PathPart s)"

definition parse_rest :: "URL \<Rightarrow> string \<Rightarrow> URL option" where
  "parse_rest u rest =
     (if \<not> HasPrefix rest ''/'' \<and> Scheme u \<noteq> [] then Some (u\<lparr>Opaque := rest\<rparr>)
      else if \<not> HasPrefix rest ''/'' \<and> CHR '':'' \<in> set (fst (Cut (CHR ''/'') rest)) then None
      else if (Scheme u \<noteq> [] \<or> \<not> HasPrefix rest ''///'') \<and> HasPrefix rest ''//'' then
        (let authority = takeWhile (\<lambda>c. c \<noteq> CHR ''/'') (drop 2 rest);
             path = dropWhile (\<lambda>c. c \<noteq> CHR ''/'') (drop 2 rest)
         in case parseAuthority authority of None \<Rightarrow> None
            | Some (user, host) \<Rightarrow> set_path (u\<lparr>User := user, Host := host\<rparr>) path)
      else set_path u rest)"

definition parse_url :: "string \<Rightarrow> URL option" where
  "parse_url s =
     (if list_ex control_byte s then None
      else if s = ''*'' then Some (empty_URL\<lparr>url_Path := s\<rparr>)
      else case getScheme s of None \<Rightarrow> None
        | Some (scheme, rest) \<Rightarrow> (case cut_query rest of (rest, query) \<Rightarrow>
            parse_rest (empty_URL\<lparr>Scheme := ToLower scheme, RawQuery := query\<rparr>) rest))"

definition url_Parse :: "string \<Rightarrow> URL option" where
  "url_Parse raw = (case Cut (CHR ''#'') raw of (s, frag, _) \<Rightarrow>
     (case parse_url s of None \<Rightarrow> None
      | Some u \<Rightarrow> if frag = [] then Some u
          else map_option (\<lambda>f. u\<lparr>Fragment := f\<rparr>) (unescape_url FragmentPart frag)))"

text \<open>\<open>Hostname\<close>: the host without a valid port and without brackets.\<close>

definition Hostname :: "URL \<Rightarrow> string" where
  "Hostname u = (let h = (case last_cut (CHR '':'') (Host u) of
         Some (a, port) \<Rightarrow> if validOptionalPort (CHR '':'' # port) then a else Host u
       | None \<Rightarrow> Host u)
     in if HasPrefix h ''['' \<and> h \<noteq> [] \<and> last h = CHR '']'' then butlast (tl h) else h)"

end
