(* ===== verification/Adapters.thy ===== *)
theory Adapters
  imports Stream Json_Any Url Pricing Meter Unknown_Model Proxy
begin

text \<open>
  \<open>internal/proxy/openai.go\<close>, \<open>anthropic.go\<close> and \<open>timeout.go\<close>: the two upstream adapters. Each rewrites
  the outbound request, reads the usage out of the response, and records what it cost. The wire is an
  argument: a body is the bytes it delivers and what reading it then fails with, if it does. The state of an adapter is
  the meter's, with the unknown-model logger; the price table is read from its holder once per recording.
  Log lines other than the unknown-model warnings are not modelled.
\<close>

section \<open>Headers, requests and responses\<close>

text \<open>\<open>http.Header\<close> maps canonical names to lists of values.\<close>

type_synonym header = "string \<Rightarrow> string list"

fun canonical :: "bool \<Rightarrow> string \<Rightarrow> string" where
  "canonical up [] = []"
| "canonical up (c # cs) =
     (if up \<and> 97 \<le> byte c \<and> byte c \<le> 122 then chr (byte c - 32)
      else if \<not> up \<and> 65 \<le> byte c \<and> byte c \<le> 90 then chr (byte c + 32) else c) # canonical (c = CHR ''-'') cs"

definition header_Get :: "header \<Rightarrow> string \<Rightarrow> string" where
  "header_Get h k = (case h (canonical True k) of [] \<Rightarrow> [] | v # _ \<Rightarrow> v)"

definition header_Set :: "header \<Rightarrow> string \<Rightarrow> string \<Rightarrow> header" where
  "header_Set h k v = h(canonical True k := [v])"

definition header_Del :: "header \<Rightarrow> string \<Rightarrow> header" where
  "header_Del h k = h(canonical True k := [])"

text \<open>What the round trip or the response can fail with, as far as \<open>errors.Is\<close> distinguishes it.\<close>

datatype upstream_error = DeadlineExceeded | OtherUpstream string

record body_source =
  bs_bytes :: string
  bs_err :: "upstream_error option"

record out_request =
  or_Method :: string
  or_URL :: URL
  or_Host :: string
  or_Header :: header
  or_ContentLength :: int
  or_Body :: "body_source option"

text \<open>\<open>ProxyRequest.SetURL\<close>: the target's scheme and host, the paths joined with one slash, the queries
  joined.\<close>

definition HasSuffix :: "string \<Rightarrow> string \<Rightarrow> bool" where
  "HasSuffix s p = HasPrefix (rev s) (rev p)"

definition singleJoiningSlash :: "string \<Rightarrow> string \<Rightarrow> string" where
  "singleJoiningSlash a b =
     (if HasSuffix a ''/'' \<and> HasPrefix b ''/'' then a @ tl b
      else if \<not> HasSuffix a ''/'' \<and> \<not> HasPrefix b ''/'' then a @ ''/'' @ b else a @ b)"

definition SetURL :: "URL \<Rightarrow> out_request \<Rightarrow> out_request" where
  "SetURL target r = r\<lparr>or_Host := [], or_URL := (or_URL r)\<lparr>Scheme := Scheme target, Host := Host target,
       url_Path := singleJoiningSlash (url_Path target) (url_Path (or_URL r)),
       RawQuery := (if RawQuery target = [] \<or> RawQuery (or_URL r) = [] then RawQuery target @ RawQuery (or_URL r)
         else RawQuery target @ ''&'' @ RawQuery (or_URL r))\<rparr>\<rparr>"

record response =
  rs_status :: i64
  rs_Header :: header
  rs_ContentLength :: int
  rs_Body :: body_source
  rs_metered :: bool

section \<open>The adapters\<close>

text \<open>What both adapters are built from; the OpenAI one also keeps the parsed base URL overrides, \<open>Some
  None\<close> where parsing one has failed. \<open>ad_record\<close> is \<open>Meter.Record\<close> of the meter, absent when it is nil.\<close>

record 's adapter_config =
  ad_base :: URL
  ad_record :: "('s \<Rightarrow> instant \<Rightarrow> string \<Rightarrow> f64 \<Rightarrow> 's \<times> meter_error option) option"

type_synonym baseURLCache = "string \<Rightarrow> URL option option"

definition adapter_base :: "string \<Rightarrow> URL option" where
  "adapter_base base = (case url_Parse base of None \<Rightarrow> None
     | Some u \<Rightarrow> if Scheme u = [] \<or> Host u = [] then None else Some u)"

definition NewOpenAI :: "string \<Rightarrow> ('s \<Rightarrow> instant \<Rightarrow> string \<Rightarrow> f64 \<Rightarrow> 's \<times> meter_error option) option \<Rightarrow>
    's adapter_config option" where
  "NewOpenAI base m = (case adapter_base base of None \<Rightarrow> None
     | Some u \<Rightarrow> Some \<lparr>ad_base = u, ad_record = m\<rparr>)"

definition NewAnthropic :: "string \<Rightarrow> ('s \<Rightarrow> instant \<Rightarrow> string \<Rightarrow> f64 \<Rightarrow> 's \<times> meter_error option) option \<Rightarrow>
    's adapter_config option" where
  "NewAnthropic base m = (case adapter_base base of None \<Rightarrow> None
     | Some u \<Rightarrow> Some \<lparr>ad_base = u, ad_record = m\<rparr>)"

subsection \<open>The outbound request\<close>

text \<open>\<open>LoadOrStore\<close> is one step, so two lookups never disagree; the result is the override or nil.\<close>

definition lookupOverrideURL :: "baseURLCache \<Rightarrow> string \<Rightarrow> baseURLCache \<times> URL option" where
  "lookupOverrideURL cache raw = (case cache raw of
     Some cached \<Rightarrow> (cache, cached)
   | None \<Rightarrow> (case url_Parse raw of
       None \<Rightarrow> (cache(raw \<mapsto> None), None)
     | Some parsed \<Rightarrow> if Scheme parsed = [] \<or> Host parsed = [] then (cache(raw \<mapsto> None), None)
         else (cache(raw \<mapsto> Some parsed), Some parsed)))"

definition maxBody :: nat where
  "maxBody = 2 ^ 20"

text \<open>\<open>io.ReadAll(io.LimitReader(body, maxBody))\<close>: after \<open>maxBody\<close> bytes the limit ends the reading before
  the body can fail.\<close>

definition read_limited :: "body_source \<Rightarrow> string \<times> bool" where
  "read_limited b = (if maxBody \<le> length (bs_bytes b) then (take maxBody (bs_bytes b), False)
     else (bs_bytes b, bs_err b \<noteq> None))"

definition NopCloser :: "string \<Rightarrow> body_source" where
  "NopCloser b = \<lparr>bs_bytes = b, bs_err = None\<rparr>"

definition replaceBody :: "out_request \<Rightarrow> string \<Rightarrow> out_request" where
  "replaceBody r b = r\<lparr>or_Body := Some (NopCloser b), or_ContentLength := int (length b),
     or_Header := header_Set (or_Header r) ''Content-Length'' (append_int 1 (int (length b)))\<rparr>"

text \<open>The body with \<open>stream_options.include_usage\<close> set, or \<open>None\<close> where the bytes go out as they were
  read. \<open>Marshal\<close> of a decoded value does not fail.\<close>

definition as_bool :: "gval option \<Rightarrow> bool" where
  "as_bool v = (case v of Some (VBool b) \<Rightarrow> b | _ \<Rightarrow> False)"

definition as_object :: "gval option \<Rightarrow> (string \<times> gval) list" where
  "as_object v = (case v of Some (VObj m) \<Rightarrow> m | _ \<Rightarrow> [])"

definition with_usage :: "string \<Rightarrow> string option" where
  "with_usage raw = (case Unmarshal_object raw of None \<Rightarrow> None | Some body \<Rightarrow>
     if \<not> as_bool (map_of body ''stream'') then None
     else let opts = as_object (map_of body ''stream_options'') in
       if map_of opts ''include_usage'' \<noteq> None then None
       else Some (Marshal (VObj (AList.update ''stream_options''
         (VObj (AList.update ''include_usage'' (VBool True) opts)) body))))"

definition injectStreamUsage :: "out_request \<Rightarrow> out_request" where
  "injectStreamUsage r = (case or_Body r of None \<Rightarrow> r | Some src \<Rightarrow>
     if or_Method r \<noteq> ''POST'' then r
     else if \<not> HasPrefix (header_Get (or_Header r) ''Content-Type'') ''application/json'' then r
     else let (raw, fails) = read_limited src in
       if fails \<or> raw = [] then r\<lparr>or_Body := Some (NopCloser raw)\<rparr>
       else case with_usage raw of None \<Rightarrow> replaceBody r raw | Some rewritten \<Rightarrow> replaceBody r rewritten)"

definition OpenAI_rewrite :: "'s adapter_config \<Rightarrow> baseURLCache \<Rightarrow> VirtualKey option \<Rightarrow> out_request \<Rightarrow>
    baseURLCache \<times> out_request" where
  "OpenAI_rewrite cfg cache vk r =
     (let (cache, target) = (case vk of
            Some k \<Rightarrow> if UpstreamBaseURL k \<noteq> [] then
                (case lookupOverrideURL cache (UpstreamBaseURL k) of
                   (cache, Some override) \<Rightarrow> (cache, override) | (cache, None) \<Rightarrow> (cache, ad_base cfg))
              else (cache, ad_base cfg)
          | None \<Rightarrow> (cache, ad_base cfg));
          r = (SetURL target r)\<lparr>or_Host := Host target\<rparr>;
          r = (case vk of Some k \<Rightarrow> r\<lparr>or_Header := header_Set (or_Header r) ''Authorization'' (''Bearer '' @ UpstreamKey k)\<rparr>
               | None \<Rightarrow> r)
      in (cache, if ad_record cfg \<noteq> None then injectStreamUsage r else r))"

definition Anthropic_rewrite :: "'s adapter_config \<Rightarrow> VirtualKey option \<Rightarrow> out_request \<Rightarrow> out_request" where
  "Anthropic_rewrite cfg vk r =
     (let r = (SetURL (ad_base cfg) r)\<lparr>or_Host := Host (ad_base cfg)\<rparr>;
          h = header_Del (or_Header r) ''Authorization'';
          h = (case vk of Some k \<Rightarrow> header_Set h ''x-api-key'' (UpstreamKey k) | None \<Rightarrow> h);
          h = (if header_Get h ''anthropic-version'' = [] then header_Set h ''anthropic-version'' ''2023-06-01'' else h)
      in r\<lparr>or_Header := h\<rparr>)"

subsection \<open>Spend\<close>

text \<open>\<open>recordSpend\<close> with the price table its holder has at that moment; the two adapters have the same
  code with their own provider name. A failed recording is logged only.\<close>

definition recordSpend :: "string \<Rightarrow> 's adapter_config \<Rightarrow> PricerHolder option \<Rightarrow> instant \<Rightarrow>
    's \<times> unknownModelLogger \<Rightarrow> string \<Rightarrow> string \<Rightarrow> i64 \<Rightarrow> i64 \<Rightarrow> 's \<times> unknownModelLogger" where
  "recordSpend provider cfg holder now st keyID model inputTokens outputTokens =
     (case (ad_record cfg, holder) of
        (Some rec, Some h) \<Rightarrow>
          (case holder_Load h of None \<Rightarrow> st
           | Some pricer \<Rightarrow>
               (case Pricer_Cost pricer provider model inputTokens outputTokens of
                  (cost, ok) \<Rightarrow>
                    if \<not> ok then (fst st, fst (Warn (snd st) now keyID model))
                    else (fst (rec (fst st) now keyID cost), snd st)))
      | _ \<Rightarrow> st)"

definition OpenAI_recordSpend :: "'s adapter_config \<Rightarrow> PricerHolder option \<Rightarrow> instant \<Rightarrow>
    's \<times> unknownModelLogger \<Rightarrow> string \<Rightarrow> string \<Rightarrow> i64 \<Rightarrow> i64 \<Rightarrow> 's \<times> unknownModelLogger" where
  "OpenAI_recordSpend = recordSpend UpstreamOpenAI"

definition Anthropic_recordSpend :: "'s adapter_config \<Rightarrow> PricerHolder option \<Rightarrow> instant \<Rightarrow>
    's \<times> unknownModelLogger \<Rightarrow> string \<Rightarrow> string \<Rightarrow> i64 \<Rightarrow> i64 \<Rightarrow> 's \<times> unknownModelLogger" where
  "Anthropic_recordSpend = recordSpend UpstreamAnthropic"

subsection \<open>The response\<close>

record openai_payload_usage =
  pu_PromptTokens :: i64
  pu_CompletionTokens :: i64
  pu_TotalTokens :: i64

record openai_payload =
  op_Model :: string
  op_Usage :: openai_payload_usage

record anthropic_payload =
  ap_ID :: string
  ap_Model :: string
  ap_Usage :: anthropic_usage

definition dec_openai_payload :: "openai_payload decoder" where
  "dec_openai_payload = dec_struct False
     [field ''model'' dec_string op_Model (\<lambda>x. op_Model_update (\<lambda>_. x)),
      field ''usage'' (dec_struct False
         [field ''prompt_tokens'' dec_int pu_PromptTokens (\<lambda>x. pu_PromptTokens_update (\<lambda>_. x)),
          field ''completion_tokens'' dec_int pu_CompletionTokens (\<lambda>x. pu_CompletionTokens_update (\<lambda>_. x)),
          field ''total_tokens'' dec_int pu_TotalTokens (\<lambda>x. pu_TotalTokens_update (\<lambda>_. x))])
        op_Usage (\<lambda>x. op_Usage_update (\<lambda>_. x))]"

definition openai_payload_zero :: openai_payload where
  "openai_payload_zero = \<lparr>op_Model = [], op_Usage = \<lparr>pu_PromptTokens = 0, pu_CompletionTokens = 0, pu_TotalTokens = 0\<rparr>\<rparr>"

definition dec_anthropic_payload :: "anthropic_payload decoder" where
  "dec_anthropic_payload = dec_struct False
     [field ''id'' dec_string ap_ID (\<lambda>x. ap_ID_update (\<lambda>_. x)),
      field ''model'' dec_string ap_Model (\<lambda>x. ap_Model_update (\<lambda>_. x)),
      field ''usage'' dec_anthropic_usage ap_Usage (\<lambda>x. ap_Usage_update (\<lambda>_. x))]"

definition anthropic_payload_zero :: anthropic_payload where
  "anthropic_payload_zero = \<lparr>ap_ID = [], ap_Model = [], ap_Usage = \<lparr>InputTokens = 0, OutputTokens = 0\<rparr>\<rparr>"

text \<open>\<open>wrapStream\<close>: the response with a stream meter on its body, for a request with a key.\<close>

definition wrapStream :: "'s adapter_config \<Rightarrow> PricerHolder option \<Rightarrow> VirtualKey option \<Rightarrow> response \<Rightarrow> response" where
  "wrapStream cfg holder vk resp =
     (if ad_record cfg = None \<or> holder = None then resp
      else case vk of None \<Rightarrow> resp | Some k \<Rightarrow> resp\<lparr>rs_metered := True\<rparr>)"

text \<open>The body read in full and served again from memory.\<close>

definition buffered :: "response \<Rightarrow> response" where
  "buffered resp = (let body = bs_bytes (rs_Body resp) in
     resp\<lparr>rs_Body := NopCloser body, rs_ContentLength := int (length body),
       rs_Header := header_Set (rs_Header resp) ''Content-Length'' (append_int 1 (int (length body)))\<rparr>)"

definition OpenAI_modifyResponse :: "'s adapter_config \<Rightarrow> PricerHolder option \<Rightarrow> instant \<Rightarrow> VirtualKey option \<Rightarrow>
    's \<times> unknownModelLogger \<Rightarrow> response \<Rightarrow> ('s \<times> unknownModelLogger) \<times> (upstream_error + response)" where
  "OpenAI_modifyResponse cfg holder now vk st resp =
     (let ct = header_Get (rs_Header resp) ''Content-Type'' in
      if HasPrefix ct ''text/event-stream'' then (st, Inr (wrapStream cfg holder vk resp))
      else if \<not> HasPrefix ct ''application/json'' then (st, Inr resp)
      else case bs_err (rs_Body resp) of Some err \<Rightarrow> (st, Inl err) | None \<Rightarrow>
        let body = bs_bytes (rs_Body resp); resp = buffered resp in
        if 400 \<le>s rs_status resp then (st, Inr resp)
        else case Unmarshal dec_openai_payload openai_payload_zero body of None \<Rightarrow> (st, Inr resp)
          | Some payload \<Rightarrow>
              if pu_TotalTokens (op_Usage payload) = 0 then (st, Inr resp)
              else (case vk of None \<Rightarrow> (st, Inr resp)
                | Some k \<Rightarrow> (OpenAI_recordSpend cfg holder now st (ID k) (op_Model payload)
                    (pu_PromptTokens (op_Usage payload)) (pu_CompletionTokens (op_Usage payload)), Inr resp)))"

definition Anthropic_modifyResponse :: "'s adapter_config \<Rightarrow> PricerHolder option \<Rightarrow> instant \<Rightarrow> VirtualKey option \<Rightarrow>
    's \<times> unknownModelLogger \<Rightarrow> response \<Rightarrow> ('s \<times> unknownModelLogger) \<times> (upstream_error + response)" where
  "Anthropic_modifyResponse cfg holder now vk st resp =
     (let ct = header_Get (rs_Header resp) ''Content-Type'' in
      if HasPrefix ct ''text/event-stream'' then (st, Inr (wrapStream cfg holder vk resp))
      else if \<not> HasPrefix ct ''application/json'' then (st, Inr resp)
      else case bs_err (rs_Body resp) of Some err \<Rightarrow> (st, Inl err) | None \<Rightarrow>
        let body = bs_bytes (rs_Body resp); resp = buffered resp in
        if 400 \<le>s rs_status resp then (st, Inr resp)
        else case Unmarshal dec_anthropic_payload anthropic_payload_zero body of None \<Rightarrow> (st, Inr resp)
          | Some payload \<Rightarrow>
              if InputTokens (ap_Usage payload) = 0 \<and> OutputTokens (ap_Usage payload) = 0 then (st, Inr resp)
              else (case vk of None \<Rightarrow> (st, Inr resp)
                | Some k \<Rightarrow> (Anthropic_recordSpend cfg holder now st (ID k) (ap_Model payload)
                    (InputTokens (ap_Usage payload)) (OutputTokens (ap_Usage payload)), Inr resp)))"

text \<open>A metered stream that is read by the client and then closed \<open>n\<close> times: the spend it records is what
  its meter reports.\<close>

definition stream_spend :: "string \<Rightarrow> 's adapter_config \<Rightarrow> PricerHolder option \<Rightarrow> instant \<Rightarrow> VirtualKey \<Rightarrow>
    's \<times> unknownModelLogger \<Rightarrow> nat \<Rightarrow> body_read list \<Rightarrow> 's \<times> unknownModelLogger" where
  "stream_spend upstream cfg holder now k st n reads =
     (let s = fst (copy_stream upstream (UpstreamTimeoutSeconds k) reads newStreamMeter) in
      foldl (\<lambda>st (model, i, out). recordSpend upstream cfg holder now st (ID k) model i out) st (close_calls n s))"

section \<open>Errors\<close>

definition CodeUpstreamTimeout :: string where "CodeUpstreamTimeout = ''upstream_timeout''"

definition isUpstreamTimeout :: "upstream_error \<Rightarrow> bool" where
  "isUpstreamTimeout e = (e = DeadlineExceeded)"

definition writeUpstreamTimeout :: "VirtualKey option \<Rightarrow> error_response" where
  "writeUpstreamTimeout vk =
     (let seconds = (case vk of Some k \<Rightarrow> UpstreamTimeoutSeconds k | None \<Rightarrow> 0);
          msg = (if 0 <s seconds then ''upstream request timed out after '' @ Itoa seconds @ '' seconds''
            else ''upstream request timed out'')
      in WriteError (Some ''1'') 504 CodeUpstreamTimeout msg)"

text \<open>What an error handler answers: the JSON envelope, or a plain text with a status.\<close>

datatype handler_response = Envelope error_response | PlainError nat string

definition OpenAI_errorHandler :: "VirtualKey option \<Rightarrow> upstream_error \<Rightarrow> handler_response" where
  "OpenAI_errorHandler vk e = (if isUpstreamTimeout e then Envelope (writeUpstreamTimeout vk)
     else PlainError 502 ''upstream error'')"

definition Anthropic_errorHandler :: "VirtualKey option \<Rightarrow> upstream_error \<Rightarrow> handler_response" where
  "Anthropic_errorHandler vk e = (if isUpstreamTimeout e then Envelope (writeUpstreamTimeout vk)
     else PlainError 502 ''upstream error'')"

section \<open>An adapter as a handler\<close>

text \<open>\<open>httputil.ReverseProxy\<close> with these hooks, over a network that answers a request with an error or a
  response. A handler's state is the meter's, the logger and the cache of base URLs.\<close>

definition OpenAI_ServeHTTP :: "'s adapter_config \<Rightarrow> PricerHolder option \<Rightarrow> instant \<Rightarrow>
    (out_request \<Rightarrow> upstream_error + response) \<Rightarrow> VirtualKey option \<Rightarrow> baseURLCache \<Rightarrow> 's \<times> unknownModelLogger \<Rightarrow>
    out_request \<Rightarrow> baseURLCache \<times> ('s \<times> unknownModelLogger) \<times> (handler_response + response)" where
  "OpenAI_ServeHTTP cfg holder now network vk cache st r =
     (let (cache, out) = OpenAI_rewrite cfg cache vk r in
      case network out of Inl e \<Rightarrow> (cache, st, Inl (OpenAI_errorHandler vk e))
      | Inr resp \<Rightarrow> (case OpenAI_modifyResponse cfg holder now vk st resp of
          (st, Inl e) \<Rightarrow> (cache, st, Inl (OpenAI_errorHandler vk e))
        | (st, Inr resp) \<Rightarrow> (cache, st, Inr resp)))"

definition Anthropic_ServeHTTP :: "'s adapter_config \<Rightarrow> PricerHolder option \<Rightarrow> instant \<Rightarrow>
    (out_request \<Rightarrow> upstream_error + response) \<Rightarrow> VirtualKey option \<Rightarrow> 's \<times> unknownModelLogger \<Rightarrow>
    out_request \<Rightarrow> ('s \<times> unknownModelLogger) \<times> (handler_response + response)" where
  "Anthropic_ServeHTTP cfg holder now network vk st r =
     (case network (Anthropic_rewrite cfg vk r) of Inl e \<Rightarrow> (st, Inl (Anthropic_errorHandler vk e))
      | Inr resp \<Rightarrow> (case Anthropic_modifyResponse cfg holder now vk st resp of
          (st, Inl e) \<Rightarrow> (st, Inl (Anthropic_errorHandler vk e))
        | (st, Inr resp) \<Rightarrow> (st, Inr resp)))"

end
