(* ===== verification/Adapter_Facts.thy ===== *)
theory Adapter_Facts
  imports Adapters
begin

text \<open>
  What the adapters guarantee: the client's rein token stays here and the upstream key replaces it; a
  request goes where its key says, with or without the cache; a streaming request asks for its usage and is
  otherwise unchanged; and every response is paid for as its usage says, streamed or not.
\<close>

section \<open>Credentials and routing\<close>

declare canonical.simps(2) [simp del]

lemma canonical_names [simp]:
  "canonical True ''Authorization'' = ''Authorization''" "canonical True ''x-api-key'' = ''X-Api-Key''"
  "canonical True ''anthropic-version'' = ''Anthropic-Version''" "canonical True ''Content-Length'' = ''Content-Length''"
  "canonical True ''Content-Type'' = ''Content-Type''"
  by code_simp+

text \<open>What the override of a key stands for, without the cache.\<close>

definition override_of :: "string \<Rightarrow> URL option" where
  "override_of raw = (case url_Parse raw of None \<Rightarrow> None
     | Some u \<Rightarrow> if Scheme u = [] \<or> Host u = [] then None else Some u)"

definition target_of :: "URL \<Rightarrow> VirtualKey option \<Rightarrow> URL" where
  "target_of base vk = (case vk of None \<Rightarrow> base
     | Some k \<Rightarrow> if UpstreamBaseURL k = [] then base else case override_of (UpstreamBaseURL k) of None \<Rightarrow> base | Some u \<Rightarrow> u)"

definition cache_ok :: "baseURLCache \<Rightarrow> bool" where
  "cache_ok cache \<longleftrightarrow> (\<forall>raw v. cache raw = Some v \<longrightarrow> v = override_of raw)"

lemma lookupOverrideURL_alt:
  "lookupOverrideURL cache raw = (case cache raw of Some v \<Rightarrow> (cache, v)
     | None \<Rightarrow> (cache(raw \<mapsto> override_of raw), override_of raw))"
  by (simp add: lookupOverrideURL_def override_of_def split: option.split)

lemma lookup_cached: "cache_ok cache \<Longrightarrow> lookupOverrideURL cache raw = (cache', v) \<Longrightarrow> cache_ok cache' \<and> v = override_of raw"
  unfolding lookupOverrideURL_alt cache_ok_def by (cases "cache raw") (auto split: if_splits)

lemma inject_shape:
  "injectStreamUsage r = r \<or> (\<exists>b. injectStreamUsage r = r\<lparr>or_Body := Some (NopCloser b)\<rparr>) \<or>
   (\<exists>b. injectStreamUsage r = replaceBody r b)"
proof (cases "or_Body r")
  case (Some src)
  obtain raw fails where l: "read_limited src = (raw, fails)" by fastforce
  have "(\<exists>b. (case with_usage raw of None \<Rightarrow> replaceBody r raw | Some x \<Rightarrow> replaceBody r x) = replaceBody r b)"
    by (cases "with_usage raw") auto
  then show ?thesis using Some l by (simp add: injectStreamUsage_def) blast
qed (simp add: injectStreamUsage_def)

lemma injected_fields:
  "or_Host (injectStreamUsage r) = or_Host r" "or_URL (injectStreamUsage r) = or_URL r"
  "or_Method (injectStreamUsage r) = or_Method r"
  "hk \<noteq> ''Content-Length'' \<Longrightarrow> or_Header (injectStreamUsage r) hk = or_Header r hk"
  using inject_shape [of r] by (auto simp: replaceBody_def header_Set_def)

lemma OpenAI_rewrite_alt:
  "OpenAI_rewrite cfg cache vk r =
    (let cache_target = (case vk of None \<Rightarrow> (cache, ad_base cfg)
            | Some k \<Rightarrow> if UpstreamBaseURL k = [] then (cache, ad_base cfg)
                else apsnd (\<lambda>v. case v of None \<Rightarrow> ad_base cfg | Some u \<Rightarrow> u) (lookupOverrideURL cache (UpstreamBaseURL k)));
         target = snd cache_target; q = (SetURL target r)\<lparr>or_Host := Host target\<rparr>;
         q = (case vk of None \<Rightarrow> q
           | Some k \<Rightarrow> q\<lparr>or_Header := header_Set (or_Header q) ''Authorization'' (''Bearer '' @ UpstreamKey k)\<rparr>)
     in (fst cache_target, if ad_record cfg \<noteq> None then injectStreamUsage q else q))"
  unfolding OpenAI_rewrite_def
  by (cases vk) (auto simp: Let_def apsnd_def map_prod_def split: prod.split option.split)

lemma OpenAI_rewrite_header:
  assumes "hk \<noteq> ''Content-Length''"
  shows "or_Header (snd (OpenAI_rewrite cfg cache (Some k) r)) hk =
    (if hk = ''Authorization'' then [''Bearer '' @ UpstreamKey k] else or_Header r hk)"
  using assms by (simp add: OpenAI_rewrite_alt Let_def injected_fields SetURL_def header_Set_def)

lemma OpenAI_rewrite_target:
  assumes "cache_ok cache"
  shows "cache_ok (fst (OpenAI_rewrite cfg cache vk r)) \<and>
    or_Host (snd (OpenAI_rewrite cfg cache vk r)) = Host (target_of (ad_base cfg) vk) \<and>
    or_URL (snd (OpenAI_rewrite cfg cache vk r)) = or_URL (SetURL (target_of (ad_base cfg) vk) r)"
proof (cases vk)
  case None
  then show ?thesis
    using assms by (simp add: OpenAI_rewrite_alt Let_def injected_fields SetURL_def target_of_def)
next
  case (Some k)
  obtain c v where l: "lookupOverrideURL cache (UpstreamBaseURL k) = (c, v)" by fastforce
  from lookup_cached [OF assms l] have "cache_ok c" "v = override_of (UpstreamBaseURL k)" by simp_all
  then show ?thesis
    using Some assms l
    by (cases "UpstreamBaseURL k = []") (simp_all add: OpenAI_rewrite_alt Let_def injected_fields SetURL_def target_of_def)
qed

lemma header_simps:
  "header_Get h ''anthropic-version'' = (case h ''Anthropic-Version'' of [] \<Rightarrow> [] | v # _ \<Rightarrow> v)"
  "header_Set h ''anthropic-version'' v = h(''Anthropic-Version'' := [v])"
  "header_Set h ''x-api-key'' v = h(''X-Api-Key'' := [v])" "header_Del h ''Authorization'' = h(''Authorization'' := [])"
  by (simp_all add: header_Get_def header_Set_def header_Del_def)

lemma Anthropic_rewrite_fields:
  "or_Host (Anthropic_rewrite cfg vk r) = Host (ad_base cfg)"
  "or_URL (Anthropic_rewrite cfg vk r) = or_URL (SetURL (ad_base cfg) r)"
  by (simp_all add: Anthropic_rewrite_def Let_def)

lemma Anthropic_rewrite_header:
  "or_Header (Anthropic_rewrite cfg (Some k) r) hk =
    (if hk = ''Authorization'' then [] else if hk = ''X-Api-Key'' then [UpstreamKey k]
     else if hk = ''Anthropic-Version'' \<and> (or_Header r hk = [] \<or> hd (or_Header r hk) = []) then [''2023-06-01'']
     else or_Header r hk)"
proof -
  have "or_Header (SetURL u r) = or_Header r" for u by (simp add: SetURL_def)
  then show ?thesis
    by (cases "or_Header r ''Anthropic-Version''") (simp_all add: Anthropic_rewrite_def Let_def header_simps)
qed

text \<open>C30: A client's credential never reaches the provider. For a key, the OpenAI adapter sends the key's
  upstream secret as the only \<open>Authorization\<close> value and leaves every other header but the content length
  alone; the Anthropic adapter removes \<open>Authorization\<close>, sends the secret as the only \<open>x-api-key\<close>, and
  otherwise only fills in a missing version.\<close>

theorem credentials_are_swapped:
  "(or_Header (snd (OpenAI_rewrite cfg cache (Some k) r)))(''Content-Length'' := []) =
     (or_Header r)(''Authorization'' := [''Bearer '' @ UpstreamKey k], ''Content-Length'' := []) \<and>
   or_Header (Anthropic_rewrite cfg (Some k) r) =
     (let h = (or_Header r)(''Authorization'' := [], ''X-Api-Key'' := [UpstreamKey k]) in
      if header_Get h ''anthropic-version'' = [] then h(''Anthropic-Version'' := [''2023-06-01'']) else h)"
  by (rule conjI; rule ext)
    (simp_all add: OpenAI_rewrite_header Anthropic_rewrite_header header_Get_def Let_def split: list.split)

text \<open>The cache after a history of requests.\<close>

definition cache_after :: "'s adapter_config \<Rightarrow> (VirtualKey option \<times> out_request) list \<Rightarrow> baseURLCache" where
  "cache_after cfg hist = foldl (\<lambda>c (vk, r). fst (OpenAI_rewrite cfg c vk r)) (\<lambda>_. None) hist"

lemma cache_after_ok: "cache_ok (cache_after cfg hist)"
proof -
  have "cache_ok c \<Longrightarrow> cache_ok (foldl (\<lambda>c (vk, r). fst (OpenAI_rewrite cfg c vk r)) c hist)" for c
  proof (induction hist arbitrary: c)
    case (Cons q hist)
    then show ?case by (cases q) (simp add: OpenAI_rewrite_target)
  qed simp
  from this [of "\<lambda>_. None"] show ?thesis by (simp add: cache_after_def cache_ok_def)
qed

text \<open>Whatever has been requested before, a request goes where its key says now: to the key's own base
  URL when it has one that parses with a scheme and a host, and to the global one otherwise. The cache of
  parsed URLs, failures included, never changes a destination. An Anthropic request always goes to the
  global base.\<close>

theorem routing_ignores_history:
  "let out = snd (OpenAI_rewrite cfg (cache_after cfg hist) vk r); target = target_of (ad_base cfg) vk in
     or_Host out = Host target \<and> or_URL out = or_URL (SetURL target r) \<and>
     or_Host (Anthropic_rewrite cfg vk r) = Host (ad_base cfg) \<and>
     or_URL (Anthropic_rewrite cfg vk r) = or_URL (SetURL (ad_base cfg) r)"
  using OpenAI_rewrite_target [OF cache_after_ok [of cfg hist], of cfg vk r]
  by (simp add: Let_def Anthropic_rewrite_fields)

section \<open>The body of a streaming request\<close>

lemma map_of_sorted:
  assumes "distinct (map fst m)"
  shows "map_of (map (\<lambda>p. (fst p, f (snd p))) (sort_key fst m)) k = map_option f (map_of m k)"
proof -
  have "map_of (map (\<lambda>p. (fst p, f (snd p))) xs) k = map_option f (map_of xs k)" for xs by (induction xs) auto
  moreover have "map_of (sort_key fst m) = map_of m"
    using assms by (intro map_of_inject_set [THEN iffD2]) (simp_all add: distinct_map inj_on_def)
  ultimately show ?thesis by simp
qed

lemma Unmarshal_object_wf:
  assumes "Unmarshal_object s = Some m"
  shows "wf_gval (VObj m) \<and> depth (json_of (VObj m)) \<le> maxNestingDepth"
proof (cases "parse s")
  case (Some j)
  have nil: "depth (json_of (VObj [])) = 1" by simp
  show ?thesis
  proof (cases "j = JNull")
    case True
    then show ?thesis using assms Some nil by (simp add: Unmarshal_object_def maxNestingDepth_def)
  next
    case False
    then have "any_of j = Some (VObj m)"
      using assms Some by (auto simp: Unmarshal_object_def split: json.splits option.splits gval.splits)
    then show ?thesis using any_of_wf any_of_depth parse_depth [OF Some] le_trans by blast
  qed
qed (use assms in \<open>simp add: Unmarshal_object_def\<close>)

lemma update_member: "q \<in> set (AList.update k v m) \<Longrightarrow> q = (k, v) \<or> q \<in> set m"
  by (induction m) (auto split: if_splits)

lemma depth_object: "depth (json_of (VObj m)) \<le> Suc n \<longleftrightarrow> (\<forall>p \<in> set m. depth (json_of (snd p)) \<le> n)"
  by auto

lemma depth_update:
  "depth (json_of (VObj m)) \<le> Suc n \<Longrightarrow> depth (json_of v) \<le> n \<Longrightarrow>
    depth (json_of (VObj (AList.update k v m))) \<le> Suc n"
  unfolding depth_object by (metis update_member snd_conv)

lemma update_wf:
  assumes "wf_gval (VObj m)" "valid_utf8 k" "wf_gval v"
  shows "wf_gval (VObj (AList.update k v m))"
  using assms unfolding wf_gval.simps by (metis update_member fst_conv snd_conv distinct_update)

lemma literal_keys [simp]: "valid_utf8 ''stream_options''" "valid_utf8 ''include_usage''"
  by code_simp+

text \<open>The object a streaming request should carry: the usage asked for, every other member kept.\<close>

definition asks_for_usage :: "(string \<times> gval) list \<Rightarrow> (string \<times> gval) list" where
  "asks_for_usage body = AList.update ''stream_options''
     (VObj (AList.update ''include_usage'' (VBool True) (as_object (map_of body ''stream_options'')))) body"

definition wants_usage :: "(string \<times> gval) list \<Rightarrow> bool" where
  "wants_usage body \<longleftrightarrow> map_of body ''stream'' = Some (VBool True) \<and>
     map_of (as_object (map_of body ''stream_options'')) ''include_usage'' = None"

lemma with_usage_alt:
  "with_usage raw = (case Unmarshal_object raw of None \<Rightarrow> None
     | Some body \<Rightarrow> if wants_usage body then Some (Marshal (VObj (asks_for_usage body))) else None)"
proof -
  have "as_bool v \<longleftrightarrow> v = Some (VBool True)" for v by (auto simp: as_bool_def split: option.splits gval.splits)
  then show ?thesis
    by (simp add: with_usage_def wants_usage_def asks_for_usage_def Let_def split: option.split)
qed

lemma as_object_cases: "as_object (map_of m k) = [] \<or> (k, VObj (as_object (map_of m k))) \<in> set m"
  by (auto simp: as_object_def dest: map_of_SomeD split: option.splits gval.splits)

lemma asks_for_usage_wf:
  assumes "wf_gval (VObj m)" "depth (json_of (VObj m)) \<le> maxNestingDepth"
  shows "wf_gval (VObj (asks_for_usage m))" "depth (json_of (VObj (asks_for_usage m))) \<le> maxNestingDepth"
proof -
  define opts where "opts = as_object (map_of m ''stream_options'')"
  obtain n where deep: "maxNestingDepth = Suc (Suc n)"
    using that [of 9998] by (simp add: maxNestingDepth_def)
  consider "opts = []" | "(''stream_options'', VObj opts) \<in> set m" using as_object_cases opts_def by metis
  then have "wf_gval (VObj opts) \<and> depth (json_of (VObj opts)) \<le> Suc n"
  proof cases
    case 2
    from assms(2) have "\<forall>p \<in> set m. depth (json_of (snd p)) \<le> Suc n" unfolding deep depth_object .
    moreover from assms(1) have "\<forall>p \<in> set m. wf_gval (snd p)" by simp
    ultimately show ?thesis using 2 by (metis snd_conv)
  qed simp
  then have "wf_gval (VObj (AList.update ''include_usage'' (VBool True) opts))"
      "depth (json_of (VObj (AList.update ''include_usage'' (VBool True) opts))) \<le> Suc n"
    by (auto intro!: update_wf depth_update simp del: wf_gval.simps(4) json_of.simps(6))
  with assms show "wf_gval (VObj (asks_for_usage m))" "depth (json_of (VObj (asks_for_usage m))) \<le> maxNestingDepth"
    unfolding asks_for_usage_def deep opts_def [symmetric]
    by (auto intro!: update_wf depth_update simp del: wf_gval.simps(4) json_of.simps(6))
qed

lemma NopCloser_eq [simp]: "NopCloser a = NopCloser b \<longleftrightarrow> a = b"
  by (simp add: NopCloser_def)

lemma read_whole: "bs_err src = None \<Longrightarrow> length (bs_bytes src) < maxBody \<Longrightarrow> read_limited src = (bs_bytes src, False)"
  by (simp add: read_limited_def)

text \<open>C29: A streaming request asks for its usage and is otherwise unchanged. A JSON object below the size
  limit that streams and does not mention \<open>include_usage\<close> leaves with that option set, every other member
  decoding to the value it had, however deep, and the content length that of the new bytes; any other object leaves byte for byte
  as it came.\<close>

theorem streaming_request_asks_for_usage:
  assumes "or_Method r = ''POST''" "HasPrefix (header_Get (or_Header r) ''Content-Type'') ''application/json''"
    "or_Body r = Some src" "bs_err src = None" "length (bs_bytes src) < maxBody"
    "Unmarshal_object (bs_bytes src) = Some body"
  shows "\<exists>b sent. or_Body (injectStreamUsage r) = Some (NopCloser b) \<and>
    or_ContentLength (injectStreamUsage r) = int (length b) \<and> Unmarshal_object b = Some sent \<and>
    (if wants_usage body then \<forall>k. map_of sent k = map_option sorted_gval (map_of (asks_for_usage body) k)
     else b = bs_bytes src)"
proof -
  have full: "bs_bytes src \<noteq> []"
  proof
    assume "bs_bytes src = []"
    then have "parse (bs_bytes src) = None" by (simp add: parse_def run.simps [of _ _ "[]"] next_token_def token_at_def)
    with assms(6) show False by (simp add: Unmarshal_object_def)
  qed
  have r: "injectStreamUsage r = (case with_usage (bs_bytes src) of None \<Rightarrow> replaceBody r (bs_bytes src) | Some x \<Rightarrow> replaceBody r x)"
    using assms(1-3) full read_whole [OF assms(4,5)] by (simp add: injectStreamUsage_def)
  from Unmarshal_object_wf [OF assms(6)] have ok: "wf_gval (VObj (asks_for_usage body))"
      "depth (json_of (VObj (asks_for_usage body))) \<le> maxNestingDepth"
    by (simp_all only: asks_for_usage_wf)
  then have "distinct (map fst (asks_for_usage body))" by simp
  from decode_Marshal [OF ok] map_of_sorted [OF this, of sorted_gval] assms(6) show ?thesis
    by (cases "wants_usage body") (simp_all add: r with_usage_alt replaceBody_def)
qed

text \<open>A small streaming request.\<close>

definition demo_json :: json where
  "demo_json = JObj [(''model'', JStr ''gpt-4o''), (''stream'', JBool True)]"

definition demo_URL :: URL where
  "demo_URL = \<lparr>Scheme = ''https'', Opaque = [], User = False, Host = ''up.example'', url_Path = ''/v1'',
     RawQuery = [], Fragment = []\<rparr>"

definition demo_request :: "string \<Rightarrow> out_request" where
  "demo_request b = \<lparr>or_Method = ''POST'', or_URL = demo_URL, or_Host = ''rein.example'',
     or_Header = (\<lambda>_. [])(''Content-Type'' := [''application/json'']), or_ContentLength = int (length b),
     or_Body = Some (NopCloser b)\<rparr>"

lemma demo_request_json:
  "HasPrefix (header_Get (or_Header (demo_request b)) ''Content-Type'') ''application/json''"
  by (simp add: demo_request_def header_Get_def HasPrefix_def)

lemma demo_json_parse: "Unmarshal_object (json_text demo_json) = Some [(''model'', VStr ''gpt-4o''), (''stream'', VBool True)]"
proof -
  have "list_all plain ''model''" "list_all plain ''gpt-4o''" "list_all plain ''stream''"
    by (simp_all add: plain_def quote_def backslash_def)
  then have u: "unquote ''model'' = ''model''" "unquote ''gpt-4o'' = ''gpt-4o''" "unquote ''stream'' = ''stream''"
      and "wf_json demo_json" "depth demo_json \<le> maxNestingDepth"
    by (simp_all add: demo_json_def valid_raw_plain maxNestingDepth_def)
  from parse_json_text [OF this(4,5)] show ?thesis
    by (simp add: Unmarshal_object_def u demo_json_def set_all_def)
qed

theorem streaming_request_asks_for_usage_witness:
  "\<exists>b sent. or_Body (injectStreamUsage (demo_request (json_text demo_json))) = Some (NopCloser b) \<and>
    or_ContentLength (injectStreamUsage (demo_request (json_text demo_json))) = int (length b) \<and>
    Unmarshal_object b = Some sent \<and> map_of sent ''stream'' = Some (VBool True) \<and>
    map_of sent ''model'' = Some (VStr ''gpt-4o'') \<and>
    map_of sent ''stream_options'' = Some (VObj [(''include_usage'', VBool True)])"
proof -
  let ?r = "demo_request (json_text demo_json)"
  have short: "length (json_text demo_json) < maxBody"
    by (simp add: demo_json_def quoted_def maxBody_def)
  have r: "or_Method ?r = ''POST''" "or_Body ?r = Some (NopCloser (json_text demo_json))"
    by (simp_all add: demo_request_def)
  have src: "bs_err (NopCloser s) = None" "bs_bytes (NopCloser s) = s" for s by (simp_all add: NopCloser_def)
  let ?m = "[(''model'', VStr ''gpt-4o''), (''stream'', VBool True)]"
  have m: "wants_usage ?m" "asks_for_usage ?m = ?m @ [(''stream_options'', VObj [(''include_usage'', VBool True)])]"
    by (simp_all add: wants_usage_def asks_for_usage_def as_object_def)
  have f: "map_of (?m @ [(''stream_options'', v)]) ''stream'' = Some (VBool True)"
      "map_of (?m @ [(''stream_options'', v)]) ''model'' = Some (VStr ''gpt-4o'')"
      "map_of (?m @ [(''stream_options'', v)]) ''stream_options'' = Some v" for v
    by simp_all
  have o: "sorted_gval (VObj [(''include_usage'', VBool True)]) = VObj [(''include_usage'', VBool True)]"
      "sorted_gval (VBool True) = VBool True" "sorted_gval (VStr s) = VStr s" for s by simp_all
  from streaming_request_asks_for_usage [OF r(1) demo_request_json r(2), unfolded src, OF refl short demo_json_parse]
  obtain b sent where "or_Body (injectStreamUsage ?r) = Some (NopCloser b)"
      "or_ContentLength (injectStreamUsage ?r) = int (length b)" "Unmarshal_object b = Some sent"
      and k: "\<forall>k. map_of sent k = map_option sorted_gval (map_of (asks_for_usage ?m) k)"
    using m(1) by auto
  moreover have "map_of sent ''stream'' = Some (VBool True)" "map_of sent ''model'' = Some (VStr ''gpt-4o'')"
      "map_of sent ''stream_options'' = Some (VObj [(''include_usage'', VBool True)])"
    using k unfolding m(2) by (simp_all only: f option.map o)
  ultimately show ?thesis by blast
qed

text \<open>A body of the size limit or more is cut. Whatever follows its first \<open>maxBody\<close> bytes has no
  influence on the request that leaves; when those bytes are not a complete JSON object the provider receives
  exactly them, declared as the whole body.\<close>

theorem oversized_body_is_truncated:
  assumes "or_Method r = ''POST''" "HasPrefix (header_Get (or_Header r) ''Content-Type'') ''application/json''"
    "or_Body r = Some src" "maxBody \<le> length (bs_bytes src)"
  shows "injectStreamUsage r = injectStreamUsage (r\<lparr>or_Body := Some (NopCloser (take maxBody (bs_bytes src)))\<rparr>) \<and>
    (Unmarshal_object (take maxBody (bs_bytes src)) = None \<longrightarrow>
      or_Body (injectStreamUsage r) = Some (NopCloser (take maxBody (bs_bytes src))) \<and>
      or_ContentLength (injectStreamUsage r) = int maxBody)"
proof -
  let ?b = "take maxBody (bs_bytes src)"
  have l: "length ?b = maxBody" "?b \<noteq> []" using assms(4) by (auto simp: maxBody_def)
  then have "read_limited src = (?b, False)" "read_limited (NopCloser ?b) = (?b, False)"
    using assms(4) by (simp_all add: read_limited_def NopCloser_def)
  then show ?thesis
    using assms(1-3) l by (auto simp: injectStreamUsage_def replaceBody_def with_usage_alt split: option.split)
qed

theorem oversized_body_is_truncated_witness:
  "or_Body (injectStreamUsage (demo_request (replicate (maxBody + 7) CHR ''x''))) =
     Some (NopCloser (replicate maxBody CHR ''x'')) \<and>
   or_ContentLength (injectStreamUsage (demo_request (replicate (maxBody + 7) CHR ''x''))) = int maxBody"
proof -
  let ?r = "demo_request (replicate (maxBody + 7) CHR ''x'')"
  have r: "or_Method ?r = ''POST''" "or_Body ?r = Some (NopCloser (replicate (maxBody + 7) CHR ''x''))"
    by (simp_all add: demo_request_def)
  have b: "take maxBody (bs_bytes (NopCloser (replicate (maxBody + 7) CHR ''x''))) = replicate maxBody CHR ''x''"
    by (simp add: NopCloser_def)
  have "next_token (CHR ''x'' # s) = None" for s
    by (simp add: next_token_def token_at_def json_space_def punct_def quote_def is_dig_def keyword_def HasPrefix_def scan_number_def scan_int_def)
  then have none: "Unmarshal_object (CHR ''x'' # s) = None" for s
    by (simp add: Unmarshal_object_def parse_def run.simps [of _ _ "CHR ''x'' # s"])
  obtain n where n: "maxBody = Suc n" using that [of "2 ^ 20 - 1"] by (simp add: maxBody_def)
  have "Unmarshal_object (replicate maxBody CHR ''x'') = None" unfolding n replicate_Suc by (rule none)
  with oversized_body_is_truncated [OF r(1) demo_request_json r(2)] show ?thesis
    unfolding b by (metis NopCloser_def body_source.select_convs(1) le_add1 length_replicate)
qed

section \<open>Spend\<close>

text \<open>The usage a buffered JSON body reports, if it is one to charge for.\<close>

definition reported_usage :: "string \<Rightarrow> string \<Rightarrow> (string \<times> i64 \<times> i64) option" where
  "reported_usage provider body =
     (if provider = UpstreamOpenAI then
        (case Unmarshal dec_openai_payload openai_payload_zero body of None \<Rightarrow> None
         | Some p \<Rightarrow> if pu_TotalTokens (op_Usage p) = 0 then None
             else Some (op_Model p, pu_PromptTokens (op_Usage p), pu_CompletionTokens (op_Usage p)))
      else (case Unmarshal dec_anthropic_payload anthropic_payload_zero body of None \<Rightarrow> None
         | Some p \<Rightarrow> if InputTokens (ap_Usage p) = 0 \<and> OutputTokens (ap_Usage p) = 0 then None
             else Some (ap_Model p, InputTokens (ap_Usage p), OutputTokens (ap_Usage p))))"

abbreviation modifyResponse :: "string \<Rightarrow> 's adapter_config \<Rightarrow> PricerHolder option \<Rightarrow> instant \<Rightarrow> VirtualKey option \<Rightarrow>
    's \<times> unknownModelLogger \<Rightarrow> response \<Rightarrow> ('s \<times> unknownModelLogger) \<times> (upstream_error + response)" where
  "modifyResponse provider \<equiv> if provider = UpstreamOpenAI then OpenAI_modifyResponse else Anthropic_modifyResponse"

text \<open>What charging a usage to a key does to the totals of the meter and to the logger.\<close>

definition billed :: "string \<Rightarrow> Pricer \<Rightarrow> instant \<Rightarrow> string \<Rightarrow> (string \<times> i64 \<times> i64) option \<Rightarrow>
    meter_memory \<times> unknownModelLogger \<Rightarrow> meter_memory \<times> unknownModelLogger \<Rightarrow> bool" where
  "billed provider p now key usage st st' = (case usage of None \<Rightarrow> st' = st | Some (model, i, out) \<Rightarrow>
     (case Pricer_Cost p provider model i out of (cost, ok) \<Rightarrow>
       snd st' = (if ok then snd st else fst (Warn (snd st) now key model)) \<and>
       (\<forall>k t. meter_day (fst st') k t = (if ok \<and> \<not> f64_le cost (Fin 0) \<and> k = key \<and> utc_day t = utc_day now
            then f64_add (meter_day (fst st) k t) cost else meter_day (fst st) k t) \<and>
          meter_month (fst st') k t = (if ok \<and> \<not> f64_le cost (Fin 0) \<and> k = key \<and> utc_month t = utc_month now
            then f64_add (meter_month (fst st) k t) cost else meter_month (fst st) k t))))"

text \<open>An adapter with the in-memory meter and a loaded price table.\<close>

definition metered :: "meter_memory adapter_config \<Rightarrow> PricerHolder option \<Rightarrow> Pricer \<Rightarrow> bool" where
  "metered cfg holder p \<longleftrightarrow> ad_record cfg = Some meter_Record \<and> (\<exists>h. holder = Some h \<and> holder_Load h = Some p)"

lemma recordSpend_billed:
  assumes "metered cfg holder p"
  shows "billed provider p now key (Some (model, i, out)) st (recordSpend provider cfg holder now st key model i out)"
proof -
  obtain cost ok where "Pricer_Cost p provider model i out = (cost, ok)" by fastforce
  then show ?thesis
    using assms meter_Record_totals [of "fst st" now key cost]
    by (auto simp: metered_def billed_def recordSpend_def)
qed

lemma charge_billed:
  assumes "metered cfg holder p"
  shows "billed provider p now key u st
    (case u of None \<Rightarrow> st | Some (model, i, out) \<Rightarrow> recordSpend provider cfg holder now st key model i out)"
proof (cases u)
  case (Some v)
  then show ?thesis using recordSpend_billed [OF assms] by (cases v) simp
qed (simp add: billed_def)

lemma json_modifyResponse:
  assumes "HasPrefix (header_Get (rs_Header resp) ''Content-Type'') ''application/json''"
    "bs_err (rs_Body resp) = None" "\<not> 400 \<le>s rs_status resp" "provider = UpstreamOpenAI \<or> provider = UpstreamAnthropic"
  shows "modifyResponse provider cfg holder now (Some k) st resp =
    (case reported_usage provider (bs_bytes (rs_Body resp)) of None \<Rightarrow> st
     | Some (model, i, out) \<Rightarrow> recordSpend provider cfg holder now st (ID k) model i out, Inr (buffered resp))"
proof -
  obtain ct where ct: "header_Get (rs_Header resp) ''Content-Type'' = ct" by simp
  have "\<not> HasPrefix ct ''text/event-stream''"
    using assms(1) unfolding ct by (cases ct) (auto simp: HasPrefix_def)
  moreover have "rs_status (buffered resp) = rs_status resp" by (simp add: buffered_def Let_def)
  ultimately show ?thesis
    using assms ct
    by (auto simp: OpenAI_modifyResponse_def Anthropic_modifyResponse_def Let_def reported_usage_def
      OpenAI_recordSpend_def Anthropic_recordSpend_def split: option.split)
qed

text \<open>C28: A JSON response with a status below 400 whose body can be read to its end reaches the client with the bytes the provider sent,
  and is billed by what it reports to the key that made the request, on the in-memory meter and with a price
  table loaded. A body that does not decode is billed nothing. From OpenAI a reply whose \<open>total_tokens\<close> is zero or missing is
  billed nothing, whatever else its usage says, and any other one for its prompt and completion tokens; from Anthropic
  one whose input and output tokens are both zero is billed nothing, any other one for these. What is billed makes the key's day and month totals grow by the
  price and moves nothing else; a model without a price leaves the totals alone and is warned about.\<close>

theorem json_response_is_billed:
  assumes "metered cfg holder p" "HasPrefix (header_Get (rs_Header resp) ''Content-Type'') ''application/json''"
    "bs_err (rs_Body resp) = None" "\<not> 400 \<le>s rs_status resp"
  shows "(\<exists>st' resp'. OpenAI_modifyResponse cfg holder now (Some k) st resp = (st', Inr resp') \<and>
      billed UpstreamOpenAI p now (ID k)
        (case Unmarshal dec_openai_payload openai_payload_zero (bs_bytes (rs_Body resp)) of None \<Rightarrow> None
         | Some reply \<Rightarrow> if pu_TotalTokens (op_Usage reply) = 0 then None
             else Some (op_Model reply, pu_PromptTokens (op_Usage reply), pu_CompletionTokens (op_Usage reply))) st st' \<and>
      rs_Body resp' = rs_Body resp \<and> rs_status resp' = rs_status resp \<and> rs_ContentLength resp' = int (length (bs_bytes (rs_Body resp)))) \<and>
    (\<exists>st' resp'. Anthropic_modifyResponse cfg holder now (Some k) st resp = (st', Inr resp') \<and>
      billed UpstreamAnthropic p now (ID k)
        (case Unmarshal dec_anthropic_payload anthropic_payload_zero (bs_bytes (rs_Body resp)) of None \<Rightarrow> None
         | Some reply \<Rightarrow> if InputTokens (ap_Usage reply) = 0 \<and> OutputTokens (ap_Usage reply) = 0 then None
             else Some (ap_Model reply, InputTokens (ap_Usage reply), OutputTokens (ap_Usage reply))) st st' \<and>
      rs_Body resp' = rs_Body resp \<and> rs_status resp' = rs_status resp \<and> rs_ContentLength resp' = int (length (bs_bytes (rs_Body resp))))"
proof -
  have ne: "UpstreamAnthropic \<noteq> UpstreamOpenAI" by (simp add: UpstreamAnthropic_def UpstreamOpenAI_def)
  have b: "rs_Body (buffered resp) = rs_Body resp" "rs_status (buffered resp) = rs_status resp"
      "rs_ContentLength (buffered resp) = int (length (bs_bytes (rs_Body resp)))"
    using assms(3) by (simp_all add: buffered_def Let_def NopCloser_def)
  have o: "\<exists>st' resp'. modifyResponse provider cfg holder now (Some k) st resp = (st', Inr resp') \<and>
      billed provider p now (ID k) (reported_usage provider (bs_bytes (rs_Body resp))) st st' \<and>
      rs_Body resp' = rs_Body resp \<and> rs_status resp' = rs_status resp \<and> rs_ContentLength resp' = int (length (bs_bytes (rs_Body resp)))"
    if "provider = UpstreamOpenAI \<or> provider = UpstreamAnthropic" for provider
    using json_modifyResponse [OF assms(2-4) that, of cfg holder now k st] charge_billed [OF assms(1)] b by blast
  show ?thesis
    using o [of UpstreamOpenAI] o [of UpstreamAnthropic] ne unfolding reported_usage_def by simp
qed

text \<open>C27: A streamed response is billed once. The adapters pass it on with a meter on its body; whatever pieces
  the body arrives in, wherever the copy to the client stops (at its end, at an error, at the key's timeout, or because
  the client has gone, with no error of the body at all) and however often the body is then closed, the key is charged exactly for the usage of the
  bytes read from the provider, if that usage has tokens, and for nothing else. The meter is the in-memory one
  and a price table is loaded.\<close>

theorem stream_is_billed_once:
  assumes "metered cfg holder p" "provider = UpstreamOpenAI \<or> provider = UpstreamAnthropic"
    "HasPrefix (header_Get (rs_Header resp) ''Content-Type'') ''text/event-stream''"
  shows "(if provider = UpstreamOpenAI then OpenAI_modifyResponse else Anthropic_modifyResponse) cfg holder now0 (Some k) st0 resp =
      (st0, Inr (resp\<lparr>rs_metered := True\<rparr>)) \<and>
    billed provider p now (ID k)
      (let u = captured (parse_text provider newStreamMeter (body_text (received reads))) in if spendable u then Some u else None)
      st (stream_spend provider cfg holder now k st (Suc n) reads)"
proof
  show "modifyResponse provider cfg holder now0 (Some k) st0 resp = (st0, Inr (resp\<lparr>rs_metered := True\<rparr>))"
    using assms by (auto simp: OpenAI_modifyResponse_def Anthropic_modifyResponse_def wrapStream_def metered_def Let_def)
  let ?u = "captured (parse_text provider newStreamMeter (body_text (received reads)))"
  obtain s where s: "s = fst (copy_stream provider (UpstreamTimeoutSeconds k) reads newStreamMeter)" by simp
  have "captured s = ?u" unfolding s by (rule copy_from_start)
  moreover have "\<not> reported s" unfolding s copy_reported by (simp add: newStreamMeter_def)
  ultimately have c: "close_calls (Suc n) s = (if spendable ?u then [?u] else [])"
    by (simp add: close_calls_once del: close_calls.simps)
  show "billed provider p now (ID k) (let u = ?u in if spendable u then Some u else None) st
      (stream_spend provider cfg holder now k st (Suc n) reads)"
    using charge_billed [OF assms(1), of provider now "ID k" "if spendable ?u then Some ?u else None" st] c
    by (cases ?u; cases "spendable ?u") (simp_all add: stream_spend_def Let_def s del: close_calls.simps)
qed

text \<open>C33: With either adapter a deadline becomes a 504 and every other upstream failure a 502, and neither costs the key
  anything, whether the round trip itself fails or reading the body of a JSON response does; the deadline's answer
  has the code \<open>upstream_timeout\<close> and \<open>Retry-After: 1\<close>.\<close>

theorem upstream_failure_is_not_billed:
  assumes fails: "\<forall>out \<in> {snd (OpenAI_rewrite cfg cache vk r), Anthropic_rewrite cfg vk r}. network out = Inl e \<or>
    (\<exists>resp. network out = Inr resp \<and>
      HasPrefix (header_Get (rs_Header resp) ''Content-Type'') ''application/json'' \<and> bs_err (rs_Body resp) = Some e)"
  shows "\<exists>answer. snd (OpenAI_ServeHTTP cfg holder now network vk cache st r) = (st, Inl answer) \<and>
    Anthropic_ServeHTTP cfg holder now network vk st r = (st, Inl answer) \<and>
    (if e = DeadlineExceeded then \<exists>msg. answer = Envelope (WriteError (Some ''1'') 504 ''upstream_timeout'' msg)
     else answer = PlainError 502 ''upstream error'')"
proof -
  have err: "\<exists>msg. OpenAI_errorHandler vk DeadlineExceeded = Envelope (WriteError (Some ''1'') 504 ''upstream_timeout'' msg)"
      "e \<noteq> DeadlineExceeded \<Longrightarrow> OpenAI_errorHandler vk e = PlainError 502 ''upstream error''"
      "Anthropic_errorHandler vk e = OpenAI_errorHandler vk e"
    by (auto simp: OpenAI_errorHandler_def Anthropic_errorHandler_def isUpstreamTimeout_def writeUpstreamTimeout_def
      CodeUpstreamTimeout_def Let_def)
  have body: "OpenAI_modifyResponse cfg holder now vk st resp = (st, Inl e) \<and> Anthropic_modifyResponse cfg holder now vk st resp = (st, Inl e)"
    if "HasPrefix (header_Get (rs_Header resp) ''Content-Type'') ''application/json''" "bs_err (rs_Body resp) = Some e" for resp
  proof -
    have "\<not> HasPrefix (header_Get (rs_Header resp) ''Content-Type'') ''text/event-stream''"
      using that(1) by (cases "header_Get (rs_Header resp) ''Content-Type''") (auto simp: HasPrefix_def)
    then show ?thesis using that by (simp add: OpenAI_modifyResponse_def Anthropic_modifyResponse_def Let_def)
  qed
  obtain c out where o: "OpenAI_rewrite cfg cache vk r = (c, out)" by fastforce
  have "snd (OpenAI_ServeHTTP cfg holder now network vk cache st r) = (st, Inl (OpenAI_errorHandler vk e))"
    using fails body o by (auto simp: OpenAI_ServeHTTP_def)
  moreover have "Anthropic_ServeHTTP cfg holder now network vk st r = (st, Inl (OpenAI_errorHandler vk e))"
    using fails body err(3) by (auto simp: Anthropic_ServeHTTP_def)
  ultimately show ?thesis using err(1,2) by auto
qed

theorem upstream_failure_is_not_billed_witness:
  "\<exists>answer msg. snd (OpenAI_ServeHTTP \<lparr>ad_base = demo_URL, ad_record = Some meter_Record\<rparr> None 0
      (\<lambda>_. Inl DeadlineExceeded) None (\<lambda>_. None) (meter_NewMemory, newUnknownModelLogger) (demo_request [])) =
      ((meter_NewMemory, newUnknownModelLogger), Inl answer) \<and>
    Anthropic_ServeHTTP \<lparr>ad_base = demo_URL, ad_record = Some meter_Record\<rparr> None 0
      (\<lambda>_. Inl DeadlineExceeded) None (meter_NewMemory, newUnknownModelLogger) (demo_request []) =
      ((meter_NewMemory, newUnknownModelLogger), Inl answer) \<and>
    answer = Envelope (WriteError (Some ''1'') 504 ''upstream_timeout'' msg)"
  using upstream_failure_is_not_billed [of "\<lparr>ad_base = demo_URL, ad_record = Some meter_Record\<rparr>" "\<lambda>_. None" None "demo_request []"
    "\<lambda>_. Inl DeadlineExceeded" DeadlineExceeded None 0 "(meter_NewMemory, newUnknownModelLogger)"] by auto

text \<open>A reply with a usage, and a price table that has its model.\<close>

definition demo_reply :: json where
  "demo_reply = JObj [(''model'', JStr ''gpt-4o''), (''usage'', JObj [(''prompt_tokens'', JNum ''9''),
     (''completion_tokens'', JNum ''2''), (''total_tokens'', JNum ''11'')])]"

definition demo_response :: "string \<Rightarrow> response" where
  "demo_response b = \<lparr>rs_status = 200, rs_Header = (\<lambda>_. [])(''Content-Type'' := [''application/json'']),
     rs_ContentLength = -1, rs_Body = NopCloser b, rs_metered = False\<rparr>"

definition demo_pricer :: Pricer where
  "demo_pricer = [(''openai'', [(''gpt-4o'', \<lparr>InputPerMToken = Fin 5, OutputPerMToken = Fin 25\<rparr>)])]"

definition demo_config :: "meter_memory adapter_config" where
  "demo_config = \<lparr>ad_base = demo_URL, ad_record = Some meter_Record\<rparr>"

definition demo_holder :: "PricerHolder option" where
  "demo_holder = Some (NewPricerHolder (Some demo_pricer))"

lemma demo_metered: "metered demo_config demo_holder demo_pricer"
  by (simp add: metered_def demo_config_def demo_holder_def NewPricerHolder_def holder_Load_def)

lemma demo_response_ok:
  "HasPrefix (header_Get (rs_Header (demo_response b)) ''Content-Type'') ''application/json''"
  "bs_err (rs_Body (demo_response b)) = None" "\<not> 400 \<le>s rs_status (demo_response b)"
  "bs_bytes (rs_Body (demo_response b)) = b"
  by (simp_all add: demo_response_def header_Get_def HasPrefix_def NopCloser_def sle_int)

text \<open>The wire's names of the fields, and their values.\<close>

lemma wire_strings:
  "unquote ''model'' = ''model''" "unquote ''gpt-4o'' = ''gpt-4o''" "unquote ''usage'' = ''usage''"
  "unquote ''prompt_tokens'' = ''prompt_tokens''" "unquote ''completion_tokens'' = ''completion_tokens''"
  "unquote ''total_tokens'' = ''total_tokens''"
  by (simp_all add: plain_def quote_def backslash_def)

lemma wire_numbers: "ParseInt ''9'' = Some 9" "ParseInt ''2'' = Some 2" "ParseInt ''11'' = Some 11"
  "valid_number ''9''" "valid_number ''2''" "valid_number ''11''"
  by (simp_all only: valid_number_def) code_simp+

lemma demo_reply_usage: "reported_usage UpstreamOpenAI (json_text demo_reply) = Some (''gpt-4o'', 9, 2)"
proof -
  have "wf_json demo_reply" "depth demo_reply \<le> maxNestingDepth"
    by (simp_all add: demo_reply_def valid_raw_plain plain_def quote_def backslash_def maxNestingDepth_def wire_numbers)
  then have "parse (json_text demo_reply) = Some demo_reply" by (rule parse_json_text)
  moreover have "dec_openai_payload demo_reply openai_payload_zero = Some \<lparr>op_Model = ''gpt-4o'',
      op_Usage = \<lparr>pu_PromptTokens = 9, pu_CompletionTokens = 2, pu_TotalTokens = 11\<rparr>\<rparr>"
    by (simp add: demo_reply_def dec_openai_payload_def openai_payload_zero_def dec_struct_def
      field_def find_field_def dec_string_def dec_int_def wire_strings wire_numbers)
  ultimately show ?thesis by (simp add: reported_usage_def Unmarshal_def)
qed

theorem json_response_is_billed_witness:
  "\<exists>st' resp'. OpenAI_modifyResponse demo_config demo_holder 0 (Some demo_key)
      (meter_NewMemory, newUnknownModelLogger) (demo_response (json_text demo_reply)) = (st', Inr resp') \<and>
    billed UpstreamOpenAI demo_pricer 0 ''key_0'' (Some (''gpt-4o'', 9, 2)) (meter_NewMemory, newUnknownModelLogger) st' \<and>
    bs_bytes (rs_Body resp') = json_text demo_reply"
proof -
  have k: "ID demo_key = ''key_0''" by (simp add: demo_key_def)
  note u = demo_reply_usage [unfolded reported_usage_def, simplified]
  from conjunct1 [OF json_response_is_billed [OF demo_metered demo_response_ok(1-3), of 0 demo_key
      "(meter_NewMemory, newUnknownModelLogger)" "json_text demo_reply"]]
  show ?thesis unfolding demo_response_ok(4) u k by (metis demo_response_ok(4))
qed

theorem stream_is_billed_once_witness:
  "billed UpstreamOpenAI demo_pricer 0 ''key_0'' (Some (''gpt-4o'', 9, 2)) (meter_NewMemory, newUnknownModelLogger)
    (stream_spend UpstreamOpenAI demo_config demo_holder 0 demo_key (meter_NewMemory, newUnknownModelLogger) 3
      [demo_read False (take 30 demo_line) None, demo_read False (drop 30 demo_line) None])"
proof -
  let ?reads = "[demo_read False (take 30 demo_line) None, demo_read False (drop 30 demo_line) None]"
    and ?resp = "(demo_response [])\<lparr>rs_Header := (\<lambda>_. [])(''Content-Type'' := [''text/event-stream''])\<rparr>"
  have k: "ID demo_key = ''key_0''" by (simp add: demo_key_def)
  have w: "body_text (received ?reads) = demo_line"
    by (simp add: body_text_def demo_read_def del: One_nat_def)
  have u: "spendable (''gpt-4o'', 9, 2)" by (simp add: spendable_def sless_int)
  have three: "Suc 2 = 3" by simp
  have ct: "HasPrefix (header_Get (rs_Header ?resp) ''Content-Type'') ''text/event-stream''"
    by (simp add: header_Get_def HasPrefix_def)
  from conjunct2 [OF stream_is_billed_once [OF demo_metered disjI1 [OF refl] ct, of 0 demo_key
      "(meter_NewMemory, newUnknownModelLogger)" 0 ?reads "(meter_NewMemory, newUnknownModelLogger)" 2]]
  show ?thesis unfolding w demo_usage k three by (simp add: u)
qed

text \<open>The same usage can cost nothing in a buffered reply and its full price in a stream. A JSON reply
  that counts prompt and completion tokens but has no \<open>total_tokens\<close> leaves every total as it was, while
  a stream that carries the same object is charged for those tokens.\<close>

theorem total_tokens_gates_billing:
  "fst (OpenAI_modifyResponse cfg holder now (Some k) st (demo_response (json_text demo_chunk))) = st \<and>
   stream_spend UpstreamOpenAI cfg holder now k st 1 [demo_read False demo_line (Some EOF)] =
     recordSpend UpstreamOpenAI cfg holder now st (ID k) ''gpt-4o'' 9 2"
proof
  have "wf_json demo_chunk" "depth demo_chunk \<le> maxNestingDepth"
    by (simp_all add: demo_chunk_def valid_raw_plain plain_def quote_def backslash_def maxNestingDepth_def wire_numbers)
  then have "parse (json_text demo_chunk) = Some demo_chunk" by (rule parse_json_text)
  moreover have "dec_openai_payload demo_chunk openai_payload_zero = Some \<lparr>op_Model = ''gpt-4o'',
      op_Usage = \<lparr>pu_PromptTokens = 9, pu_CompletionTokens = 2, pu_TotalTokens = 0\<rparr>\<rparr>"
    by (simp add: demo_chunk_def dec_openai_payload_def openai_payload_zero_def dec_struct_def
      field_def find_field_def dec_string_def dec_int_def wire_strings wire_numbers)
  ultimately have "reported_usage UpstreamOpenAI (json_text demo_chunk) = None"
    by (simp add: reported_usage_def Unmarshal_def)
  then show "fst (OpenAI_modifyResponse cfg holder now (Some k) st (demo_response (json_text demo_chunk))) = st"
    using json_modifyResponse [OF demo_response_ok(1-3), of UpstreamOpenAI cfg holder now k st "json_text demo_chunk"]
    by (simp add: demo_response_ok(4))
  let ?r = "demo_read False demo_line (Some EOF)"
  have r: "\<not> br_deadline ?r" "br_err ?r = Some EOF" "body_text ([] @ [?r]) = demo_line"
    by (simp_all add: demo_read_def body_text_def)
  from copy_stream_result [of "[]" ?r EOF "[]" "UpstreamTimeoutSeconds k" UpstreamOpenAI] r obtain s
    where s: "copy_stream UpstreamOpenAI (UpstreamTimeoutSeconds k) [?r] newStreamMeter = (s, demo_line, Some EOF)"
      "captured s = (''gpt-4o'', 9, 2)" by (auto simp: demo_usage)
  have "\<not> reported s"
    using copy_reported [of UpstreamOpenAI "UpstreamTimeoutSeconds k" "[?r]" newStreamMeter] s(1) by (simp add: newStreamMeter_def)
  then have "close_calls (Suc 0) s = [(''gpt-4o'', 9, 2)]"
    using s(2) by (simp only: close_calls_once) (simp add: spendable_def sless_int)
  then show "stream_spend UpstreamOpenAI cfg holder now k st 1 [?r] = recordSpend UpstreamOpenAI cfg holder now st (ID k) ''gpt-4o'' 9 2"
    using s(1) by (simp add: stream_spend_def Let_def del: close_calls.simps)
qed

end
