(* ===== verification/Base_URL.thy ===== *)
theory Base_URL
  imports Url Adapter_Facts
begin

text \<open>
  \<open>internal/keys/baseurl.go\<close>: the validation of a key's own upstream base URL. The resolver is an argument:
  \<open>lookup name\<close> is the addresses \<open>net.LookupIP\<close> finds, \<open>None\<close> where it fails. An address is its eight
  16-bit groups, an IPv4 address the mapped one, as \<open>To4\<close> sees them. The last section ties
  the validation to the adapters: where a request of a key with a validated URL goes.
\<close>

section \<open>IP addresses\<close>

text \<open>\<open>net.ParseIP\<close> of Go's standard library, and \<open>IP.IsLoopback\<close>.\<close>

type_synonym ip = "nat list"

fun split_char :: "char \<Rightarrow> string \<Rightarrow> string list" where
  "split_char c [] = [[]]"
| "split_char c (d # s) = (if d = c then [] # split_char c s
     else case split_char c s of p # ps \<Rightarrow> (d # p) # ps | [] \<Rightarrow> [[d]])"

definition octet :: "string \<Rightarrow> nat option" where
  "octet s = (if s \<noteq> [] \<and> list_all is_dig s \<and> (length s = 1 \<or> hd s \<noteq> CHR ''0'') \<and> dec_value s \<le> 255
     then Some (dec_value s) else None)"

definition parseIPv4 :: "string \<Rightarrow> ip option" where
  "parseIPv4 s = (case map octet (split_char (CHR ''.'') s) of
     [Some a, Some b, Some c, Some d] \<Rightarrow> Some [a * 256 + b, c * 256 + d] | _ \<Rightarrow> None)"

definition hex_group :: "string \<Rightarrow> nat" where
  "hex_group s = foldl (\<lambda>n c. n * 16 + the (hex_val c)) 0 s"

text \<open>The loop of \<open>parseIPv6\<close>: the groups read, where the ellipsis stands among them, and what is left.\<close>

function ipv6_loop :: "ip \<Rightarrow> nat option \<Rightarrow> string \<Rightarrow> (ip \<times> nat option \<times> string) option" where
  "ipv6_loop g e s =
     (if 8 \<le> length g then Some (g, e, s)
      else let h = takeWhile is_hex s; r = dropWhile is_hex s in
        if h = [] \<or> 4 < length h then None
        else if r \<noteq> [] \<and> hd r = CHR ''.'' then
          (if e = None \<and> length g \<noteq> 6 \<or> 6 < length g then None
           else map_option (\<lambda>v4. (g @ v4, e, [])) (parseIPv4 s))
        else let g = g @ [hex_group h] in
          (case r of [] \<Rightarrow> Some (g, e, [])
           | c # r \<Rightarrow> if c \<noteq> CHR '':'' \<or> r = [] then None
               else if hd r = CHR '':'' then
                 (if e \<noteq> None then None
                  else if tl r = [] then Some (g, Some (length g), [])
                  else ipv6_loop g (Some (length g)) (tl r))
               else ipv6_loop g e r))"
  by pat_completeness auto

termination
  by (relation "measure (\<lambda>(g, _). 8 - length g)") simp_all

declare ipv6_loop.simps [simp del]

definition parseIPv6 :: "string \<Rightarrow> ip option" where
  "parseIPv6 s =
     (case (if HasPrefix s ''::'' then (if s = ''::'' then Some ([], Some 0, []) else ipv6_loop [] (Some 0) (drop 2 s))
            else ipv6_loop [] None s) of
        Some (g, e, []) \<Rightarrow>
          (if length g < 8 then
             (case e of None \<Rightarrow> None | Some i \<Rightarrow> Some (take i g @ replicate (8 - length g) 0 @ drop i g))
           else if e \<noteq> None then None else Some g)
      | _ \<Rightarrow> None)"

text \<open>An address with a zone is no IP for \<open>ParseIP\<close>.\<close>

definition ParseIP :: "string \<Rightarrow> ip option" where
  "ParseIP s = (case dropWhile (\<lambda>c. c \<notin> set ''.:%'') s of [] \<Rightarrow> None
     | c # _ \<Rightarrow> if c = CHR ''.'' then map_option ((@) [0, 0, 0, 0, 0, 0xFFFF]) (parseIPv4 s)
         else if c = CHR '':'' \<and> CHR ''%'' \<notin> set s then parseIPv6 s else None)"

definition IsLoopback :: "ip \<Rightarrow> bool" where
  "IsLoopback a = (if take 6 a = [0, 0, 0, 0, 0, 0xFFFF] then a ! 6 div 256 = 127 else a = [0, 0, 0, 0, 0, 0, 0, 1])"

section \<open>Validation\<close>

definition ErrCodeInvalidBaseURL :: string where "ErrCodeInvalidBaseURL = ''invalid_upstream_base_url''"
definition ErrCodeInvalidBaseURLScheme :: string where "ErrCodeInvalidBaseURLScheme = ''invalid_upstream_base_url_scheme''"
definition ErrCodeInvalidBaseURLHost :: string where "ErrCodeInvalidBaseURLHost = ''invalid_upstream_base_url_host''"
definition ErrCodeInvalidBaseURLQuery :: string where "ErrCodeInvalidBaseURLQuery = ''invalid_upstream_base_url_query''"
definition ErrCodeInvalidBaseURLFragment :: string where
  "ErrCodeInvalidBaseURLFragment = ''invalid_upstream_base_url_fragment''"

record BaseURLError =
  bue_Code :: string
  bue_Message :: string

definition BaseURLError_Error :: "BaseURLError \<Rightarrow> string" where
  "BaseURLError_Error e = bue_Code e @ '': '' @ bue_Message e"

definition newBaseURLError :: "string \<Rightarrow> string \<Rightarrow> BaseURLError" where
  "newBaseURLError code msg = \<lparr>bue_Code = code, bue_Message = msg\<rparr>"

text \<open>An error is a base URL error, as such or wrapped, or another one.\<close>

datatype keys_failure = BaseURLFailure BaseURLError | OtherFailure string

definition AsBaseURLError :: "keys_failure \<Rightarrow> BaseURLError option" where
  "AsBaseURLError err = (case err of BaseURLFailure bue \<Rightarrow> Some bue | OtherFailure _ \<Rightarrow> None)"

definition isLoopbackHost :: "(string \<Rightarrow> ip list option) \<Rightarrow> string \<Rightarrow> bool" where
  "isLoopbackHost lookup host =
     (let host = ToLower (TrimSpace host) in
      if host = [] then False
      else if host = ''localhost'' then True
      else case ParseIP host of Some ip \<Rightarrow> IsLoopback ip
        | None \<Rightarrow> (case lookup host of None \<Rightarrow> False
            | Some addrs \<Rightarrow> if length addrs = 0 then False else list_all IsLoopback addrs))"

definition TrimRight_slash :: "string \<Rightarrow> string" where
  "TrimRight_slash s = rev (dropWhile (\<lambda>c. c = CHR ''/'') (rev s))"

definition ValidateUpstreamBaseURL :: "(string \<Rightarrow> ip list option) \<Rightarrow> string \<Rightarrow> BaseURLError + string" where
  "ValidateUpstreamBaseURL lookup raw =
     (let raw = TrimSpace raw in
      if raw = [] then Inl (newBaseURLError ErrCodeInvalidBaseURL ''upstream_base_url must not be empty'')
      else case url_Parse raw of
        None \<Rightarrow> Inl (newBaseURLError ErrCodeInvalidBaseURL ''upstream_base_url is not a valid URL'')
      | Some u \<Rightarrow>
        if Host u = [] then Inl (newBaseURLError ErrCodeInvalidBaseURLHost
            ''upstream_base_url must include a host (got no host)'')
        else let scheme = ToLower (Scheme u) in
        if scheme \<noteq> ''https'' \<and> scheme \<noteq> ''http'' then Inl (newBaseURLError ErrCodeInvalidBaseURLScheme
            ''upstream_base_url scheme must be https (or http for loopback only)'')
        else if RawQuery u \<noteq> [] then Inl (newBaseURLError ErrCodeInvalidBaseURLQuery
            ''upstream_base_url must not contain a query string'')
        else if Fragment u \<noteq> [] then Inl (newBaseURLError ErrCodeInvalidBaseURLFragment
            ''upstream_base_url must not contain a fragment'')
        else if User u then Inl (newBaseURLError ErrCodeInvalidBaseURLHost
            ''upstream_base_url must not contain userinfo; put credentials in upstream_key'')
        else if scheme = ''http'' \<and> \<not> isLoopbackHost lookup (Hostname u) then Inl (newBaseURLError
            ErrCodeInvalidBaseURLScheme ''upstream_base_url must use https for non-loopback hosts'')
        else let canonical = scheme @ ''://'' @ Host u; path = TrimRight_slash (url_Path u) in
          Inr (if path \<noteq> [] then canonical @ path else canonical))"

section \<open>A validated URL parses back\<close>

lemma Cut_Cons [simp]:
  "Cut c [] = ([], [], False)"
  "Cut c (d # s) = (if d = c then ([], s, True) else case Cut c s of (a, b, f) \<Rightarrow> if f then (d # a, b, f) else (d # s, [], f))"
  by (simp_all add: Cut_def del: dropWhile_eq_Nil_conv split: list.split)

lemma Cut_none: "c \<notin> set s \<Longrightarrow> Cut c s = (s, [], False)"
  by (induction s) auto

lemma Cut_parts: "Cut c s = (a, b, f) \<Longrightarrow> c \<notin> set a \<and> set a \<subseteq> set s \<and> set b \<subseteq> set s"
proof (induction s arbitrary: a b f)
  case (Cons d s)
  obtain a' b' f' where "Cut c s = (a', b', f')" by (cases "Cut c s")
  moreover from Cons.IH [OF this] have "c \<notin> set a'" "set a' \<subseteq> set s" "set b' \<subseteq> set s" by simp_all
  moreover have "\<not> f' \<longrightarrow> c \<notin> set s" using calculation(1) by (induction s arbitrary: a' b' f') (auto split: if_splits prod.splits)
  ultimately show ?case using Cons.prems by (auto split: if_splits)
qed simp

lemma last_cut_none: "c \<notin> set s \<Longrightarrow> last_cut c s = None"
  by (simp add: last_cut_def Cut_none)

lemma last_cut_None: "last_cut c s = None \<Longrightarrow> c \<notin> set s"
proof
  assume n: "last_cut c s = None" and "c \<in> set s"
  then have "dropWhile (\<lambda>d. d \<noteq> c) (rev s) \<noteq> []" by simp
  then show False using n by (auto simp: last_cut_def Cut_def simp del: dropWhile_eq_Nil_conv split: list.splits)
qed

definition literal :: "url_part \<Rightarrow> char \<Rightarrow> bool" where
  "literal m c \<longleftrightarrow> \<not> ((m = HostPart \<or> m = ZonePart) \<and> byte c < 0x80 \<and> \<not> host_char c)"

lemma unescape_literal: "CHR ''%'' \<notin> set s \<Longrightarrow> unescape_url m s = (if list_all (literal m) s then Some s else None)"
  by (induction s) (auto simp: literal_def)

lemma zone_split_none: "CHR ''%'' \<notin> set s \<Longrightarrow> zone_split s = None"
  by (induction s) (auto simp: HasPrefix_def)

lemma last_cut_subset: "last_cut c s = Some (a, b) \<Longrightarrow> set a \<subseteq> set s \<and> set b \<subseteq> set s"
  using Cut_parts [of c "rev s"] by (auto simp: last_cut_def split: prod.splits if_splits)

lemma parseHost_plain: "CHR ''%'' \<notin> set h \<Longrightarrow> parseHost h = Some host \<Longrightarrow> host = h \<and> list_all (literal HostPart) h"
proof -
  assume h: "CHR ''%'' \<notin> set h" "parseHost h = Some host"
  have "zone_split inside = None" if "last_cut (CHR '']'') h = Some (inside, port)" for inside port
    using last_cut_subset [OF that] h(1) by (intro zone_split_none) auto
  then have "unescape_url HostPart h = Some host"
    using h(2) by (auto simp: parseHost_def split: if_splits option.splits)
  then show ?thesis using unescape_literal [OF h(1)] by (simp split: if_splits)
qed

text \<open>A host and a path that read as themselves in a URL.\<close>

definition plain_char :: "char \<Rightarrow> bool" where
  "plain_char c \<longleftrightarrow> c \<notin> set ''?#%'' \<and> \<not> control_byte c"

lemma plain_charD: "plain_char c \<Longrightarrow> c \<noteq> CHR ''?'' \<and> c \<noteq> CHR ''#'' \<and> c \<noteq> CHR ''%'' \<and> \<not> control_byte c"
  by (simp add: plain_char_def)

lemma plain_not_in: "list_all plain_char s \<Longrightarrow>
    CHR ''?'' \<notin> set s \<and> CHR ''#'' \<notin> set s \<and> CHR ''%'' \<notin> set s \<and> \<not> list_ex control_byte s"
  by (induction s) (auto dest: plain_charD)

lemma plain_literals [simp]:
  "plain_char (CHR ''/'')" "plain_char (CHR '':'')" "plain_char (CHR ''h'')" "plain_char (CHR ''t'')" "plain_char (CHR ''p'')"
  "plain_char (CHR ''s'')"
  by code_simp+

definition plain_authority :: "string \<Rightarrow> bool" where
  "plain_authority h \<longleftrightarrow> parseHost h = Some h \<and> h \<noteq> [] \<and> list_all plain_char h \<and> CHR ''/'' \<notin> set h \<and> CHR ''@'' \<notin> set h"

definition plain_path :: "string \<Rightarrow> bool" where
  "plain_path p \<longleftrightarrow> (p = [] \<or> hd p = CHR ''/'') \<and> list_all plain_char p"

lemma parseAuthority_plain:
  assumes "parseAuthority a = Some (False, host)" "host \<noteq> []"
    "list_all plain_char a" "CHR ''/'' \<notin> set a"
  shows "host = a \<and> plain_authority host"
proof -
  have c: "last_cut (CHR ''@'') a = None" "parseHost a = Some host"
    using assms(1) by (auto simp: parseAuthority_def split: option.splits if_splits prod.splits)
  have "CHR ''%'' \<notin> set a" using plain_not_in [OF assms(3)] by simp
  with c(2) have "host = a" using parseHost_plain by blast
  then show ?thesis using c assms(2-4) last_cut_None [OF c(1)] by (simp add: plain_authority_def)
qed

lemma set_path_Some: "set_path u s = Some v \<Longrightarrow> \<exists>q. unescape_url PathPart s = Some q \<and> v = u\<lparr>url_Path := q\<rparr>"
  by (auto simp: set_path_def)

lemma parse_rest_cases:
  assumes "parse_rest u rest = Some v" "Host v \<noteq> Host u"
  shows "\<exists>user host. parseAuthority (takeWhile (\<lambda>c. c \<noteq> CHR ''/'') (drop 2 rest)) = Some (user, host) \<and>
    set_path (u\<lparr>User := user, Host := host\<rparr>) (dropWhile (\<lambda>c. c \<noteq> CHR ''/'') (drop 2 rest)) = Some v"
proof -
  have "set_path u rest \<noteq> Some v" "u\<lparr>Opaque := rest\<rparr> \<noteq> v" using assms(2) by (auto simp: set_path_def)
  then show ?thesis
    using assms(1) unfolding parse_rest_def Let_def
    by (simp split: if_split_asm option.split_asm prod.split_asm)
qed

lemma parse_rest_host:
  assumes "parse_rest u0 rest = Some u" "Host u \<noteq> []" "\<not> User u" "Host u0 = []"
    "list_all plain_char rest"
  shows "plain_authority (Host u) \<and> plain_path (url_Path u) \<and> Scheme u = Scheme u0 \<and> RawQuery u = RawQuery u0"
proof -
  define a p where "a = takeWhile (\<lambda>c. c \<noteq> CHR ''/'') (drop 2 rest)" "p = dropWhile (\<lambda>c. c \<noteq> CHR ''/'') (drop 2 rest)"
  obtain user host where h: "parseAuthority a = Some (user, host)" "set_path (u0\<lparr>User := user, Host := host\<rparr>) p = Some u"
    using parse_rest_cases [OF assms(1)] assms(2,4) unfolding a_p_def by auto
  from set_path_Some [OF h(2)] obtain q
    where q: "unescape_url PathPart p = Some q" "u = u0\<lparr>User := user, Host := host, url_Path := q\<rparr>" by blast
  have s: "set a \<subseteq> set rest" "set p \<subseteq> set rest" "CHR ''/'' \<notin> set a"
    using set_drop_subset [of 2 rest] unfolding a_p_def by (auto dest: set_takeWhileD set_dropWhileD)
  then have a: "list_all plain_char a" "CHR ''/'' \<notin> set a"
      and p: "list_all plain_char p"
    using assms(5) unfolding list_all_iff by auto
  have "CHR ''%'' \<notin> set p" using plain_not_in [OF p] by simp
  then have "q = p" using q(1) by (simp add: unescape_literal split: if_splits)
  moreover have "p = [] \<or> hd p = CHR ''/''" using hd_dropWhile [of "\<lambda>c. c \<noteq> CHR ''/''" "drop 2 rest"] unfolding a_p_def by blast
  ultimately have "plain_path q" using p by (simp add: plain_path_def)
  moreover have h': "parseAuthority a = Some (False, host)" "host \<noteq> []" using h(1) q(2) assms(2,3) by simp_all
  ultimately show ?thesis using parseAuthority_plain [OF h' a] q(2) by auto
qed

lemma getScheme_suffix: "getScheme s = Some (sch, rest) \<Longrightarrow> set rest \<subseteq> set s"
proof (cases "dropWhile scheme_char s")
  case (Cons c r)
  then have "set (c # r) \<subseteq> set s" by (metis set_dropWhileD subsetI)
  then show "getScheme s = Some (sch, rest) \<Longrightarrow> set rest \<subseteq> set s"
    using Cons by (auto simp add: getScheme_def split: if_splits)
qed (simp add: getScheme_def)

lemma url_Parse_host:
  assumes "url_Parse raw = Some u" "Host u \<noteq> []" "\<not> User u" "RawQuery u = []" "CHR ''%'' \<notin> set raw"
  shows "plain_authority (Host u) \<and> plain_path (url_Path u)"
proof -
  obtain s frag f where s: "Cut (CHR ''#'') raw = (s, frag, f)" by (cases "Cut (CHR ''#'') raw")
  from Cut_parts [OF this] have ss: "CHR ''#'' \<notin> set s" "CHR ''%'' \<notin> set s" using assms(5) by auto
  obtain u' where u': "parse_url s = Some u'" "Host u' = Host u" "User u' = User u" "url_Path u' = url_Path u"
    using assms(1) s by (auto simp: url_Parse_def split: option.splits if_splits)
  have nc: "\<not> list_ex control_byte s" using u'(1) by (auto simp: parse_url_def split: if_splits)
  have "s \<noteq> ''*''" using u'(1,2) assms(2) nc by (auto simp: parse_url_def empty_URL_def)
  then obtain sch rest where g: "getScheme s = Some (sch, rest)"
    using u'(1) nc by (auto simp: parse_url_def split: option.splits)
  obtain path query f' where c: "Cut (CHR ''?'') rest = (path, query, f')" by (cases "Cut (CHR ''?'') rest")
  have r: "parse_rest (empty_URL\<lparr>Scheme := ToLower sch, RawQuery := query\<rparr>) path = Some u'"
    using u'(1) nc \<open>s \<noteq> ''*''\<close> g c by (simp add: parse_url_def cut_query_def)
  have "set path \<subseteq> set s - {CHR ''?''}" using Cut_parts [OF c] getScheme_suffix [OF g] by auto
  then have "list_all plain_char path"
    using ss nc by (auto simp: list_all_iff list_ex_iff plain_char_def)
  from parse_rest_host [OF r _ _ _ this] assms(2,3) u' show ?thesis by (simp add: empty_URL_def)
qed

lemma takeWhile_until:
  assumes "p = [] \<or> hd p = c"
  shows "c \<notin> set h \<Longrightarrow> takeWhile (\<lambda>d. d \<noteq> c) (h @ p) = h \<and> dropWhile (\<lambda>d. d \<noteq> c) (h @ p) = p"
proof (induction h)
  case Nil
  then show ?case using assms by (cases p) simp_all
qed auto

lemma getScheme_http:
  "getScheme (''https'' @ CHR '':'' # r) = Some (''https'', r)" "getScheme (''http'' @ CHR '':'' # r) = Some (''http'', r)"
  by (simp_all add: getScheme_def scheme_char_def is_alpha_def is_dig_def)

lemma url_Parse_canonical:
  assumes "plain_authority h" "plain_path p" "sch = ''https'' \<or> sch = ''http''"
  shows "url_Parse (sch @ ''://'' @ h @ p) = Some (empty_URL\<lparr>Scheme := sch, Host := h, url_Path := p\<rparr>)"
proof -
  let ?rest = "''//'' @ h @ p" and ?s = "sch @ ''://'' @ h @ p"
  have "list_all plain_char h" "list_all plain_char p" using assms(1,2) by (simp_all add: plain_authority_def plain_path_def)
  then have chars: "list_all plain_char ?s" "list_all plain_char ?rest" using assms(3) by auto
  from plain_not_in [OF chars(1)] have "Cut (CHR ''#'') ?s = (?s, [], False)" "\<not> list_ex control_byte ?s"
    using Cut_none by blast+
  moreover have "?s \<noteq> ''*''" using assms(3) by auto
  moreover have "getScheme ?s = Some (sch, ?rest)" using assms(3) getScheme_http [of ?rest] by auto
  moreover have "Cut (CHR ''?'') ?rest = (?rest, [], False)" using plain_not_in [OF chars(2)] Cut_none by blast
  then have "cut_query ?rest = (?rest, [])" unfolding cut_query_def by (simp only: prod.case)
  moreover have "ToLower sch = sch" using assms(3) by (auto simp: ToLower_def lower_char_def)
  ultimately have "url_Parse ?s = parse_rest (empty_URL\<lparr>Scheme := sch, RawQuery := []\<rparr>) ?rest"
    by (simp add: url_Parse_def parse_url_def split: option.split)
  also have "\<dots> = Some (empty_URL\<lparr>Scheme := sch, Host := h, url_Path := p\<rparr>)"
  proof -
    have "CHR ''/'' \<notin> set h" "CHR ''@'' \<notin> set h" and h: "parseHost h = Some h"
      using assms(1) by (simp_all add: plain_authority_def)
    then have tw: "takeWhile (\<lambda>c. c \<noteq> CHR ''/'') (h @ p) = h" "dropWhile (\<lambda>c. c \<noteq> CHR ''/'') (h @ p) = p"
      using takeWhile_until [of p "CHR ''/''" h] assms(2) by (simp_all add: plain_path_def)
    have "parseAuthority h = Some (False, h)"
      using h last_cut_none [OF \<open>CHR ''@'' \<notin> set h\<close>] by (simp add: parseAuthority_def)
    moreover have "unescape_url PathPart p = Some p"
      using plain_not_in [OF \<open>list_all plain_char p\<close>] by (subst unescape_literal) (simp_all add: literal_def list_all_iff)
    ultimately show ?thesis
      using tw assms(3) by (auto simp: parse_rest_def HasPrefix_def set_path_def empty_URL_def)
  qed
  finally show ?thesis .
qed

lemma ToLower_idem [simp]: "ToLower (ToLower s) = ToLower s"
proof -
  have "lower_char (lower_char c) = lower_char c" for c by (simp add: lower_char_def byte_chr)
  then show ?thesis by (simp add: ToLower_def)
qed

lemma TrimRight_slash_plain: "plain_path p \<Longrightarrow> plain_path (TrimRight_slash p)"
proof -
  obtain t where t: "p = TrimRight_slash p @ t"
    unfolding TrimRight_slash_def by (metis rev_append rev_rev_ident takeWhile_dropWhile_id)
  assume p: "plain_path p"
  then have "list_all plain_char (TrimRight_slash p)" by (metis t list_all_append plain_path_def)
  moreover have "TrimRight_slash p = [] \<or> hd (TrimRight_slash p) = hd p" by (metis t hd_append2)
  moreover have "TrimRight_slash p \<noteq> [] \<Longrightarrow> p \<noteq> []" by (auto simp: TrimRight_slash_def)
  ultimately show ?thesis using p by (auto simp: plain_path_def)
qed

lemma Validate_Inr:
  assumes "ValidateUpstreamBaseURL lookup raw = Inr c"
  obtains u where "url_Parse (TrimSpace raw) = Some u" "Host u \<noteq> []" "ToLower (Scheme u) = ''https'' \<or> ToLower (Scheme u) = ''http''"
    "RawQuery u = []" "Fragment u = []" "\<not> User u" "ToLower (Scheme u) = ''http'' \<longrightarrow> isLoopbackHost lookup (Hostname u)"
    "c = ToLower (Scheme u) @ ''://'' @ Host u @ TrimRight_slash (url_Path u)"
proof -
  obtain u where u: "url_Parse (TrimSpace raw) = Some u"
    using assms by (cases "url_Parse (TrimSpace raw)") (simp_all add: ValidateUpstreamBaseURL_def Let_def split: if_splits)
  show ?thesis
    using assms that [OF u] u
    by (simp add: ValidateUpstreamBaseURL_def Let_def split: if_split_asm)
qed

text \<open>C34: A base URL passes validation only if it parses, has a host, no query, no fragment and no credentials, and is
  an https URL or an http one whose host is a loopback host. What is stored for it is the scheme in lower case, the host
  and the path less its trailing slashes; and when it has no percent sign, that text parses back to exactly these
  (with one it may not: \<open>escaped_base_url_is_misrouted\<close>).\<close>

theorem validated_base_url_parses_back:
  assumes "ValidateUpstreamBaseURL lookup raw = Inr c"
  shows "\<exists>u sch. url_Parse (TrimSpace raw) = Some u \<and> sch = ToLower (Scheme u) \<and>
    (sch = ''https'' \<or> sch = ''http'' \<and> isLoopbackHost lookup (Hostname u)) \<and>
    Host u \<noteq> [] \<and> RawQuery u = [] \<and> Fragment u = [] \<and> \<not> User u \<and>
    c = sch @ ''://'' @ Host u @ TrimRight_slash (url_Path u) \<and>
    (CHR ''%'' \<notin> set (TrimSpace raw) \<longrightarrow>
      url_Parse c = Some (empty_URL\<lparr>Scheme := sch, Host := Host u, url_Path := TrimRight_slash (url_Path u)\<rparr>))"
proof -
  from Validate_Inr [OF assms] obtain u where u: "url_Parse (TrimSpace raw) = Some u" "Host u \<noteq> []"
      "ToLower (Scheme u) = ''https'' \<or> ToLower (Scheme u) = ''http''" "RawQuery u = []" "Fragment u = []" "\<not> User u"
      "ToLower (Scheme u) = ''http'' \<longrightarrow> isLoopbackHost lookup (Hostname u)"
      "c = ToLower (Scheme u) @ ''://'' @ Host u @ TrimRight_slash (url_Path u)" by blast
  have "url_Parse c = Some (empty_URL\<lparr>Scheme := ToLower (Scheme u), Host := Host u, url_Path := TrimRight_slash (url_Path u)\<rparr>)"
    if "CHR ''%'' \<notin> set (TrimSpace raw)"
  proof -
    from url_Parse_host [OF u(1,2,6,4) that] have "plain_authority (Host u)" "plain_path (TrimRight_slash (url_Path u))"
      by (simp_all add: TrimRight_slash_plain)
    from url_Parse_canonical [OF this u(3)] show ?thesis unfolding u(8) .
  qed
  with u show ?thesis by blast
qed

lemma Hostname_cong: "Host u = Host v \<Longrightarrow> Hostname u = Hostname v"
proof -
  assume h: "Host u = Host v"
  show "Hostname u = Hostname v" unfolding Hostname_def h by (rule refl)
qed

text \<open>Validation of a URL that reads as itself.\<close>

lemma Validate_plain:
  assumes "plain_authority h" "plain_path p" "sch = ''https'' \<or> sch = ''http'' \<and> isLoopbackHost lookup (Hostname (empty_URL\<lparr>Host := h\<rparr>))"
    "visible (last (sch @ ''://'' @ h @ p))"
  shows "ValidateUpstreamBaseURL lookup (sch @ ''://'' @ h @ p) = Inr (sch @ ''://'' @ h @ TrimRight_slash p)"
    "TrimSpace (sch @ ''://'' @ h @ p) = sch @ ''://'' @ h @ p"
    "url_Parse (sch @ ''://'' @ h @ p) = Some (empty_URL\<lparr>Scheme := sch, Host := h, url_Path := p\<rparr>)"
    "CHR ''%'' \<notin> set (sch @ ''://'' @ h @ p)"
proof -
  have sch: "sch = ''https'' \<or> sch = ''http''" using assms(3) by blast
  show t: "TrimSpace (sch @ ''://'' @ h @ p) = sch @ ''://'' @ h @ p"
    by (rule TrimSpace_id) (use sch assms(4) in \<open>auto simp: visible_def\<close>)
  show u: "url_Parse (sch @ ''://'' @ h @ p) = Some (empty_URL\<lparr>Scheme := sch, Host := h, url_Path := p\<rparr>)"
    using assms(1,2) sch by (rule url_Parse_canonical)
  have "list_all plain_char h" "list_all plain_char p" using assms(1,2) by (simp_all add: plain_authority_def plain_path_def)
  then show "CHR ''%'' \<notin> set (sch @ ''://'' @ h @ p)" using plain_not_in sch by auto
  let ?u = "empty_URL\<lparr>Scheme := sch, Host := h, url_Path := p\<rparr>"
  have l: "ToLower ''https'' = ''https''" "ToLower ''http'' = ''http''" by code_simp+
  have h: "h \<noteq> []" using assms(1) by (simp add: plain_authority_def)
  have f: "Host ?u = h" "Scheme ?u = sch" "RawQuery ?u = []" "Fragment ?u = []" "User ?u = False" "url_Path ?u = p"
      "Hostname ?u = Hostname (empty_URL\<lparr>Host := h\<rparr>)"
    by (simp_all add: empty_URL_def Hostname_cong)
  show "ValidateUpstreamBaseURL lookup (sch @ ''://'' @ h @ p) = Inr (sch @ ''://'' @ h @ TrimRight_slash p)"
    using assms(3) unfolding ValidateUpstreamBaseURL_def t u Let_def option.case f
    by (elim disjE conjE) (simp_all add: l h)
qed

lemma demo_hosts:
  "plain_authority ''localhost:8000''" "plain_authority ''api.groq.com''" "plain_path ''/v2//''" "plain_path ''/openai/''"
  by code_simp+

lemma demo_trims: "TrimRight_slash ''/v2//'' = ''/v2''" "TrimRight_slash ''/openai/'' = ''/openai''"
  "ToLower ''http'' = ''http''"
  by code_simp+

lemma demo_loopback: "isLoopbackHost lookup (Hostname (empty_URL\<lparr>Host := ''localhost:8000''\<rparr>))"
proof -
  have h: "Hostname (empty_URL\<lparr>Host := ''localhost:8000''\<rparr>) = ''localhost''" by code_simp
  have "TrimSpace ''localhost'' = ''localhost''" by (rule TrimSpace_id) (simp_all add: visible_def)
  moreover have "ToLower ''localhost'' = ''localhost''" by code_simp
  ultimately show ?thesis unfolding h isLoopbackHost_def by (simp add: Let_def)
qed

theorem validated_base_url_parses_back_witness:
  "\<exists>u sch. url_Parse (''http'' @ ''://'' @ ''localhost:8000'' @ ''/v2//'') = Some u \<and> sch = ''http'' \<and>
    isLoopbackHost (\<lambda>_. None) (Hostname u) \<and> url_Parse (''http'' @ ''://'' @ ''localhost:8000'' @ ''/v2'') =
      Some (empty_URL\<lparr>Scheme := sch, Host := Host u, url_Path := TrimRight_slash (url_Path u)\<rparr>)"
proof -
  let ?raw = "''http'' @ ''://'' @ ''localhost:8000'' @ ''/v2//''"
  have "visible (last ?raw)" by (simp add: visible_def)
  note v = Validate_plain [OF demo_hosts(1,3) _ this, of "\<lambda>_. None", simplified demo_loopback simp_thms, OF TrueI]
  from v(4) have "CHR ''%'' \<notin> set (TrimSpace ?raw)" unfolding v(2) .
  with validated_base_url_parses_back [OF v(1)] obtain u
    where u: "url_Parse ?raw = Some u" "ToLower (Scheme u) = ''https'' \<or> ToLower (Scheme u) = ''http'' \<and> isLoopbackHost (\<lambda>_. None) (Hostname u)"
      "url_Parse (''http'' @ ''://'' @ ''localhost:8000'' @ TrimRight_slash ''/v2//'') =
        Some (empty_URL\<lparr>Scheme := ToLower (Scheme u), Host := Host u, url_Path := TrimRight_slash (url_Path u)\<rparr>)"
    unfolding v(2) by blast
  have "Scheme u = ''http''" using u(1) v(3) by (auto simp: empty_URL_def)
  then show ?thesis using u unfolding demo_trims by (intro exI [of _ u] exI [of _ "''http''"]) (simp only: demo_trims; simp)
qed

section \<open>Where a key's requests go\<close>

lemma override_of_canonical:
  assumes "url_Parse c = Some (empty_URL\<lparr>Scheme := sch, Host := h, url_Path := p\<rparr>)" "sch \<noteq> []" "h \<noteq> []"
    "UpstreamBaseURL k = c" "c \<noteq> []"
  shows "target_of base (Some k) = empty_URL\<lparr>Scheme := sch, Host := h, url_Path := p\<rparr>"
  using assms by (simp add: target_of_def override_of_def)

text \<open>C35: The requests that the OpenAI adapter makes for a key whose base URL was validated and has no percent sign go to that
  URL's host over that URL's scheme, under its path, whatever was requested before; so does the key's secret. With
  an https URL it never leaves in the clear. Without the condition on the percent sign this is false: a validated
  URL with an escape may be stored in a form that does not parse, and the requests then go to the global
  provider (\<open>escaped_base_url_is_misrouted\<close>).\<close>

theorem validated_base_url_is_used:
  assumes "ValidateUpstreamBaseURL lookup raw = Inr (UpstreamBaseURL k)" "CHR ''%'' \<notin> set (TrimSpace raw)"
  shows "\<exists>u. url_Parse (TrimSpace raw) = Some u \<and>
    (let out = snd (OpenAI_rewrite cfg (cache_after cfg hist) (Some k) r) in
      or_Host out = Host u \<and> Host (or_URL out) = Host u \<and> Scheme (or_URL out) = ToLower (Scheme u) \<and>
      url_Path (or_URL out) = singleJoiningSlash (TrimRight_slash (url_Path u)) (url_Path (or_URL r)) \<and>
      or_Header out ''Authorization'' = [''Bearer '' @ UpstreamKey k])"
proof -
  from Validate_Inr [OF assms(1)] obtain u where u: "url_Parse (TrimSpace raw) = Some u" "Host u \<noteq> []"
      "ToLower (Scheme u) = ''https'' \<or> ToLower (Scheme u) = ''http''" "RawQuery u = []" "\<not> User u"
      "UpstreamBaseURL k = ToLower (Scheme u) @ ''://'' @ Host u @ TrimRight_slash (url_Path u)" by blast
  from url_Parse_host [OF u(1,2,5,4) assms(2)] have "plain_authority (Host u)" "plain_path (TrimRight_slash (url_Path u))"
    by (simp_all add: TrimRight_slash_plain)
  note c = url_Parse_canonical [OF this u(3)]
  have "target_of (ad_base cfg) (Some k) = empty_URL\<lparr>Scheme := ToLower (Scheme u), Host := Host u,
      url_Path := TrimRight_slash (url_Path u)\<rparr>"
    by (rule override_of_canonical [OF c]) (use u in auto)
  then show ?thesis
    using OpenAI_rewrite_target [OF cache_after_ok [of cfg hist], of cfg "Some k" r] u(1)
    by (auto simp: Let_def SetURL_def OpenAI_rewrite_header)
qed

theorem validated_base_url_is_used_witness:
  "\<exists>u. url_Parse (''https'' @ ''://'' @ ''api.groq.com'' @ ''/openai/'') = Some u \<and>
    (let out = snd (OpenAI_rewrite demo_config (cache_after demo_config [])
        (Some (demo_key\<lparr>UpstreamBaseURL := ''https'' @ ''://'' @ ''api.groq.com'' @ ''/openai''\<rparr>)) (demo_request [])) in
      or_Host out = Host u \<and> or_Header out ''Authorization'' = [''Bearer '' @ UpstreamKey demo_key])"
proof -
  let ?raw = "''https'' @ ''://'' @ ''api.groq.com'' @ ''/openai/''"
  let ?k = "demo_key\<lparr>UpstreamBaseURL := ''https'' @ ''://'' @ ''api.groq.com'' @ ''/openai''\<rparr>"
  have "visible (last ?raw)" by (simp add: visible_def)
  note v = Validate_plain [where lookup = "\<lambda>_. None", OF demo_hosts(2,4) disjI1 [OF refl] this]
  from v(4) have p: "CHR ''%'' \<notin> set (TrimSpace ?raw)" unfolding v(2) .
  have "UpstreamBaseURL ?k = ''https'' @ ''://'' @ ''api.groq.com'' @ ''/openai''" "UpstreamKey ?k = UpstreamKey demo_key"
    by simp_all
  with validated_base_url_is_used [where lookup = "\<lambda>_. None" and raw = ?raw and k = ?k and cfg = demo_config
      and hist = "[]" and r = "demo_request []"] v(1) p show ?thesis
    unfolding v(2) demo_trims Let_def by metis
qed

text \<open>A percent-encoded base URL can be accepted and then not be used: its stored form no longer parses, so
  the requests of the key, with its secret, go to the global provider instead.\<close>

theorem escaped_base_url_is_misrouted:
  "ValidateUpstreamBaseURL lookup ''https://llm.example/a%25'' = Inr ''https://llm.example/a%'' \<and>
   (let out = snd (OpenAI_rewrite cfg (cache_after cfg hist)
        (Some (demo_key\<lparr>UpstreamBaseURL := ''https://llm.example/a%''\<rparr>)) r) in
      or_Host out = Host (ad_base cfg) \<and> Host (or_URL out) = Host (ad_base cfg) \<and>
      or_Header out ''Authorization'' = [''Bearer sk-1''])"
proof -
  let ?k = "demo_key\<lparr>UpstreamBaseURL := ''https://llm.example/a%''\<rparr>"
  have t: "TrimSpace ''https://llm.example/a%25'' = ''https://llm.example/a%25''"
    by (rule TrimSpace_id) (simp_all add: visible_def)
  have "url_Parse ''https://llm.example/a%25'' = Some (empty_URL\<lparr>Scheme := ''https'', Host := ''llm.example'',
      url_Path := ''/a%''\<rparr>)" by code_simp
  then have v: "ValidateUpstreamBaseURL lookup ''https://llm.example/a%25'' = Inr ''https://llm.example/a%''"
    unfolding ValidateUpstreamBaseURL_def t by (simp add: empty_URL_def ToLower_def lower_char_def TrimRight_slash_def)
  have "url_Parse ''https://llm.example/a%'' = None" by code_simp
  then have "target_of (ad_base cfg) (Some ?k) = ad_base cfg" by (simp add: target_of_def override_of_def)
  moreover have "UpstreamKey ?k = ''sk-1''" by (simp add: demo_key_def)
  ultimately show ?thesis
    using OpenAI_rewrite_target [OF cache_after_ok [of cfg hist], of cfg "Some ?k" r] v
    by (simp add: Let_def SetURL_def OpenAI_rewrite_header)
qed

end
