(* ===== verification/Timestamps.thy ===== *)
theory Timestamps
  imports Civil_Time Json_Any "HOL-Library.Monad_Syntax"
begin

text \<open>
  What the program uses of Go's \<open>time\<close> for RFC 3339: \<open>Parse\<close> and \<open>Format\<close> with the layout
  \<open>time.RFC3339Nano\<close>, as the generic parser has them (one-digit hours, a comma before the fraction and
  offsets up to \<open>24:60\<close> are accepted), and the text \<open>Time.MarshalJSON\<close> writes. Times are UTC instants in
  nanoseconds. The last lemmas say that a formatted time of a four-digit year parses back.
\<close>

section \<open>Parsing\<close>

definition dig :: "char \<Rightarrow> nat" where
  "dig c = byte c - 48"

text \<open>\<open>getnum\<close>: one or two digits, exactly two when \<open>fixed\<close>.\<close>

definition getnum :: "bool \<Rightarrow> string \<Rightarrow> (nat \<times> string) option" where
  "getnum fixed s = (case s of a # b # r \<Rightarrow>
       if \<not> is_dig a then None else if is_dig b then Some (10 * dig a + dig b, r)
       else if fixed then None else Some (dig a, b # r)
     | [a] \<Rightarrow> if is_dig a \<and> \<not> fixed then Some (dig a, []) else None
     | [] \<Rightarrow> None)"

definition get_year :: "string \<Rightarrow> (nat \<times> string) option" where
  "get_year s = (if 4 \<le> length s \<and> list_all is_dig (take 4 s) then Some (dec_value (take 4 s), drop 4 s) else None)"

definition skip :: "char \<Rightarrow> string \<Rightarrow> string option" where
  "skip c s = (case s of d # r \<Rightarrow> if d = c then Some r else None | [] \<Rightarrow> None)"

text \<open>A number after a separator, below a bound.\<close>

definition get_field :: "char \<Rightarrow> bool \<Rightarrow> nat \<Rightarrow> string \<Rightarrow> (nat \<times> string) option" where
  "get_field c fixed bound s = do {
     s \<leftarrow> skip c s; (n, r) \<leftarrow> getnum fixed s; if n < bound then Some (n, r) else None }"

text \<open>The nanoseconds of a fraction, where there is one.\<close>

definition get_frac :: "string \<Rightarrow> nat \<times> string" where
  "get_frac s = (case s of p # d # r \<Rightarrow>
       if (p = CHR ''.'' \<or> p = CHR '','') \<and> is_dig d then
         let ds = take 9 (takeWhile is_dig (d # r))
         in (dec_value ds * 10 ^ (9 - length ds), dropWhile is_dig (d # r))
       else (0, s)
     | _ \<Rightarrow> (0, s))"

text \<open>The offset east of UTC in seconds; nothing may follow.\<close>

definition get_zone :: "string \<Rightarrow> int option" where
  "get_zone s = (if s = ''Z'' then Some 0
     else case s of [sign, h1, h2, c, m1, m2] \<Rightarrow> do {
         (h, _) \<leftarrow> getnum True [h1, h2]; (m, _) \<leftarrow> getnum True [m1, m2];
         if c \<noteq> CHR '':'' \<or> 24 < h \<or> 60 < m then None
         else if sign = CHR ''+'' then Some (int (h * 60 + m) * 60)
         else if sign = CHR ''-'' then Some (- (int (h * 60 + m) * 60)) else None }
       | _ \<Rightarrow> None)"

definition daysIn :: "nat \<Rightarrow> nat \<Rightarrow> int" where
  "daysIn m y = month_lengths (int y) ! (m - 1)"

definition time_Parse :: "string \<Rightarrow> instant option" where
  "time_Parse s = do {
     (year, s) \<leftarrow> get_year s;
     (month, s) \<leftarrow> get_field (CHR ''-'') True 13 s;
     (day, s) \<leftarrow> get_field (CHR ''-'') True 100 s;
     (hour, s) \<leftarrow> get_field (CHR ''T'') False 24 s;
     (mi, s) \<leftarrow> get_field (CHR '':'') True 60 s;
     (sec, s) \<leftarrow> get_field (CHR '':'') True 60 s;
     let (ns, s) = get_frac s;
     off \<leftarrow> get_zone s;
     if month = 0 \<or> day = 0 \<or> daysIn month year < int day then None
     else Some ((day_of_date (int year, month, day) * 86400 + int ((hour * 60 + mi) * 60 + sec) - off) * ns_per_s + int ns) }"

section \<open>Formatting\<close>

definition frac_text :: "nat \<Rightarrow> string" where
  "frac_text ns = (if ns = 0 then [] else ''.'' @ rev (dropWhile (\<lambda>c. c = CHR ''0'') (rev (zpad 9 ns))))"

definition seconds_of_day :: "instant \<Rightarrow> nat" where
  "seconds_of_day t = nat (t mod ns_per_day div ns_per_s)"

definition nanos_of :: "instant \<Rightarrow> nat" where
  "nanos_of t = nat (t mod ns_per_s)"

definition format_RFC3339Nano :: "instant \<Rightarrow> string" where
  "format_RFC3339Nano t = (let n = seconds_of_day t in
     format_day t @ ''T'' @ zpad 2 (n div 3600) @ '':'' @ zpad 2 (n div 60 mod 60) @ '':'' @ zpad 2 (n mod 60) @
     frac_text (nanos_of t) @ ''Z'')"

definition year_of :: "instant \<Rightarrow> int" where
  "year_of t = year_of_day (utc_day t)"

text \<open>\<open>MarshalJSON\<close> fails on a year that does not have four digits.\<close>

definition time_json :: "instant \<Rightarrow> json option" where
  "time_json t = (if 0 \<le> year_of t \<and> year_of t \<le> 9999 then Some (JStr (format_RFC3339Nano t)) else None)"

section \<open>The round trip\<close>

lemma is_dig_digit [simp]: "n < 10 \<Longrightarrow> is_dig (digit n)" "n < 10 \<Longrightarrow> dig (digit n) = n"
  by (simp_all add: is_dig_def dig_def of_char_digit)

lemma dec_small: "n < 10 \<Longrightarrow> dec n = [digit n]"
  by (subst dec.simps) simp

lemma dec_step: "10 \<le> n \<Longrightarrow> dec n = dec (n div 10) @ [digit (n mod 10)]"
  by (subst dec.simps) simp

lemma digit_0: "digit 0 = CHR ''0''"
  by code_simp

lemma zpad_snoc:
  assumes "0 < w" "n < 10 ^ Suc w"
  shows "zpad (Suc w) n = zpad w (n div 10) @ [digit (n mod 10)]"
proof (cases "n < 10")
  case True
  then show ?thesis using assms(1) by (simp add: zpad_def dec_small digit_0 flip: replicate_append_same replicate_Suc)
    (metis Suc_pred replicate_Suc replicate_append_same)
next
  case False
  then show ?thesis by (simp add: zpad_def dec_step)
qed

lemma zpad_1: "n < 10 \<Longrightarrow> zpad 1 n = [digit n]"
  by (simp add: zpad_def dec_small)

lemma zpad_2: "n < 100 \<Longrightarrow> zpad 2 n = [digit (n div 10), digit (n mod 10)]"
  using zpad_snoc [of 1 n] zpad_1 [of "n div 10"] by (simp add: numeral_2_eq_2)

lemma zpad_length: "0 < w \<Longrightarrow> n < 10 ^ w \<Longrightarrow> length (zpad w n) = w \<and> list_all is_dig (zpad w n)"
proof (induction w arbitrary: n)
  case (Suc w)
  show ?case
  proof (cases "w = 0")
    case True
    then show ?thesis using Suc.prems zpad_1 [of n] by simp
  next
    case False
    moreover have "n div 10 < 10 ^ w" using Suc.prems(2) by (simp add: less_mult_imp_div_less mult.commute)
    ultimately show ?thesis using Suc.IH [of "n div 10"] Suc.prems zpad_snoc [of w n] by simp
  qed
qed simp

lemma getnum_zpad: "n < 100 \<Longrightarrow> getnum fixed (zpad 2 n @ r) = Some (n, r)"
  by (simp add: zpad_2 getnum_def)

lemma get_field_zpad: "n < bound \<Longrightarrow> bound \<le> 100 \<Longrightarrow> get_field c fixed bound (c # zpad 2 n @ r) = Some (n, r)"
  by (simp add: get_field_def skip_def getnum_zpad)

lemma get_year_append: "0 \<le> y \<Longrightarrow> y \<le> 9999 \<Longrightarrow> get_year (append_int 4 y @ r) = Some (nat y, r)"
  using zpad_length [of 4 "nat y"] by (simp add: append_int_def get_year_def)

lemma get_frac_none: "c \<noteq> CHR ''.'' \<and> c \<noteq> CHR '','' \<Longrightarrow> get_frac (c # r) = (0, c # r)"
  by (simp add: get_frac_def split: list.split)

lemma get_frac_text: "n < 10 ^ 9 \<Longrightarrow> get_frac (frac_text n @ ''Z'') = (n, ''Z'')"
proof (cases "n = 0")
  case True
  then show ?thesis by (simp add: frac_text_def get_frac_none)
next
  case False
  assume n: "n < 10 ^ 9"
  define ds where "ds = rev (dropWhile (\<lambda>c. c = CHR ''0'') (rev (zpad 9 n)))"
  define z where "z = length (takeWhile (\<lambda>c. c = CHR ''0'') (rev (zpad 9 n)))"
  have "takeWhile (\<lambda>c. c = CHR ''0'') (rev (zpad 9 n)) = replicate z CHR ''0''"
    unfolding z_def by (intro replicate_length_same [symmetric]) (auto dest: set_takeWhileD)
  then have "rev (zpad 9 n) = replicate z CHR ''0'' @ rev ds" by (metis ds_def rev_rev_ident takeWhile_dropWhile_id)
  then have split: "zpad 9 n = ds @ replicate z CHR ''0''" by (metis rev_append rev_replicate rev_rev_ident)
  have l: "length (zpad 9 n) = 9" "list_all is_dig (zpad 9 n)" using zpad_length [of 9 n] n by simp_all
  then have d: "length ds + z = 9" "list_all is_dig ds" using split by simp_all
  have v: "dec_value ds * 10 ^ z = n" using split dec_value_zeros [of ds z] dec_value_zpad [of 9 n] by simp
  then have "ds \<noteq> []" using False by (auto simp: dec_value_def)
  then obtain a t where a: "ds = a # t" by (cases ds) auto
  have "takeWhile is_dig (ds @ ''Z'') = ds" "dropWhile is_dig (ds @ ''Z'') = ''Z''"
    using digits_all [OF d(2), of "''Z''"] by (simp_all add: is_dig_def)
  moreover have "take 9 ds = ds" "9 - length ds = z" using d(1) by simp_all
  ultimately have "get_frac (''.'' @ ds @ ''Z'') = (n, ''Z'')"
    using a d(2) v by (simp add: get_frac_def Let_def)
  then show ?thesis using False by (simp add: frac_text_def ds_def)
qed

lemma date_in_month:
  assumes "date_of_day n = (y, m, d)" "0 \<le> y"
  shows "int d \<le> daysIn m (nat y)"
proof -
  have "month_scan k ls x = (m', d') \<Longrightarrow> 0 \<le> x \<Longrightarrow> x < sum_list ls \<Longrightarrow> int d' \<le> ls ! (m' - k)" for k ls x m' d'
  proof (induction k ls x rule: month_scan.induct)
    case (2 k l ls x)
    show ?case
    proof (cases "x < l")
      case False
      then have s: "month_scan (Suc k) ls (x - l) = (m', d')" "0 \<le> x - l" "x - l < sum_list ls" using 2 by simp_all
      have "Suc k \<le> m'" using month_scan_ge [OF s(1)] .
      moreover from this have "m' - k = Suc (m' - Suc k)" by simp
      ultimately show ?thesis using "2.IH" [OF False s] by simp
    qed (use 2 in auto)
  qed simp
  moreover have "month_scan 1 (month_lengths y) (n - year_start y) = (m, d)" "y = year_of_day n"
    using assms(1) by (auto simp: date_of_day_def Let_def)
  moreover have "0 \<le> n - year_start y" "n - year_start y < sum_list (month_lengths y)"
    using year_of_day_bounds [of n] calculation(3) year_start_Suc [of y] by (simp_all add: sum_month_lengths)
  ultimately show ?thesis using assms(2) by (simp add: daysIn_def)
qed

text \<open>A time of a four-digit year is read back from its text.\<close>

lemma time_Parse_format:
  assumes "0 \<le> year_of t" "year_of t \<le> 9999"
  shows "time_Parse (format_RFC3339Nano t) = Some t"
proof -
  obtain y m d where dt: "date_of_day (utc_day t) = (y, m, d)" by (metis prod_cases3)
  note date = date_of_dayE [OF dt]
  define n where "n = seconds_of_day t"
  have y: "0 \<le> y" "y \<le> 9999" using assms date(1) by (simp_all add: year_of_def)
  have mod: "0 \<le> t mod ns_per_day" "t mod ns_per_day < ns_per_day" by (simp_all add: ns_per_day_def)
  then have "t mod ns_per_day div ns_per_s < 86400" by (simp add: ns_per_day_def ns_per_s_def)
  then have n: "n < 86400" by (simp add: n_def seconds_of_day_def)
  have nanos: "nanos_of t < 10 ^ 9" by (simp add: nanos_of_def ns_per_s_def)
  have "t mod ns_per_day mod ns_per_s = t mod ns_per_s"
    by (rule mod_mod_cancel) (simp add: ns_per_day_def ns_per_s_def)
  then have "t mod ns_per_day = int n * ns_per_s + int (nanos_of t)"
    using mod(1) div_mult_mod_eq [of "t mod ns_per_day" ns_per_s]
    by (simp add: n_def seconds_of_day_def nanos_of_def ns_per_s_def)
  then have t: "t = utc_day t * ns_per_day + int n * ns_per_s + int (nanos_of t)"
    using div_mult_mod_eq [of t ns_per_day] by (simp add: utc_day_def)
  have f: "format_RFC3339Nano t = append_int 4 y @ CHR ''-'' # zpad 2 m @ CHR ''-'' # zpad 2 d @ CHR ''T'' #
      zpad 2 (n div 3600) @ CHR '':'' # zpad 2 (n div 60 mod 60) @ CHR '':'' # zpad 2 (n mod 60) @ frac_text (nanos_of t) @ ''Z''"
    by (simp add: format_RFC3339Nano_def format_day_def dt n_def Let_def)
  have h: "n div 3600 < 24" using n by (simp add: less_mult_imp_div_less)
  have k: "int (nat y) = y" "int d \<le> daysIn m (nat y)" using y date_in_month [OF dt] by simp_all
  have s: "(n div 3600 * 60 + n div 60 mod 60) * 60 + n mod 60 = n" by (simp add: div_mult2_eq [of n 60 60, simplified])
  have "(a * 60 + b) * 60 + c = n \<Longrightarrow> 3600 * int a + int b * 60 + int c = int n" for a b c by presburger
  from this [OF s] have s': "3600 * int (n div 3600) + int (n div 60 mod 60) * 60 + int (n mod 60) = int n" .
  have "time_Parse (format_RFC3339Nano t) = Some ((day_of_date (y, m, d) * 86400 + int n - 0) * ns_per_s + int (nanos_of t))"
    unfolding f time_Parse_def
    using y h k date(2-5) get_year_append [OF y] get_frac_text [OF nanos]
    by (simp add: get_field_zpad get_zone_def s')
  also have "(day_of_date (y, m, d) * 86400 + int n - 0) * ns_per_s + int (nanos_of t) = t"
    using t date(6) by (simp add: ns_per_day_def ns_per_s_def algebra_simps)
  finally show ?thesis .
qed

end
