(* ===== verification/Admin.thy ===== *)
theory Admin
  imports Timestamps Base_URL Killswitch
begin

text \<open>
  \<open>internal/admin/admin.go\<close> and \<open>WriteJSON\<close> of \<open>internal/api/errors.go\<close>: the admin endpoints. A server is a
  record of its token, its kill switch and its key store (absent when nil) over the state \<open>'s\<close> of whatever
  implements them. What a handler takes from outside is an \<open>admin_env\<close>: the clock at its two readings,
  the random source and the resolver. Request bodies are the bytes read, decoded by the model of
  \<open>encoding/json\<close>; a response is the plain text of \<open>http.Error\<close>, the error envelope or a JSON value, \<open>None\<close>
  where encoding it fails and the body stays empty. Log lines are not modelled.
\<close>

section \<open>Responses\<close>

datatype admin_response = NoRoute | MethodNotAllowed | TextError nat string | ErrorEnvelope error_response | JSONBody nat "json option"

definition WriteJSON :: "nat \<Rightarrow> json option \<Rightarrow> admin_response" where
  "WriteJSON code body = JSONBody code body"

definition admin_WriteError :: "nat \<Rightarrow> string \<Rightarrow> string \<Rightarrow> admin_response" where
  "admin_WriteError code err msg = ErrorEnvelope (WriteError None code err msg)"

record keyView =
  v_ID :: string
  v_Name :: string
  v_Upstream :: string
  v_DailyBudgetUSD :: f64
  v_MonthBudgetUSD :: f64
  v_RPSLimit :: i64
  v_RPMLimit :: i64
  v_MaxConcurrent :: i64
  v_UpstreamTimeoutSeconds :: i64
  v_UpstreamBaseURL :: string
  v_CreatedAt :: instant
  v_RevokedAt :: "instant option"
  v_ExpiresAt :: "instant option"

definition viewOf :: "VirtualKey \<Rightarrow> keyView" where
  "viewOf k = \<lparr>v_ID = ID k, v_Name = Name k, v_Upstream = Upstream k, v_DailyBudgetUSD = DailyBudgetUSD k,
     v_MonthBudgetUSD = MonthBudgetUSD k, v_RPSLimit = RPSLimit k, v_RPMLimit = RPMLimit k,
     v_MaxConcurrent = MaxConcurrent k, v_UpstreamTimeoutSeconds = UpstreamTimeoutSeconds k,
     v_UpstreamBaseURL = UpstreamBaseURL k, v_CreatedAt = CreatedAt k, v_RevokedAt = RevokedAt k,
     v_ExpiresAt = ExpiresAt k\<rparr>"

text \<open>How the encoder writes a view: the fields in their order, the last ones omitted when empty.\<close>

definition string_json :: "string \<Rightarrow> json option" where
  "string_json s = Some (JStr (escape s))"

definition int_json :: "i64 \<Rightarrow> json option" where
  "int_json n = Some (JNum (Itoa n))"

definition float_json :: "f64 \<Rightarrow> json option" where
  "float_json x = (case x of Fin r \<Rightarrow> Some (JNum (format_float r)) | _ \<Rightarrow> None)"

definition object_json :: "(string \<times> json option) list \<Rightarrow> json option" where
  "object_json ms = map_option JObj (those (map (\<lambda>(k, j). map_option (Pair k) j) ms))"

definition omitempty :: "bool \<Rightarrow> string \<times> json option \<Rightarrow> (string \<times> json option) list" where
  "omitempty present m = (if present then [m] else [])"

definition view_fields :: "keyView \<Rightarrow> (string \<times> json option) list" where
  "view_fields v =
     [(''id'', string_json (v_ID v)), (''name'', string_json (v_Name v)), (''upstream'', string_json (v_Upstream v)),
      (''daily_budget_usd'', float_json (v_DailyBudgetUSD v)), (''month_budget_usd'', float_json (v_MonthBudgetUSD v)),
      (''rps_limit'', int_json (v_RPSLimit v)), (''rpm_limit'', int_json (v_RPMLimit v)),
      (''max_concurrent'', int_json (v_MaxConcurrent v)),
      (''upstream_timeout_seconds'', int_json (v_UpstreamTimeoutSeconds v))] @
     omitempty (v_UpstreamBaseURL v \<noteq> []) (''upstream_base_url'', string_json (v_UpstreamBaseURL v)) @
     [(''created_at'', time_json (v_CreatedAt v))] @
     (case v_RevokedAt v of None \<Rightarrow> [] | Some t \<Rightarrow> [(''revoked_at'', time_json t)]) @
     (case v_ExpiresAt v of None \<Rightarrow> [] | Some t \<Rightarrow> [(''expires_at'', time_json t)])"

definition view_json :: "keyView \<Rightarrow> json option" where
  "view_json v = object_json (view_fields v)"

definition createKeyResponse :: "keyView \<Rightarrow> string \<Rightarrow> json option" where
  "createKeyResponse v token = object_json (view_fields v @ [(''token'', string_json token)])"

definition frozen_json :: "bool \<Rightarrow> json option" where
  "frozen_json b = object_json [(''frozen'', Some (JBool b))]"

section \<open>The server\<close>

record 's key_ops =
  op_Create :: "'s \<Rightarrow> VirtualKey option \<Rightarrow> 's \<times> (keys_error + unit)"
  op_GetByID :: "'s \<Rightarrow> string \<Rightarrow> keys_error + VirtualKey"
  op_List :: "'s \<Rightarrow> keys_error + VirtualKey list"
  op_Revoke :: "'s \<Rightarrow> instant \<Rightarrow> string \<Rightarrow> 's \<times> (keys_error + unit)"
  op_Update :: "'s \<Rightarrow> string \<Rightarrow> KeyPatch \<Rightarrow> 's \<times> (keys_error + VirtualKey)"

record 's admin_server =
  sv_token :: string
  sv_IsFrozen :: "'s \<Rightarrow> string + bool"
  sv_SetFrozen :: "'s \<Rightarrow> bool \<Rightarrow> 's \<times> (string + unit)"
  sv_keys :: "'s key_ops option"

definition NewServer :: "string \<Rightarrow> ('s \<Rightarrow> string + bool) \<Rightarrow> ('s \<Rightarrow> bool \<Rightarrow> 's \<times> (string + unit)) \<Rightarrow>
    's key_ops option \<Rightarrow> 's admin_server" where
  "NewServer token isFrozen setFrozen keyStore =
     \<lparr>sv_token = token, sv_IsFrozen = isFrozen, sv_SetFrozen = setFrozen, sv_keys = keyStore\<rparr>"

record admin_env =
  ae_check :: instant
  ae_stamp :: instant
  ae_rand :: "nat \<Rightarrow> string + 8 word list"
  ae_lookup :: "string \<Rightarrow> ip list option"

definition immutableFieldError :: string where "immutableFieldError = ''immutable_field''"
definition errCodeInvalidExpiresAt :: string where "errCodeInvalidExpiresAt = ''invalid_expires_at''"
definition errCodeExpiresInPast :: string where "errCodeExpiresInPast = ''expires_in_past''"

definition expiresInFutureSkew :: int where "expiresInFutureSkew = 1 * ns_per_s"
definition maxUpstreamTimeoutSeconds :: i64 where "maxUpstreamTimeoutSeconds = 3600"

definition messageForExpiresAtCode :: "string \<Rightarrow> string" where
  "messageForExpiresAtCode code = (if code = errCodeExpiresInPast then ''expires_at must be in the future''
     else if code = errCodeInvalidExpiresAt then ''expires_at must be an RFC3339 UTC timestamp''
     else ''invalid expires_at'')"

definition parseExpiresAt :: "string \<Rightarrow> instant \<Rightarrow> string + instant" where
  "parseExpiresAt raw now = (let raw = TrimSpace raw in
     if raw = [] then Inl errCodeInvalidExpiresAt
     else case time_Parse raw of None \<Rightarrow> Inl errCodeInvalidExpiresAt
       | Some t \<Rightarrow> if \<not> now + expiresInFutureSkew < t then Inl errCodeExpiresInPast else Inr t)"

section \<open>The kill switch\<close>

definition handleGetFreeze :: "'s admin_server \<Rightarrow> 's \<Rightarrow> 's \<times> admin_response" where
  "handleGetFreeze srv s = (case sv_IsFrozen srv s of
     Inl _ \<Rightarrow> (s, TextError 500 ''internal error'') | Inr frozen \<Rightarrow> (s, WriteJSON 200 (frozen_json frozen)))"

definition dec_freeze :: "bool decoder" where
  "dec_freeze = dec_struct False [field ''frozen'' dec_bool id (\<lambda>x _. x)]"

definition handleSetFreeze :: "'s admin_server \<Rightarrow> 's \<Rightarrow> string \<Rightarrow> 's \<times> admin_response" where
  "handleSetFreeze srv s body = (case Decode dec_freeze False body of
     None \<Rightarrow> (s, TextError 400 ''invalid json body'')
   | Some frozen \<Rightarrow> (case sv_SetFrozen srv s frozen of
       (s, Inl _) \<Rightarrow> (s, TextError 500 ''internal error'')
     | (s, Inr _) \<Rightarrow> (s, WriteJSON 200 (frozen_json frozen))))"

section \<open>Creating a key\<close>

record create_body =
  cb_Name :: string
  cb_Upstream :: string
  cb_UpstreamKey :: string
  cb_DailyBudgetUSD :: f64
  cb_MonthBudgetUSD :: f64
  cb_RPSLimit :: i64
  cb_RPMLimit :: i64
  cb_MaxConcurrent :: i64
  cb_UpstreamTimeoutSeconds :: i64
  cb_UpstreamBaseURL :: string
  cb_ExpiresAt :: string

definition create_body_zero :: create_body where
  "create_body_zero = \<lparr>cb_Name = [], cb_Upstream = [], cb_UpstreamKey = [], cb_DailyBudgetUSD = Fin 0,
     cb_MonthBudgetUSD = Fin 0, cb_RPSLimit = 0, cb_RPMLimit = 0, cb_MaxConcurrent = 0,
     cb_UpstreamTimeoutSeconds = 0, cb_UpstreamBaseURL = [], cb_ExpiresAt = []\<rparr>"

definition dec_create_body :: "create_body decoder" where
  "dec_create_body = dec_struct False
     [field ''name'' dec_string cb_Name (\<lambda>x. cb_Name_update (\<lambda>_. x)),
      field ''upstream'' dec_string cb_Upstream (\<lambda>x. cb_Upstream_update (\<lambda>_. x)),
      field ''upstream_key'' dec_string cb_UpstreamKey (\<lambda>x. cb_UpstreamKey_update (\<lambda>_. x)),
      field ''daily_budget_usd'' dec_float cb_DailyBudgetUSD (\<lambda>x. cb_DailyBudgetUSD_update (\<lambda>_. x)),
      field ''month_budget_usd'' dec_float cb_MonthBudgetUSD (\<lambda>x. cb_MonthBudgetUSD_update (\<lambda>_. x)),
      field ''rps_limit'' dec_int cb_RPSLimit (\<lambda>x. cb_RPSLimit_update (\<lambda>_. x)),
      field ''rpm_limit'' dec_int cb_RPMLimit (\<lambda>x. cb_RPMLimit_update (\<lambda>_. x)),
      field ''max_concurrent'' dec_int cb_MaxConcurrent (\<lambda>x. cb_MaxConcurrent_update (\<lambda>_. x)),
      field ''upstream_timeout_seconds'' dec_int cb_UpstreamTimeoutSeconds (\<lambda>x. cb_UpstreamTimeoutSeconds_update (\<lambda>_. x)),
      field ''upstream_base_url'' dec_string cb_UpstreamBaseURL (\<lambda>x. cb_UpstreamBaseURL_update (\<lambda>_. x)),
      field ''expires_at'' dec_string cb_ExpiresAt (\<lambda>x. cb_ExpiresAt_update (\<lambda>_. x))]"

text \<open>The checks before anything is made, in their order; then the two optional fields.\<close>

definition check_create :: "create_body \<Rightarrow> string \<Rightarrow> admin_response option" where
  "check_create b name =
     (if name = [] then Some (TextError 400 ''name is required'')
      else if 100 < length name then Some (TextError 400 ''name must be 100 characters or fewer'')
      else if cb_Upstream b \<noteq> UpstreamOpenAI \<and> cb_Upstream b \<noteq> UpstreamAnthropic then
        Some (TextError 400 (''upstream must be '' @ [chr 39] @ ''openai'' @ [chr 39] @ '' or '' @ [chr 39] @ ''anthropic'' @ [chr 39]))
      else if TrimSpace (cb_UpstreamKey b) = [] then Some (TextError 400 ''upstream_key is required'')
      else if f64_lt (cb_DailyBudgetUSD b) (Fin 0) \<or> f64_lt (cb_MonthBudgetUSD b) (Fin 0) then
        Some (TextError 400 ''budgets must be non-negative'')
      else if cb_RPSLimit b <s 0 \<or> cb_RPMLimit b <s 0 then Some (TextError 400 ''rate limits must be non-negative'')
      else if cb_MaxConcurrent b <s 0 then Some (TextError 400 ''max_concurrent must be non-negative'')
      else if cb_UpstreamTimeoutSeconds b <s 0 \<or> maxUpstreamTimeoutSeconds <s cb_UpstreamTimeoutSeconds b then
        Some (TextError 400 ''upstream_timeout_seconds must be between 0 and 3600'')
      else None)"

definition only_openai :: admin_response where
  "only_openai = admin_WriteError 400 ErrCodeInvalidBaseURL
     (''upstream_base_url is only supported when upstream is '' @ [chr 39] @ ''openai'' @ [chr 39])"

text \<open>A validation error as the response it gives; \<open>AsBaseURLError\<close> always finds one here.\<close>

definition base_url_error :: "BaseURLError \<Rightarrow> admin_response" where
  "base_url_error err = (case AsBaseURLError (BaseURLFailure err) of
     Some bue \<Rightarrow> admin_WriteError 400 (bue_Code bue) (bue_Message bue)
   | None \<Rightarrow> admin_WriteError 400 ErrCodeInvalidBaseURL ''invalid upstream_base_url'')"

definition create_base_url :: "admin_env \<Rightarrow> create_body \<Rightarrow> admin_response + string" where
  "create_base_url env b =
     (if TrimSpace (cb_UpstreamBaseURL b) \<noteq> [] then
        (if cb_Upstream b \<noteq> UpstreamOpenAI then Inl only_openai
         else case ValidateUpstreamBaseURL (ae_lookup env) (cb_UpstreamBaseURL b) of
             Inl err \<Rightarrow> Inl (base_url_error err) | Inr base \<Rightarrow> Inr base)
      else Inr [])"

definition create_expiry :: "admin_env \<Rightarrow> create_body \<Rightarrow> admin_response + instant option" where
  "create_expiry env b =
     (if TrimSpace (cb_ExpiresAt b) \<noteq> [] then
        (case parseExpiresAt (cb_ExpiresAt b) (ae_check env) of
           Inl code \<Rightarrow> Inl (admin_WriteError 400 code (messageForExpiresAtCode code)) | Inr t \<Rightarrow> Inr (Some t))
      else Inr None)"

definition new_key :: "admin_env \<Rightarrow> create_body \<Rightarrow> string \<Rightarrow> string \<Rightarrow> instant option \<Rightarrow> string \<Rightarrow> string \<Rightarrow> VirtualKey" where
  "new_key env b name canonicalBaseURL expiresAt kid token =
     \<lparr>ID = kid, Token = token, Name = name, Upstream = cb_Upstream b, UpstreamKey = cb_UpstreamKey b,
       DailyBudgetUSD = cb_DailyBudgetUSD b, MonthBudgetUSD = cb_MonthBudgetUSD b,
       UpstreamBaseURL = canonicalBaseURL, RPSLimit = cb_RPSLimit b, RPMLimit = cb_RPMLimit b,
       MaxConcurrent = cb_MaxConcurrent b, UpstreamTimeoutSeconds = cb_UpstreamTimeoutSeconds b,
       CreatedAt = ae_stamp env, RevokedAt = None, ExpiresAt = expiresAt\<rparr>"

definition handleCreateKey :: "'s key_ops \<Rightarrow> admin_env \<Rightarrow> 's \<Rightarrow> string \<Rightarrow> 's \<times> admin_response" where
  "handleCreateKey ops env s body = (case Decode dec_create_body create_body_zero body of
     None \<Rightarrow> (s, TextError 400 ''invalid json body'')
   | Some b \<Rightarrow> let name = TrimSpace (cb_Name b) in
     case check_create b name of Some e \<Rightarrow> (s, e) | None \<Rightarrow>
     case create_base_url env b of Inl e \<Rightarrow> (s, e) | Inr canonicalBaseURL \<Rightarrow>
     case create_expiry env b of Inl e \<Rightarrow> (s, e) | Inr expiresAt \<Rightarrow>
     case GenerateID (ae_rand env) of Inl _ \<Rightarrow> (s, TextError 500 ''internal error'') | Inr kid \<Rightarrow>
     case GenerateToken (ae_rand env) of Inl _ \<Rightarrow> (s, TextError 500 ''internal error'') | Inr token \<Rightarrow>
       let vk = new_key env b name canonicalBaseURL expiresAt kid token
       in (case op_Create ops s (Some vk) of
            (s, Inl _) \<Rightarrow> (s, TextError 500 ''failed to create key'')
          | (s, Inr _) \<Rightarrow> (s, WriteJSON 201 (createKeyResponse (viewOf vk) (Token vk)))))"

section \<open>Listing and revoking\<close>

definition handleListKeys :: "'s key_ops \<Rightarrow> 's \<Rightarrow> 's \<times> admin_response" where
  "handleListKeys ops s = (case op_List ops s of
     Inl _ \<Rightarrow> (s, TextError 500 ''internal error'')
   | Inr ks \<Rightarrow> (s, WriteJSON 200 (object_json [(''keys'', map_option JArr (those (map (view_json \<circ> viewOf) ks)))])))"

definition handleRevokeKey :: "'s key_ops \<Rightarrow> admin_env \<Rightarrow> 's \<Rightarrow> string \<Rightarrow> 's \<times> admin_response" where
  "handleRevokeKey ops env s kid =
     (if \<not> ValidID kid then (s, TextError 400 ''invalid key id'')
      else case op_Revoke ops s (ae_stamp env) kid of
        (s, Inl err) \<Rightarrow> if err = ErrNotFound then (s, TextError 404 ''key not found'')
            else (s, TextError 500 ''internal error'')
      | (s, Inr _) \<Rightarrow> (case op_GetByID ops s kid of
            Inl _ \<Rightarrow> (s, TextError 500 ''internal error'')
          | Inr vk \<Rightarrow> (s, WriteJSON 200 (view_json (viewOf vk)))))"

section \<open>Updating a key\<close>

text \<open>\<open>ub_ExpiresAt\<close> is a raw message: absent, or any value, null included. The last six fields are probes.\<close>

record update_body =
  ub_Name :: "string option"
  ub_DailyBudgetUSD :: "f64 option"
  ub_MonthBudgetUSD :: "f64 option"
  ub_RPSLimit :: "i64 option"
  ub_RPMLimit :: "i64 option"
  ub_MaxConcurrent :: "i64 option"
  ub_UpstreamTimeoutSeconds :: "i64 option"
  ub_UpstreamBaseURL :: "string option"
  ub_ExpiresAt :: "json option"
  ub_ID :: "json option option"
  ub_Token :: "json option option"
  ub_Upstream :: "json option option"
  ub_UpstreamKey :: "json option option"
  ub_CreatedAt :: "json option option"
  ub_RevokedAt :: "json option option"

definition update_body_zero :: update_body where
  "update_body_zero = \<lparr>ub_Name = None, ub_DailyBudgetUSD = None, ub_MonthBudgetUSD = None, ub_RPSLimit = None,
     ub_RPMLimit = None, ub_MaxConcurrent = None, ub_UpstreamTimeoutSeconds = None, ub_UpstreamBaseURL = None,
     ub_ExpiresAt = None, ub_ID = None, ub_Token = None, ub_Upstream = None, ub_UpstreamKey = None,
     ub_CreatedAt = None, ub_RevokedAt = None\<rparr>"

text \<open>\<open>DisallowUnknownFields\<close> makes the decoder strict.\<close>

definition dec_update_body :: "update_body decoder" where
  "dec_update_body = dec_struct True
     [field ''name'' (dec_pointer dec_string []) ub_Name (\<lambda>x. ub_Name_update (\<lambda>_. x)),
      field ''daily_budget_usd'' (dec_pointer dec_float (Fin 0)) ub_DailyBudgetUSD (\<lambda>x. ub_DailyBudgetUSD_update (\<lambda>_. x)),
      field ''month_budget_usd'' (dec_pointer dec_float (Fin 0)) ub_MonthBudgetUSD (\<lambda>x. ub_MonthBudgetUSD_update (\<lambda>_. x)),
      field ''rps_limit'' (dec_pointer dec_int 0) ub_RPSLimit (\<lambda>x. ub_RPSLimit_update (\<lambda>_. x)),
      field ''rpm_limit'' (dec_pointer dec_int 0) ub_RPMLimit (\<lambda>x. ub_RPMLimit_update (\<lambda>_. x)),
      field ''max_concurrent'' (dec_pointer dec_int 0) ub_MaxConcurrent (\<lambda>x. ub_MaxConcurrent_update (\<lambda>_. x)),
      field ''upstream_timeout_seconds'' (dec_pointer dec_int 0) ub_UpstreamTimeoutSeconds
        (\<lambda>x. ub_UpstreamTimeoutSeconds_update (\<lambda>_. x)),
      field ''upstream_base_url'' (dec_pointer dec_string []) ub_UpstreamBaseURL (\<lambda>x. ub_UpstreamBaseURL_update (\<lambda>_. x)),
      field ''expires_at'' dec_raw ub_ExpiresAt (\<lambda>x. ub_ExpiresAt_update (\<lambda>_. x)),
      field ''id'' (dec_pointer dec_raw None) ub_ID (\<lambda>x. ub_ID_update (\<lambda>_. x)),
      field ''token'' (dec_pointer dec_raw None) ub_Token (\<lambda>x. ub_Token_update (\<lambda>_. x)),
      field ''upstream'' (dec_pointer dec_raw None) ub_Upstream (\<lambda>x. ub_Upstream_update (\<lambda>_. x)),
      field ''upstream_key'' (dec_pointer dec_raw None) ub_UpstreamKey (\<lambda>x. ub_UpstreamKey_update (\<lambda>_. x)),
      field ''created_at'' (dec_pointer dec_raw None) ub_CreatedAt (\<lambda>x. ub_CreatedAt_update (\<lambda>_. x)),
      field ''revoked_at'' (dec_pointer dec_raw None) ub_RevokedAt (\<lambda>x. ub_RevokedAt_update (\<lambda>_. x))]"

definition immutable_probe :: "update_body \<Rightarrow> bool" where
  "immutable_probe b = (ub_ID b \<noteq> None \<or> ub_Token b \<noteq> None \<or> ub_Upstream b \<noteq> None \<or>
     ub_UpstreamKey b \<noteq> None \<or> ub_CreatedAt b \<noteq> None \<or> ub_RevokedAt b \<noteq> None)"

definition check_update :: "update_body \<Rightarrow> string option \<Rightarrow> admin_response option" where
  "check_update b name =
     (if name = Some [] then Some (TextError 400 ''name must not be blank'')
      else if (case name of None \<Rightarrow> False | Some n \<Rightarrow> 100 < length n) then
        Some (TextError 400 ''name must be 100 characters or fewer'')
      else if (case ub_DailyBudgetUSD b of None \<Rightarrow> False | Some x \<Rightarrow> f64_lt x (Fin 0)) \<or>
        (case ub_MonthBudgetUSD b of None \<Rightarrow> False | Some x \<Rightarrow> f64_lt x (Fin 0)) then
        Some (TextError 400 ''budgets must be non-negative'')
      else if (case ub_RPSLimit b of None \<Rightarrow> False | Some n \<Rightarrow> n <s 0) \<or>
        (case ub_RPMLimit b of None \<Rightarrow> False | Some n \<Rightarrow> n <s 0) then
        Some (TextError 400 ''rate limits must be non-negative'')
      else if (case ub_MaxConcurrent b of None \<Rightarrow> False | Some n \<Rightarrow> n <s 0) then
        Some (TextError 400 ''max_concurrent must be non-negative'')
      else if (case ub_UpstreamTimeoutSeconds b of None \<Rightarrow> False
          | Some n \<Rightarrow> n <s 0 \<or> maxUpstreamTimeoutSeconds <s n) then
        Some (TextError 400 ''upstream_timeout_seconds must be between 0 and 3600'')
      else None)"

definition update_base_url :: "'s key_ops \<Rightarrow> admin_env \<Rightarrow> 's \<Rightarrow> string \<Rightarrow> update_body \<Rightarrow> admin_response + string option" where
  "update_base_url ops env s kid b = (case ub_UpstreamBaseURL b of None \<Rightarrow> Inr None | Some u \<Rightarrow>
     let raw = TrimSpace u in
     if raw \<noteq> [] then
       (case op_GetByID ops s kid of
          Inl err \<Rightarrow> if err = ErrNotFound then Inl (TextError 404 ''key not found'') else Inl (TextError 500 ''internal error'')
        | Inr current \<Rightarrow>
            if Upstream current \<noteq> UpstreamOpenAI then Inl only_openai
            else case ValidateUpstreamBaseURL (ae_lookup env) raw of
                Inl err \<Rightarrow> Inl (base_url_error err) | Inr base \<Rightarrow> Inr (Some base))
     else Inr (Some raw))"

text \<open>The tri-state of \<open>expires_at\<close>: what to set and whether to clear.\<close>

definition update_expiry :: "admin_env \<Rightarrow> update_body \<Rightarrow> admin_response + instant option \<times> bool" where
  "update_expiry env b = (case ub_ExpiresAt b of
     None \<Rightarrow> Inr (None, False)
   | Some JNull \<Rightarrow> Inr (None, True)
   | Some (JStr raw) \<Rightarrow> (case parseExpiresAt (unquote raw) (ae_check env) of
         Inl code \<Rightarrow> Inl (admin_WriteError 400 code (messageForExpiresAtCode code)) | Inr t \<Rightarrow> Inr (Some t, False))
   | Some _ \<Rightarrow> Inl (admin_WriteError 400 errCodeInvalidExpiresAt (messageForExpiresAtCode errCodeInvalidExpiresAt)))"

definition handleUpdateKey :: "'s key_ops \<Rightarrow> admin_env \<Rightarrow> 's \<Rightarrow> string \<Rightarrow> string \<Rightarrow> 's \<times> admin_response" where
  "handleUpdateKey ops env s kid body =
     (if \<not> ValidID kid then (s, TextError 400 ''invalid key id'')
      else case Decode dec_update_body update_body_zero body of
        None \<Rightarrow> (s, TextError 400 ''invalid json body'')
      | Some b \<Rightarrow>
          if immutable_probe b then (s, admin_WriteError 400 immutableFieldError
            ''id, token, upstream, upstream_key, created_at, and revoked_at cannot be changed'')
          else let name = map_option TrimSpace (ub_Name b) in
          case check_update b name of Some e \<Rightarrow> (s, e) | None \<Rightarrow>
          case update_base_url ops env s kid b of Inl e \<Rightarrow> (s, e) | Inr canonicalBaseURL \<Rightarrow>
          case update_expiry env b of Inl e \<Rightarrow> (s, e) | Inr (expiresAt, clear) \<Rightarrow>
            let patch = \<lparr>p_Name = name, p_DailyBudgetUSD = ub_DailyBudgetUSD b, p_MonthBudgetUSD = ub_MonthBudgetUSD b,
                  p_RPSLimit = ub_RPSLimit b, p_RPMLimit = ub_RPMLimit b, p_MaxConcurrent = ub_MaxConcurrent b,
                  p_UpstreamBaseURL = canonicalBaseURL, p_UpstreamTimeoutSeconds = ub_UpstreamTimeoutSeconds b,
                  p_ExpiresAt = expiresAt, p_ClearExpiresAt = clear\<rparr>
            in (case op_Update ops s kid patch of
                 (s, Inl err) \<Rightarrow>
                   if err = ErrNotFound then (s, TextError 404 ''key not found'')
                   else if err = ErrRevoked then (s, admin_WriteError 409 ''key_revoked'' ''cannot update a revoked key'')
                   else (s, TextError 500 ''internal error'')
               | (s, Inr updated) \<Rightarrow> (s, WriteJSON 200 (view_json (viewOf updated)))))"

section \<open>Routes\<close>

text \<open>The patterns of \<open>Mount\<close>, as \<open>http.ServeMux\<close> matches them on a clean path: GET also serves HEAD, and
  \<open>{id}\<close> is one nonempty segment.\<close>

datatype admin_route = RouteSetFreeze | RouteGetFreeze | RouteCreateKey | RouteListKeys
  | RouteUpdateKey string | RouteRevokeKey string

definition route_of :: "string \<Rightarrow> string \<Rightarrow> admin_route option" where
  "route_of verb path =
     (let get = (verb = ''GET'' \<or> verb = ''HEAD'') in
      case split_char (CHR ''/'') path of
        [a, b, c, d] \<Rightarrow>
          if [a, b, c] \<noteq> [[], ''admin'', ''v1''] then None
          else if d = ''killswitch'' then
            (if verb = ''POST'' then Some RouteSetFreeze else if get then Some RouteGetFreeze else None)
          else if d = ''keys'' then
            (if verb = ''POST'' then Some RouteCreateKey else if get then Some RouteListKeys else None)
          else None
      | [a, b, c, d, e] \<Rightarrow>
          if [a, b, c, d] = [[], ''admin'', ''v1'', ''keys''] \<and> e \<noteq> [] \<and> verb = ''PATCH'' then Some (RouteUpdateKey e) else None
      | [a, b, c, d, e, f] \<Rightarrow>
          if [a, b, c, d, f] = [[], ''admin'', ''v1'', ''keys'', ''revoke''] \<and> e \<noteq> [] \<and> verb = ''POST''
          then Some (RouteRevokeKey e) else None
      | _ \<Rightarrow> None)"

definition Mount :: "'s admin_server \<Rightarrow> admin_env \<Rightarrow> admin_route \<Rightarrow> ('s \<Rightarrow> string \<Rightarrow> 's \<times> admin_response) option" where
  "Mount srv env route = (case route of
     RouteSetFreeze \<Rightarrow> Some (handleSetFreeze srv)
   | RouteGetFreeze \<Rightarrow> Some (\<lambda>s _. handleGetFreeze srv s)
   | _ \<Rightarrow> (case sv_keys srv of None \<Rightarrow> None | Some ops \<Rightarrow> Some (case route of
         RouteCreateKey \<Rightarrow> handleCreateKey ops env
       | RouteUpdateKey kid \<Rightarrow> (\<lambda>s. handleUpdateKey ops env s kid)
       | RouteRevokeKey kid \<Rightarrow> (\<lambda>s _. handleRevokeKey ops env s kid)
       | _ \<Rightarrow> (\<lambda>s _. handleListKeys ops s))))"

text \<open>\<open>subtle.ConstantTimeCompare\<close>: 1 for equal contents.\<close>

definition ConstantTimeCompare :: "string \<Rightarrow> string \<Rightarrow> int" where
  "ConstantTimeCompare x y = (if length x = length y \<and> list_all2 (=) x y then 1 else 0)"

definition withAuth :: "'s admin_server \<Rightarrow> ('s \<Rightarrow> string \<Rightarrow> 's \<times> admin_response) \<Rightarrow>
    's \<Rightarrow> string \<Rightarrow> string \<Rightarrow> 's \<times> admin_response" where
  "withAuth srv next s got body =
     (if ConstantTimeCompare got (''Bearer '' @ sv_token srv) \<noteq> 1 then (s, TextError 401 ''unauthorized'')
      else next s body)"

record admin_request =
  rq_Method :: string
  rq_Path :: string
  rq_Authorization :: string
  rq_Body :: string

text \<open>The handler \<open>http.ServeMux\<close> finds for a method and a path, and its own answer when there is none:
  405 when the path is mounted for another method, 404 otherwise.\<close>

definition mounted :: "'s admin_server \<Rightarrow> admin_env \<Rightarrow> string \<Rightarrow> string \<Rightarrow>
    ('s \<Rightarrow> string \<Rightarrow> 's \<times> admin_response) option" where
  "mounted srv env verb path = (case route_of verb path of None \<Rightarrow> None | Some route \<Rightarrow> Mount srv env route)"

definition mux_refusal :: "'s admin_server \<Rightarrow> admin_env \<Rightarrow> string \<Rightarrow> admin_response" where
  "mux_refusal srv env path =
     (if list_ex (\<lambda>verb. \<not> Option.is_none (mounted srv env verb path)) [''GET'', ''POST'', ''PATCH'']
      then MethodNotAllowed else NoRoute)"

definition admin_ServeHTTP :: "'s admin_server \<Rightarrow> admin_env \<Rightarrow> 's \<Rightarrow> admin_request \<Rightarrow> 's \<times> admin_response" where
  "admin_ServeHTTP srv env s r = (case mounted srv env (rq_Method r) (rq_Path r) of
     None \<Rightarrow> (s, mux_refusal srv env (rq_Path r))
   | Some h \<Rightarrow> withAuth srv h s (rq_Authorization r) (rq_Body r))"

lemmas admin_ServeHTTP_defs = admin_ServeHTTP_def mounted_def

end
