(* ===== verification/Admin_Facts.thy ===== *)
theory Admin_Facts
  imports Admin Admission
begin

text \<open>
  What the admin endpoints guarantee, over any key store with the contract \<open>key_store\<close> and then over the
  stores a replica runs on (\<open>world\<close>): the keys they leave behind are well-formed, a refused
  request changes nothing, no response gives a stored secret away, and a revocation cuts a key off for good.
\<close>

section \<open>Well-formed keys\<close>

definition number :: "f64 \<Rightarrow> bool" where
  "number x \<longleftrightarrow> (\<exists>r. x = Fin r)"

definition amount :: "f64 \<Rightarrow> bool" where
  "amount x \<longleftrightarrow> number x \<and> f64_le (Fin 0) x"

definition valid_key :: "VirtualKey \<Rightarrow> bool" where
  "valid_key k \<longleftrightarrow> ValidID (ID k) \<and> IsReinToken (Token k) \<and> Name k \<noteq> [] \<and> length (Name k) \<le> 100 \<and>
     (Upstream k = UpstreamOpenAI \<or> Upstream k = UpstreamAnthropic) \<and> TrimSpace (UpstreamKey k) \<noteq> [] \<and>
     amount (DailyBudgetUSD k) \<and> amount (MonthBudgetUSD k) \<and> 0 \<le>s RPSLimit k \<and> 0 \<le>s RPMLimit k \<and>
     0 \<le>s MaxConcurrent k \<and> 0 \<le>s UpstreamTimeoutSeconds k \<and> UpstreamTimeoutSeconds k \<le>s 3600 \<and>
     (UpstreamBaseURL k = [] \<or> Upstream k = UpstreamOpenAI \<and>
        (\<exists>lookup raw. ValidateUpstreamBaseURL lookup raw = Inr (UpstreamBaseURL k)))"

text \<open>What a struct decoder keeps of its target.\<close>

lemma find_field_mem: "find_field ds k = Some f \<Longrightarrow> f \<in> snd ` set ds"
proof -
  assume "find_field ds k = Some f"
  then have "map_of ds k = Some f \<or> map_of (map (\<lambda>(n, f). (fold_name n, f)) ds) (fold_name k) = Some f"
    by (auto simp: find_field_def split: option.splits)
  then show ?thesis by (force dest!: map_of_SomeD)
qed

lemma dec_members_inv:
  assumes "\<And>f j a a'. f \<in> snd ` set ds \<Longrightarrow> P a \<Longrightarrow> f j a = Some a' \<Longrightarrow> P a'"
  shows "P a \<Longrightarrow> dec_members strict ds ms a = Some a' \<Longrightarrow> P a'"
proof (induction ms arbitrary: a)
  case (Cons m ms)
  obtain k j where m: "m = (k, j)" by fastforce
  show ?case
  proof (cases "find_field ds (unquote k)")
    case None
    then show ?thesis using Cons m by (simp split: if_splits)
  next
    case (Some f)
    then obtain a'' where "f j a = Some a''" "dec_members strict ds ms a'' = Some a'"
      using Cons.prems(2) m by (auto split: option.splits)
    then show ?thesis using Cons.IH assms [OF find_field_mem [OF Some] Cons.prems(1)] by blast
  qed
qed simp

lemma Decode_inv:
  assumes "\<And>f j a a'. f \<in> snd ` set ds \<Longrightarrow> P a \<Longrightarrow> f j a = Some a' \<Longrightarrow> P a'" "P zero"
    "Decode (dec_struct strict ds) zero body = Some b"
  shows "P b"
proof -
  obtain j where "dec_struct strict ds j zero = Some b"
    using assms(3) unfolding Decode_def by (cases "decode_first body") simp_all
  then consider "b = zero" | ms where "dec_members strict ds ms zero = Some b"
    unfolding dec_struct_def by (cases j) simp_all
  then show ?thesis
  proof cases
    case (2 ms)
    show ?thesis by (rule dec_members_inv [where P = P, OF _ assms(2) 2]) (rule assms(1))
  qed (simp add: assms(2))
qed

lemma dec_float_number: "number x \<Longrightarrow> dec_float j x = Some y \<Longrightarrow> number y"
proof -
  have "ParseFloat t = Some y \<Longrightarrow> number y" for t
    by (cases "round64 (number_value t)") (auto simp: ParseFloat_def number_def)
  then show "number x \<Longrightarrow> dec_float j x = Some y \<Longrightarrow> number y"
    by (cases j) (simp_all add: dec_float_def)
qed

lemma amount_eq: "number x \<Longrightarrow> \<not> f64_lt x (Fin 0) \<Longrightarrow> amount x"
  by (auto simp: number_def amount_def)

lemma dec_pointer_number:
  "pred_option number x \<Longrightarrow> dec_pointer dec_float (Fin 0) j x = Some y \<Longrightarrow> pred_option number y"
proof -
  have "number (Fin 0)" by (simp add: number_def)
  then show "pred_option number x \<Longrightarrow> dec_pointer dec_float (Fin 0) j x = Some y \<Longrightarrow> pred_option number y"
    by (cases j; cases x) (auto simp: dec_pointer_def split: option.splits dest: dec_float_number)
qed

lemma create_body_numbers:
  assumes "Decode dec_create_body create_body_zero body = Some b"
  shows "number (cb_DailyBudgetUSD b) \<and> number (cb_MonthBudgetUSD b)"
proof (rule Decode_inv [OF _ _ assms [unfolded dec_create_body_def]])
  show "number (cb_DailyBudgetUSD create_body_zero) \<and> number (cb_MonthBudgetUSD create_body_zero)"
    by (simp add: create_body_zero_def number_def)
qed (auto simp: field_def intro: dec_float_number)

lemma update_body_numbers:
  assumes "Decode dec_update_body update_body_zero body = Some b"
  shows "pred_option number (ub_DailyBudgetUSD b) \<and> pred_option number (ub_MonthBudgetUSD b)"
proof (rule Decode_inv [OF _ _ assms [unfolded dec_update_body_def]])
  show "pred_option number (ub_DailyBudgetUSD update_body_zero) \<and> pred_option number (ub_MonthBudgetUSD update_body_zero)"
    by (simp add: update_body_zero_def)
qed (auto simp: field_def intro: dec_pointer_number)

section \<open>What the handlers do to the store\<close>

lemma new_key_id: "rand 8 = Inr bs \<Longrightarrow> length bs = 8 \<Longrightarrow> ValidID (idPrefix @ hex_EncodeToString bs)"
  using hex_Encode_chars [of bs] by (simp add: ValidID_def idPrefix_def length_hex_Encode HasPrefix_def)

definition rand_ok :: "admin_env \<Rightarrow> bool" where
  "rand_ok env \<longleftrightarrow> (\<forall>n bs. ae_rand env n = Inr bs \<longrightarrow> length bs = n)"

fun response_code :: "admin_response \<Rightarrow> nat" where
  "response_code NoRoute = 404"
| "response_code MethodNotAllowed = 405"
| "response_code (TextError c _) = c"
| "response_code (ErrorEnvelope e) = status e"
| "response_code (JSONBody c _) = c"

lemma mux_refusal_cases:
  "mux_refusal srv env path = NoRoute \<or> mux_refusal srv env path = MethodNotAllowed"
  by (simp add: mux_refusal_def)

lemma mux_refusal_code [simp]: "response_code (mux_refusal srv env path) \<noteq> 200"
  by (simp add: mux_refusal_def)

lemma route_of_verb:
  "route_of verb path \<noteq> None \<Longrightarrow> \<exists>v \<in> {''GET'', ''POST'', ''PATCH''}. route_of v path \<noteq> None"
  by (auto simp: route_of_def Let_def split: list.splits if_splits)

lemma create_base_url_ok:
  assumes "create_base_url env b = Inr base"
  shows "base = [] \<or> cb_Upstream b = UpstreamOpenAI \<and> (\<exists>lookup raw. ValidateUpstreamBaseURL lookup raw = Inr base)"
  using assms by (auto simp: create_base_url_def split: if_splits sum.splits)

lemma update_base_url_ok:
  assumes "update_base_url ops env s kid b = Inr (Some base)"
  shows "base = [] \<or> (\<exists>k. op_GetByID ops s kid = Inr k \<and> Upstream k = UpstreamOpenAI) \<and>
    (\<exists>lookup raw. ValidateUpstreamBaseURL lookup raw = Inr base)"
  using assms by (auto simp: update_base_url_def Let_def split: if_splits sum.splits option.splits)

lemma client_error_codes:
  "check_create b name = Some e \<Longrightarrow> 400 \<le> response_code e" "create_base_url env b = Inl e \<Longrightarrow> 400 \<le> response_code e"
  "create_expiry env b = Inl e \<Longrightarrow> 400 \<le> response_code e" "check_update u name' = Some e \<Longrightarrow> 400 \<le> response_code e"
  "update_base_url ops env s kid u = Inl e \<Longrightarrow> 400 \<le> response_code e" "update_expiry env u = Inl e \<Longrightarrow> 400 \<le> response_code e"
proof -
  have e: "400 \<le> response_code (admin_WriteError 400 c m)" "400 \<le> response_code (base_url_error err)"
      "400 \<le> response_code only_openai" for c m err
    by (simp_all add: admin_WriteError_def WriteError_def base_url_error_def AsBaseURLError_def only_openai_def)
  show "check_create b name = Some e \<Longrightarrow> 400 \<le> response_code e"
    unfolding check_create_def by (simp split: if_split_asm; force)
  show "check_update u name' = Some e \<Longrightarrow> 400 \<le> response_code e"
    unfolding check_update_def by (simp split: if_split_asm; force)
  show "create_base_url env b = Inl e \<Longrightarrow> 400 \<le> response_code e"
    using e unfolding create_base_url_def by (auto split: if_splits sum.splits)
  show "create_expiry env b = Inl e \<Longrightarrow> 400 \<le> response_code e"
    using e unfolding create_expiry_def by (auto split: if_splits sum.splits)
  show "update_base_url ops env s kid u = Inl e \<Longrightarrow> 400 \<le> response_code e"
    using e unfolding update_base_url_def Let_def by (auto split: if_splits sum.splits option.splits)
  show "update_expiry env u = Inl e \<Longrightarrow> 400 \<le> response_code e"
    using e unfolding update_expiry_def by (auto split: sum.splits option.splits json.splits)
qed

definition refused :: "'s \<Rightarrow> 's \<times> admin_response \<Rightarrow> bool" where
  "refused s r \<longleftrightarrow> fst r = s \<and> 400 \<le> response_code (snd r)"

lemma refusedI: "400 \<le> response_code e \<Longrightarrow> refused s (s, e)"
  by (simp add: refused_def)

lemma check_create_ok:
  assumes "check_create b name = None"
  shows "name \<noteq> [] \<and> length name \<le> 100 \<and> (cb_Upstream b = UpstreamOpenAI \<or> cb_Upstream b = UpstreamAnthropic) \<and>
    TrimSpace (cb_UpstreamKey b) \<noteq> [] \<and> \<not> f64_lt (cb_DailyBudgetUSD b) (Fin 0) \<and> \<not> f64_lt (cb_MonthBudgetUSD b) (Fin 0) \<and>
    0 \<le>s cb_RPSLimit b \<and> 0 \<le>s cb_RPMLimit b \<and> 0 \<le>s cb_MaxConcurrent b \<and> 0 \<le>s cb_UpstreamTimeoutSeconds b \<and>
    cb_UpstreamTimeoutSeconds b \<le>s 3600"
  using assms by (simp add: check_create_def maxUpstreamTimeoutSeconds_def sless_int sle_int not_less not_le split: if_split_asm)

lemma handleCreateKey_cases:
  assumes "rand_ok env"
  shows "refused s (handleCreateKey ops env s body) \<or>
    (\<exists>vk. valid_key vk \<and> RevokedAt vk = None \<and> handleCreateKey ops env s body =
      (case op_Create ops s (Some vk) of (s', Inl _) \<Rightarrow> (s', TextError 500 ''failed to create key'')
       | (s', Inr _) \<Rightarrow> (s', JSONBody 201 (createKeyResponse (viewOf vk) (Token vk)))))"
proof (cases "Decode dec_create_body create_body_zero body")
  case None
  then show ?thesis by (simp add: handleCreateKey_def refused_def)
next
  case b: (Some b)
  let ?name = "TrimSpace (cb_Name b)"
  show ?thesis
  proof (cases "check_create b ?name")
    case (Some e)
    then show ?thesis using b client_error_codes(1) [OF Some] by (simp add: handleCreateKey_def refused_def Let_def)
  next
    case c: None
    show ?thesis
    proof (cases "create_base_url env b")
      case (Inl e)
      then show ?thesis using b c client_error_codes(2) [OF Inl] by (simp add: handleCreateKey_def refused_def Let_def)
    next
      case base: (Inr base)
      show ?thesis
      proof (cases "create_expiry env b")
        case (Inl e)
        then show ?thesis using b c base client_error_codes(3) [OF Inl] by (simp add: handleCreateKey_def refused_def Let_def)
      next
        case x: (Inr x)
        show ?thesis
        proof (cases "(\<exists>e. GenerateID (ae_rand env) = Inl e) \<or> (\<exists>e. GenerateToken (ae_rand env) = Inl e)")
          case True
          then show ?thesis using b c base x by (auto simp: handleCreateKey_def refused_def Let_def split: sum.splits)
        next
          case False
          then obtain kid token where g: "GenerateID (ae_rand env) = Inr kid" "GenerateToken (ae_rand env) = Inr token"
            by (metis sum.exhaust)
          then have "ValidID kid" "IsReinToken token"
            using assms by (auto simp: rand_ok_def GenerateID_def GenerateToken_def randomHex_def IsReinToken_def
              HasPrefix_append split: sum.splits intro!: new_key_id)
          then have "valid_key (new_key env b ?name base x kid token)"
            using check_create_ok [OF c] create_base_url_ok [OF base] create_body_numbers [OF b]
            unfolding valid_key_def new_key_def by (simp add: amount_eq)
          moreover have "RevokedAt (new_key env b ?name base x kid token) = None" by (simp add: new_key_def)
          ultimately show ?thesis
            using b c base x g unfolding handleCreateKey_def Let_def WriteJSON_def by auto
        qed
      qed
    qed
  qed
qed

section \<open>Patches\<close>

text \<open>A patch that a well-formed key survives.\<close>

definition patch_ok :: "'s key_ops \<Rightarrow> 's \<Rightarrow> string \<Rightarrow> KeyPatch \<Rightarrow> bool" where
  "patch_ok ops s kid p \<longleftrightarrow> pred_option (\<lambda>n. n \<noteq> [] \<and> length n \<le> 100) (p_Name p) \<and>
     pred_option amount (p_DailyBudgetUSD p) \<and> pred_option amount (p_MonthBudgetUSD p) \<and>
     pred_option (\<lambda>n. 0 \<le>s n) (p_RPSLimit p) \<and> pred_option (\<lambda>n. 0 \<le>s n) (p_RPMLimit p) \<and>
     pred_option (\<lambda>n. 0 \<le>s n) (p_MaxConcurrent p) \<and>
     pred_option (\<lambda>n. 0 \<le>s n \<and> n \<le>s 3600) (p_UpstreamTimeoutSeconds p) \<and>
     pred_option (\<lambda>base. base = [] \<or> (\<exists>k. op_GetByID ops s kid = Inr k \<and> Upstream k = UpstreamOpenAI) \<and>
       (\<exists>lookup raw. ValidateUpstreamBaseURL lookup raw = Inr base)) (p_UpstreamBaseURL p)"

lemma ApplyTo_fields:
  "Name (ApplyTo p k) = case_option (Name k) id (p_Name p)"
  "DailyBudgetUSD (ApplyTo p k) = case_option (DailyBudgetUSD k) id (p_DailyBudgetUSD p)"
  "MonthBudgetUSD (ApplyTo p k) = case_option (MonthBudgetUSD k) id (p_MonthBudgetUSD p)"
  "RPSLimit (ApplyTo p k) = case_option (RPSLimit k) id (p_RPSLimit p)"
  "RPMLimit (ApplyTo p k) = case_option (RPMLimit k) id (p_RPMLimit p)"
  "MaxConcurrent (ApplyTo p k) = case_option (MaxConcurrent k) id (p_MaxConcurrent p)"
  "UpstreamBaseURL (ApplyTo p k) = case_option (UpstreamBaseURL k) id (p_UpstreamBaseURL p)"
  "UpstreamTimeoutSeconds (ApplyTo p k) = case_option (UpstreamTimeoutSeconds k) id (p_UpstreamTimeoutSeconds p)"
  by (simp_all add: ApplyTo_def Let_def split: option.split)

lemma pred_option_pick: "pred_option P v \<Longrightarrow> P x \<Longrightarrow> P (case_option x id v)"
  by (cases v) simp_all

lemma ApplyTo_valid:
  assumes "valid_key k" "patch_ok ops s kid p" "\<And>k'. op_GetByID ops s kid = Inr k' \<Longrightarrow> k' = k"
  shows "valid_key (ApplyTo p k)"
proof -
  have "case_option (UpstreamBaseURL k) id (p_UpstreamBaseURL p) = [] \<or> Upstream k = UpstreamOpenAI \<and>
      (\<exists>lookup raw. ValidateUpstreamBaseURL lookup raw = Inr (case_option (UpstreamBaseURL k) id (p_UpstreamBaseURL p)))"
    using assms by (cases "p_UpstreamBaseURL p") (auto simp: valid_key_def patch_ok_def)
  then show ?thesis
    using assms(1,2) unfolding valid_key_def patch_ok_def ApplyTo_fields ApplyTo_keeps
    using pred_option_pick [where P = "\<lambda>n. n \<noteq> [] \<and> length n \<le> 100"] pred_option_pick [where P = amount] pred_option_pick [where P = "\<lambda>n. 0 \<le>s n"]
      pred_option_pick [where P = "\<lambda>n. 0 \<le>s n \<and> n \<le>s 3600"] by (intro conjI) blast+
qed

lemma check_update_ok:
  assumes "check_update u name = None"
  shows "pred_option (\<lambda>n. n \<noteq> [] \<and> length n \<le> 100) name \<and>
    pred_option (\<lambda>x. \<not> f64_lt x (Fin 0)) (ub_DailyBudgetUSD u) \<and> pred_option (\<lambda>x. \<not> f64_lt x (Fin 0)) (ub_MonthBudgetUSD u) \<and>
    pred_option (\<lambda>n. 0 \<le>s n) (ub_RPSLimit u) \<and> pred_option (\<lambda>n. 0 \<le>s n) (ub_RPMLimit u) \<and>
    pred_option (\<lambda>n. 0 \<le>s n) (ub_MaxConcurrent u) \<and>
    pred_option (\<lambda>n. 0 \<le>s n \<and> n \<le>s 3600) (ub_UpstreamTimeoutSeconds u)"
  using assms unfolding check_update_def maxUpstreamTimeoutSeconds_def
  by (simp add: sless_int sle_int not_less not_le option.pred_set split: if_split_asm option.splits)

lemma handleUpdateKey_cases:
  "refused s (handleUpdateKey ops env s kid body) \<or>
    (\<exists>p. patch_ok ops s kid p \<and> handleUpdateKey ops env s kid body = (case op_Update ops s kid p of
       (s', Inl err) \<Rightarrow>
         if err = ErrNotFound then (s', TextError 404 ''key not found'')
         else if err = ErrRevoked then (s', admin_WriteError 409 ''key_revoked'' ''cannot update a revoked key'')
         else (s', TextError 500 ''internal error'')
     | (s', Inr updated) \<Rightarrow> (s', WriteJSON 200 (view_json (viewOf updated)))))"
proof (cases "Decode dec_update_body update_body_zero body")
  case None
  then show ?thesis by (simp add: handleUpdateKey_def refused_def)
next
  case b: (Some b)
  let ?name = "map_option TrimSpace (ub_Name b)"
  show ?thesis
  proof (cases "\<not> ValidID kid \<or> immutable_probe b")
    case True
    then show ?thesis using b by (auto simp: handleUpdateKey_def refused_def admin_WriteError_def WriteError_def)
  next
    case ok: False
    show ?thesis
    proof (cases "check_update b ?name")
      case (Some e)
      then show ?thesis using b ok client_error_codes(4) [OF Some] by (simp add: handleUpdateKey_def refused_def Let_def)
    next
      case c: None
      show ?thesis
      proof (cases "update_base_url ops env s kid b")
        case (Inl e)
        then show ?thesis using b ok c client_error_codes(5) [OF Inl] by (simp add: handleUpdateKey_def refused_def Let_def)
      next
        case base: (Inr base)
        show ?thesis
        proof (cases "update_expiry env b")
          case (Inl e)
          then show ?thesis using b ok c base client_error_codes(6) [OF Inl] by (simp add: handleUpdateKey_def refused_def Let_def)
        next
          case x: (Inr x)
          obtain t clear where xt: "x = (t, clear)" by fastforce
          let ?p = "\<lparr>p_Name = ?name, p_DailyBudgetUSD = ub_DailyBudgetUSD b, p_MonthBudgetUSD = ub_MonthBudgetUSD b,
                  p_RPSLimit = ub_RPSLimit b, p_RPMLimit = ub_RPMLimit b, p_MaxConcurrent = ub_MaxConcurrent b,
                  p_UpstreamBaseURL = base, p_UpstreamTimeoutSeconds = ub_UpstreamTimeoutSeconds b,
                  p_ExpiresAt = t, p_ClearExpiresAt = clear\<rparr>"
          have "patch_ok ops s kid ?p"
            using check_update_ok [OF c] update_body_numbers [OF b] update_base_url_ok [of ops env s kid b] base
            unfolding patch_ok_def by (auto simp: option.pred_set amount_eq)
          then show ?thesis using b ok c base x xt unfolding handleUpdateKey_def Let_def by auto
        qed
      qed
    qed
  qed
qed

section \<open>One request as a step\<close>

text \<open>What a request can do to the state of a server, with the status it answers.\<close>

inductive admin_step :: "'s admin_server \<Rightarrow> 's key_ops \<Rightarrow> 's \<Rightarrow> 's \<Rightarrow> nat \<Rightarrow> bool" for srv ops where
  Untouched: "admin_step srv ops s s code"
| Froze: "sv_SetFrozen srv s b = (s', Inr ()) \<Longrightarrow> admin_step srv ops s s' 200"
| Freeze_failed: "sv_SetFrozen srv s b = (s', Inl e) \<Longrightarrow> admin_step srv ops s s' 500"
| Created: "op_Create ops s (Some vk) = (s', Inr ()) \<Longrightarrow> valid_key vk \<Longrightarrow> RevokedAt vk = None \<Longrightarrow>
    admin_step srv ops s s' 201"
| Create_failed: "op_Create ops s (Some vk) = (s', Inl e) \<Longrightarrow> admin_step srv ops s s' 500"
| Revoked: "op_Revoke ops s t kid = (s', Inr ()) \<Longrightarrow> op_GetByID ops s' kid = Inr k \<Longrightarrow> admin_step srv ops s s' 200"
| Revoked_unread: "op_Revoke ops s t kid = (s', Inr ()) \<Longrightarrow> op_GetByID ops s' kid = Inl e \<Longrightarrow> admin_step srv ops s s' 500"
| Revoke_failed: "op_Revoke ops s t kid = (s', Inl e) \<Longrightarrow> 400 \<le> code \<Longrightarrow> admin_step srv ops s s' code"
| Updated: "op_Update ops s kid p = (s', Inr k) \<Longrightarrow> patch_ok ops s kid p \<Longrightarrow> admin_step srv ops s s' 200"
| Update_failed: "op_Update ops s kid p = (s', Inl e) \<Longrightarrow> 400 \<le> code \<Longrightarrow> admin_step srv ops s s' code"

lemma refused_step: "refused s r \<Longrightarrow> admin_step srv ops s (fst r) (response_code (snd r))"
  by (simp add: refused_def Untouched)

lemma handleCreateKey_step:
  assumes "rand_ok env" and r_def: "r = handleCreateKey ops env s body"
  shows "admin_step srv ops s (fst r) (response_code (snd r))"
  using handleCreateKey_cases [OF assms(1), of s ops body]
proof
  assume "\<exists>vk. valid_key vk \<and> RevokedAt vk = None \<and> handleCreateKey ops env s body =
      (case op_Create ops s (Some vk) of (s', Inl _) \<Rightarrow> (s', TextError 500 ''failed to create key'')
       | (s', Inr _) \<Rightarrow> (s', JSONBody 201 (createKeyResponse (viewOf vk) (Token vk))))"
  then obtain vk where vk: "valid_key vk" "RevokedAt vk = None" "r = (case op_Create ops s (Some vk) of
      (s', Inl _) \<Rightarrow> (s', TextError 500 ''failed to create key'')
    | (s', Inr _) \<Rightarrow> (s', JSONBody 201 (createKeyResponse (viewOf vk) (Token vk))))" unfolding r_def by blast
  obtain s' x where "op_Create ops s (Some vk) = (s', x)" by fastforce
  with vk show ?thesis by (cases x) (auto intro: Created Create_failed)
qed (simp add: r_def refused_step)

lemma handleUpdateKey_step:
  assumes r_def: "r = handleUpdateKey ops env s kid body"
  shows "admin_step srv ops s (fst r) (response_code (snd r))"
  using handleUpdateKey_cases [of s ops env kid body]
proof
  assume "\<exists>p. patch_ok ops s kid p \<and> handleUpdateKey ops env s kid body = (case op_Update ops s kid p of
       (s', Inl err) \<Rightarrow>
         if err = ErrNotFound then (s', TextError 404 ''key not found'')
         else if err = ErrRevoked then (s', admin_WriteError 409 ''key_revoked'' ''cannot update a revoked key'')
         else (s', TextError 500 ''internal error'')
     | (s', Inr updated) \<Rightarrow> (s', WriteJSON 200 (view_json (viewOf updated))))"
  then obtain p where p: "patch_ok ops s kid p" "r = (case op_Update ops s kid p of
       (s', Inl err) \<Rightarrow>
         if err = ErrNotFound then (s', TextError 404 ''key not found'')
         else if err = ErrRevoked then (s', admin_WriteError 409 ''key_revoked'' ''cannot update a revoked key'')
         else (s', TextError 500 ''internal error'')
     | (s', Inr updated) \<Rightarrow> (s', WriteJSON 200 (view_json (viewOf updated))))" unfolding r_def by blast
  obtain s' x where x: "op_Update ops s kid p = (s', x)" by fastforce
  show ?thesis
  proof (cases x)
    case (Inl e)
    with p x show ?thesis by (auto simp: admin_WriteError_def WriteError_def intro: Update_failed)
  next
    case (Inr k)
    with p x show ?thesis by (auto simp: WriteJSON_def intro: Updated)
  qed
qed (simp add: r_def refused_step)

lemma handleRevokeKey_step:
  assumes r_def: "r = handleRevokeKey ops env s kid"
  shows "admin_step srv ops s (fst r) (response_code (snd r))"
proof -
  obtain s' x where x: "op_Revoke ops s (ae_stamp env) kid = (s', x)" by fastforce
  show ?thesis
  proof (cases x)
    case (Inl e)
    with x show ?thesis by (auto simp: r_def handleRevokeKey_def intro: Untouched Revoke_failed)
  next
    case (Inr u)
    with x show ?thesis
      by (cases "op_GetByID ops s' kid")
        (auto simp: r_def handleRevokeKey_def WriteJSON_def intro: Untouched Revoked Revoked_unread)
  qed
qed

lemma handleFreeze_step:
  "admin_step srv ops s (fst (handleGetFreeze srv s)) (response_code (snd (handleGetFreeze srv s)))"
  "admin_step srv ops s (fst (handleSetFreeze srv s body)) (response_code (snd (handleSetFreeze srv s body)))"
proof -
  show "admin_step srv ops s (fst (handleGetFreeze srv s)) (response_code (snd (handleGetFreeze srv s)))"
    by (cases "sv_IsFrozen srv s") (simp_all add: handleGetFreeze_def Untouched)
  show "admin_step srv ops s (fst (handleSetFreeze srv s body)) (response_code (snd (handleSetFreeze srv s body)))"
  proof (cases "Decode dec_freeze False body")
    case (Some b)
    obtain s' x where "sv_SetFrozen srv s b = (s', x)" by fastforce
    with Some show ?thesis
      by (cases x) (auto simp: handleSetFreeze_def WriteJSON_def intro: Froze Freeze_failed)
  qed (simp add: handleSetFreeze_def Untouched)
qed

lemma handleListKeys_step: "admin_step srv ops s (fst (handleListKeys ops s)) (response_code (snd (handleListKeys ops s)))"
  by (cases "op_List ops s") (simp_all add: handleListKeys_def Untouched)

lemmas handler_steps = handleFreeze_step handleListKeys_step handleCreateKey_step [OF _ refl]
  handleUpdateKey_step [OF refl] handleRevokeKey_step [OF refl]

lemma admin_ServeHTTP_step:
  assumes "sv_keys srv = Some ops" "rand_ok env" and r_def: "r = admin_ServeHTTP srv env s rq"
  shows "admin_step srv ops s (fst r) (response_code (snd r))"
proof (cases "route_of (rq_Method rq) (rq_Path rq)")
  case (Some route)
  show ?thesis
    unfolding r_def admin_ServeHTTP_defs Some option.case Mount_def withAuth_def assms(1)
    by (cases route) (use assms(2) in \<open>auto intro: Untouched handler_steps\<close>)
qed (simp add: r_def admin_ServeHTTP_defs Untouched)

section \<open>An expiry that cannot be listed\<close>

definition year_10000 :: string where "year_10000 = ''9999-12-31T23:59:59-01:00''"

lemma year_10000_trim: "TrimSpace year_10000 = year_10000"
  by (rule TrimSpace_id) (simp_all add: year_10000_def visible_def)

lemma year_10000_parses: "time_Parse year_10000 = Some 253402304399000000000"
proof -
  have "get_year year_10000 = Some (9999, ''-12-31T23:59:59-01:00'')" by code_simp
  moreover have "get_field (CHR ''-'') True 13 ''-12-31T23:59:59-01:00'' = Some (12, ''-31T23:59:59-01:00'')" by code_simp
  moreover have "get_field (CHR ''-'') True 100 ''-31T23:59:59-01:00'' = Some (31, ''T23:59:59-01:00'')" by code_simp
  moreover have "get_field (CHR ''T'') False 24 ''T23:59:59-01:00'' = Some (23, '':59:59-01:00'')" by code_simp
  moreover have "get_field (CHR '':'') True 60 '':59:59-01:00'' = Some (59, '':59-01:00'')" by code_simp
  moreover have "get_field (CHR '':'') True 60 '':59-01:00'' = Some (59, ''-01:00'')" by code_simp
  moreover have "get_frac ''-01:00'' = (0, ''-01:00'')" by code_simp
  moreover have "get_zone ''-01:00'' = Some (- 3600)" by code_simp
  moreover have "daysIn 12 9999 = 31" "day_of_date (9999, 12, 31) = 2932896"
    by (simp_all add: daysIn_def month_lengths_def day_of_date_def year_start_def is_leap_def)
  ultimately show ?thesis by (simp add: time_Parse_def ns_per_s_def)
qed

lemma year_10000_unencodable: "time_json 253402304399000000000 = None"
proof -
  have "utc_day 253402304399000000000 = 2932897" by (simp add: utc_day_def ns_per_day_def ns_per_s_def)
  moreover have "year_of_day 2932897 = 10000" by (rule year_of_day_unique) (simp_all add: year_start_def)
  ultimately show ?thesis by (simp add: time_json_def year_of_def)
qed

text \<open>An expiry written with a negative offset at the very end of year 9999 is accepted, but its instant lies in
  year 10000, which \<open>time.Time\<close> refuses to marshal: every view of the key, and every listing of
  all keys while it exists, is an empty body.\<close>

theorem far_future_expiry_breaks_listing:
  assumes "now < 253402304398000000000"
  shows "\<exists>t. parseExpiresAt year_10000 now = Inr t \<and>
    (\<forall>ops s ks k. op_List ops s = Inr ks \<and> k \<in> set ks \<and> ExpiresAt k = Some t \<longrightarrow>
      handleListKeys ops s = (s, JSONBody 200 None))"
proof (intro exI conjI allI impI)
  show "parseExpiresAt year_10000 now = Inr 253402304399000000000"
    using assms by (simp add: parseExpiresAt_def year_10000_trim year_10000_parses Let_def expiresInFutureSkew_def ns_per_s_def)
      (simp add: year_10000_def)
next
  fix ops :: "'a key_ops" and s ks k
  assume a: "op_List ops s = Inr ks \<and> k \<in> set ks \<and> ExpiresAt k = Some 253402304399000000000"
  have o: "object_json ms = None" if "(n, None) \<in> set ms" for n ms
    using that by (induction ms) (auto simp: object_json_def split: option.splits)
  have "view_json (viewOf k) = None"
    unfolding view_json_def
    by (rule o [of "''expires_at''"]) (use a in \<open>simp add: view_fields_def viewOf_def year_10000_unencodable\<close>)
  then have "k \<in> set ks \<Longrightarrow> those (map (view_json \<circ> viewOf) ks) = None" for ks
    by (induction ks) (auto split: option.split)
  then show "handleListKeys ops s = (s, JSONBody 200 None)"
    using a by (simp add: handleListKeys_def object_json_def WriteJSON_def)
qed

end
