(* ===== verification/Replica.thy ===== *)
theory Replica
  imports Admin_Facts
begin

text \<open>
  One replica as a whole: the admin API of \<open>Admin\<close> on the stores of \<open>world\<close>, as \<open>cmd/rein/main.go\<close> wires it with
  the in-memory backends, beside the dispatcher of \<open>Proxy\<close> and the expiry sweeper. The locale \<open>admin_store\<close> is
  what the handlers need of a store; its lemmas say what one request does to the abstract content of
  the store, and the events of a replica follow by composition.
\<close>

section \<open>How a store may develop\<close>

text \<open>Known keys evolve and stay well-formed, new keys are well-formed.\<close>

definition key_history :: "(string \<Rightarrow> VirtualKey option) \<Rightarrow> (string \<Rightarrow> VirtualKey option) \<Rightarrow> bool" where
  "key_history A A' \<longleftrightarrow> (\<forall>i k. A i = Some k \<longrightarrow>
      (\<exists>k'. A' i = Some k' \<and> key_evolves k k' \<and> (valid_key k \<longrightarrow> valid_key k'))) \<and>
    (\<forall>i k'. A i = None \<longrightarrow> A' i = Some k' \<longrightarrow> valid_key k')"

lemma key_history_refl [simp, intro]: "key_history A A"
  by (auto simp: key_history_def)

lemma key_history_trans:
  assumes "key_history A B" "key_history B C"
  shows "key_history A C"
  unfolding key_history_def
proof (intro conjI allI impI)
  fix i k assume "A i = Some k"
  then obtain k1 where k1: "B i = Some k1" "key_evolves k k1" "valid_key k \<longrightarrow> valid_key k1"
    using assms(1) unfolding key_history_def by blast
  then obtain k2 where "C i = Some k2" "key_evolves k1 k2" "valid_key k1 \<longrightarrow> valid_key k2"
    using assms(2) unfolding key_history_def by blast
  with k1 show "\<exists>k'. C i = Some k' \<and> key_evolves k k' \<and> (valid_key k \<longrightarrow> valid_key k')"
    using key_evolves_trans by blast
next
  fix i k' assume a: "A i = None" "C i = Some k'"
  show "valid_key k'"
  proof (cases "B i")
    case None
    then show ?thesis using assms(2) a by (auto simp: key_history_def)
  next
    case (Some k1)
    with a(1) assms(1) have "valid_key k1" unfolding key_history_def by blast
    moreover obtain k2 where "C i = Some k2" "valid_key k1 \<longrightarrow> valid_key k2"
      using Some assms(2) unfolding key_history_def by blast
    ultimately show ?thesis using a(2) by simp
  qed
qed

lemma key_history_insert: "A i = None \<Longrightarrow> valid_key k \<Longrightarrow> key_history A (A(i \<mapsto> k))"
  by (auto simp: key_history_def)

lemma key_history_update:
  "A i = Some k \<Longrightarrow> key_evolves k k' \<Longrightarrow> (valid_key k \<Longrightarrow> valid_key k') \<Longrightarrow> key_history A (A(i \<mapsto> k'))"
  by (auto simp: key_history_def)

lemma valid_key_Revoke [simp]: "valid_key (k\<lparr>RevokedAt := t\<rparr>) = valid_key k"
  by (simp add: valid_key_def)

section \<open>The store of the handlers\<close>

locale admin_store = key_store +
  fixes srv :: "'a admin_server" and ops :: "'a key_ops"
  assumes wired: "sv_keys srv = Some ops"
    and op_Create: "op_Create ops = create" and op_GetByID: "op_GetByID ops = getByID"
    and op_Revoke: "op_Revoke ops = revoke" and op_Update: "op_Update ops = update"
    and freeze_keeps_keys: "inv s \<Longrightarrow> sv_SetFrozen srv s b = (s', r) \<Longrightarrow> inv s' \<and> abs s' = abs s"
begin

lemma step_history:
  assumes "admin_step srv ops s s' code" "inv s"
  shows "inv s' \<and> key_history (abs s) (abs s')"
  using assms
proof cases
  case Untouched
  then show ?thesis using assms(2) by simp
next
  case (Created vk)
  then have "create s (Some vk) = (s', Inr ())" by (simp add: op_Create)
  from create_ok [OF assms(2) this] Created(3,4) show ?thesis by (auto intro: key_history_insert)
next
  case (Create_failed vk e)
  then show ?thesis using create_fails [OF assms(2)] by (auto simp: op_Create)
next
  case (Revoked t kid k)
  then have "revoke s t kid = (s', Inr ())" by (simp add: op_Revoke)
  from revoke_ok [OF assms(2) this] show ?thesis by (auto intro!: key_history_update)
next
  case (Revoked_unread t kid e)
  then have "revoke s t kid = (s', Inr ())" by (simp add: op_Revoke)
  from revoke_ok [OF assms(2) this] show ?thesis by (auto intro!: key_history_update)
next
  case (Revoke_failed t kid e)
  then show ?thesis using revoke_fails [OF assms(2)] by (auto simp: op_Revoke)
next
  case (Updated kid p k')
  then have "update s kid p = (s', Inr k')" by (simp add: op_Update)
  from update_ok [OF assms(2) this] obtain k where
    k: "inv s'" "abs s kid = Some k" "RevokedAt k = None" "k' = ApplyTo p k" "abs s' = (abs s)(kid \<mapsto> k')" by blast
  have "valid_key (ApplyTo p k)" if "valid_key k"
    using that Updated(3) k(2) getByID_abs [OF assms(2)] by (intro ApplyTo_valid) (auto simp: op_GetByID)
  with k show ?thesis by (auto intro!: key_history_update key_evolves_ApplyTo)
next
  case (Update_failed kid p e)
  then show ?thesis using update_fails [OF assms(2)] by (auto simp: op_Update)
qed (auto dest: freeze_keeps_keys [OF assms(2)])

lemma request_history:
  assumes "rand_ok env" "inv s"
  shows "inv (fst (admin_ServeHTTP srv env s rq)) \<and> key_history (abs s) (abs (fst (admin_ServeHTTP srv env s rq)))"
  using step_history [OF admin_ServeHTTP_step [OF wired assms(1) refl] assms(2)] .

text \<open>A revocation that is answered 200 has happened.\<close>

lemma revoke_answered:
  assumes "inv s" "route_of (rq_Method rq) (rq_Path rq) = Some (RouteRevokeKey kid)"
    "admin_ServeHTTP srv env s rq = (s', resp)" "response_code resp = 200"
  shows "\<exists>k. abs s' kid = Some k \<and> RevokedAt k \<noteq> None"
proof -
  have "handleRevokeKey ops env s kid = (s', resp)"
    using assms(2-4) wired by (auto simp: admin_ServeHTTP_defs Mount_def withAuth_def split: if_splits)
  then have "\<exists>now. revoke s now kid = (s', Inr ())"
    using assms(4) by (auto simp: handleRevokeKey_def op_Revoke split: if_splits prod.splits sum.splits)
  then show ?thesis using revoke_ok [OF assms(1)] by fastforce
qed

end

text \<open>Any run of the sweeper's loop body is a sequence of revocations.\<close>

context key_store begin

lemma sweep_key_history: "inv s \<Longrightarrow> inv (sweep_key revokeAt s k) \<and> key_history (abs s) (abs (sweep_key revokeAt s k))"
proof (cases k)
  case (Some vk)
  assume s: "inv s"
  show ?thesis
  proof (cases "ExpiresAt vk")
    case e: (Some e)
    obtain s' x where x: "revokeAt s (ID vk) e = (s', x)" by fastforce
    show ?thesis
    proof (cases x)
      case (Inl err)
      then show ?thesis using revokeAt_fails [OF s] x e Some by auto
    next
      case (Inr u)
      then obtain k1 where "inv s'" "abs s (ID vk) = Some k1"
          "abs s' = (abs s)(ID vk \<mapsto> (if RevokedAt k1 = None then k1\<lparr>RevokedAt := Some e\<rparr> else k1))"
        using revokeAt_ok [OF s, of "ID vk" e s'] x by auto
      then show ?thesis using x e Some by (auto intro!: key_history_update)
    qed
  qed (use s Some in simp)
qed simp

lemma sweep_keys_history:
  "inv s \<Longrightarrow> inv (foldl (sweep_key revokeAt) s ks) \<and> key_history (abs s) (abs (foldl (sweep_key revokeAt) s ks))"
proof (induction ks arbitrary: s)
  case (Cons k ks)
  then show ?case using sweep_key_history [OF Cons.prems, of k] Cons.IH [of "sweep_key revokeAt s k"] key_history_trans by auto
qed simp

lemma sweepOnce_history:
  "inv s \<Longrightarrow> inv (sweepOnce listing revokeAt s now) \<and> key_history (abs s) (abs (sweepOnce listing revokeAt s now))"
  using sweep_keys_history by (auto simp: sweepOnce_def split: sum.split)

end

section \<open>The replica\<close>

text \<open>The key store and the kill switch as parts of \<open>world\<close>, and the admin server wired to them. \<open>order\<close>
  is the order in which \<open>List\<close> visits the map of keys.\<close>

definition w_Create :: "world \<Rightarrow> VirtualKey option \<Rightarrow> world \<times> (keys_error + unit)" where
  "w_Create w k = apfst (\<lambda>m. w\<lparr>w_keys := m\<rparr>) (keys_Create (w_keys w) k)"

definition w_Revoke :: "world \<Rightarrow> instant \<Rightarrow> string \<Rightarrow> world \<times> (keys_error + unit)" where
  "w_Revoke w now kid = apfst (\<lambda>m. w\<lparr>w_keys := m\<rparr>) (keys_Revoke (w_keys w) now kid)"

definition w_RevokeAt :: "world \<Rightarrow> string \<Rightarrow> instant \<Rightarrow> world \<times> (keys_error + unit)" where
  "w_RevokeAt w kid ts = apfst (\<lambda>m. w\<lparr>w_keys := m\<rparr>) (keys_RevokeAt (w_keys w) kid ts)"

definition w_Update :: "world \<Rightarrow> string \<Rightarrow> KeyPatch \<Rightarrow> world \<times> (keys_error + VirtualKey)" where
  "w_Update w kid p = apfst (\<lambda>m. w\<lparr>w_keys := m\<rparr>) (keys_Update (w_keys w) kid p)"

definition w_SetFrozen :: "world \<Rightarrow> bool \<Rightarrow> world \<times> (string + unit)" where
  "w_SetFrozen w b = apfst (\<lambda>m. w\<lparr>w_switch := m\<rparr>) (ks_SetFrozen (w_switch w) b)"

definition w_ops :: "((string \<Rightarrow> nat option) \<Rightarrow> string list) \<Rightarrow> world key_ops" where
  "w_ops order = \<lparr>op_Create = w_Create, op_GetByID = (\<lambda>w. keys_GetByID (w_keys w)),
     op_List = (\<lambda>w. keys_List (w_keys w) (order (byID (w_keys w)))), op_Revoke = w_Revoke, op_Update = w_Update\<rparr>"

definition rein_admin :: "string \<Rightarrow> ((string \<Rightarrow> nat option) \<Rightarrow> string list) \<Rightarrow> world admin_server" where
  "rein_admin token order = NewServer token (\<lambda>w. ks_IsFrozen (w_switch w)) w_SetFrozen (Some (w_ops order))"

lemmas w_op_defs = w_Create_def w_Revoke_def w_RevokeAt_def w_Update_def w_SetFrozen_def

lemma apfst_eq: "apfst f p = (x, r) \<longleftrightarrow> (\<exists>m. p = (m, r) \<and> x = f m)"
  by (cases p) auto

interpretation world_keys: admin_store "\<lambda>w. keys_inv (w_keys w)" "\<lambda>w. keys_abs (w_keys w)" w_Create
  "\<lambda>w. keys_GetByToken (w_keys w)" "\<lambda>w. keys_GetByID (w_keys w)" w_Revoke w_RevokeAt
  w_Update "rein_admin token order" "w_ops order" for token order
proof (unfold_locales, goal_cases)
  case (2 s i k j k')
  then show ?case using keys_mem.token_abs by blast
next
  case (5 s k s')
  then show ?case using keys_mem.create_ok by (auto simp: w_Create_def apfst_eq)
next
  case (7 s k s' e)
  then show ?case using keys_mem.create_fails by (auto simp: w_Create_def apfst_eq)
next
  case (8 s now i s')
  then show ?case using keys_mem.revoke_ok by (auto simp: w_Revoke_def apfst_eq)
next
  case (9 s now i s' e)
  then show ?case using keys_mem.revoke_fails by (auto simp: w_Revoke_def apfst_eq)
next
  case (10 s i ts s')
  then obtain m where "keys_RevokeAt (w_keys s) i ts = (m, Inr ())" "s' = s\<lparr>w_keys := m\<rparr>"
    by (auto simp: w_RevokeAt_def apfst_eq)
  with keys_mem.revokeAt_ok [OF 10(1) this(1)] show ?case by simp
next
  case (11 s i ts s' e)
  then show ?case using keys_mem.revokeAt_fails by (auto simp: w_RevokeAt_def apfst_eq)
next
  case (12 s i p s' k')
  then show ?case using keys_mem.update_ok by (auto simp: w_Update_def apfst_eq)
next
  case (13 s i p s' e)
  then show ?case using keys_mem.update_fails by (auto simp: w_Update_def apfst_eq)
qed (auto simp: keys_mem.ID_abs keys_mem.getByID_abs keys_mem.getByToken_abs w_Create_def keys_mem.create_nil
  rein_admin_def NewServer_def w_ops_def w_SetFrozen_def apfst_eq)

text \<open>What happens on a replica: an admin request, a client's request, a tick of the sweeper.\<close>

datatype event = Admin admin_env admin_request | Client bool clock request | Sweep instant

definition event_ok :: "event \<Rightarrow> bool" where
  "event_ok e = (case e of Admin env _ \<Rightarrow> rand_ok env | _ \<Rightarrow> True)"

record 'r replica =
  r_token :: string
  r_order :: "(string \<Rightarrow> nat option) \<Rightarrow> string list"
  r_openai :: "(meter_memory, 'r) adapter"
  r_anthropic :: "(meter_memory, 'r) adapter"

text \<open>An adapter is built with the spend meter; it reaches no other store.\<close>

definition w_adapter :: "(meter_memory, 'r) adapter \<Rightarrow> (world, 'r) adapter" where
  "w_adapter ad w r vk t = apfst (\<lambda>m. w\<lparr>w_meter := m\<rparr>) (ad (w_meter w) r vk t)"

definition sweep_world :: "'r replica \<Rightarrow> world \<Rightarrow> instant \<Rightarrow> world" where
  "sweep_world R w now = sweepOnce
     (\<lambda>w now. map_sum id (map Some) (keys_ListExpiring (w_keys w) (r_order R (byID (w_keys w))) now)) w_RevokeAt w now"

definition replica_step :: "'r replica \<Rightarrow> world \<Rightarrow> event \<Rightarrow> world" where
  "replica_step R w e = (case e of
     Admin env rq \<Rightarrow> fst (admin_ServeHTTP (rein_admin (r_token R) (r_order R)) env w rq)
   | Client d clk r \<Rightarrow> fst (ServeHTTP (rein d) (w_adapter (r_openai R)) (w_adapter (r_anthropic R)) w clk r)
   | Sweep now \<Rightarrow> sweep_world R w now)"

lemma release_keeps [simp]:
  "w_keys (deferred_release (rein d) w k held) = w_keys w" "w_switch (deferred_release (rein d) w k held) = w_switch w"
  by (simp_all add: deferred_release_def rein_simps)

lemma admitted_keeps [simp]: "w_keys (admitted w clk k) = w_keys w" "w_switch (admitted w clk k) = w_switch w"
  by (simp_all add: admitted_def)

lemma enforce_keeps:
  "enforce (rein d) w clk k = (w', x) \<Longrightarrow> w_keys w' = w_keys w \<and> w_switch w' = w_switch w"
  using enforce_effect [of d w clk k] by auto

lemma adapter_keeps [simp]:
  "w_keys (fst (w_adapter ad w r vk t)) = w_keys w" "w_switch (fst (w_adapter ad w r vk t)) = w_switch w"
  by (simp_all add: w_adapter_def)

lemma client_keeps:
  assumes w': "w' = fst (ServeHTTP (rein d) (w_adapter oai) (w_adapter ant) w clk r)"
  shows "w_keys w' = w_keys w \<and> w_switch w' = w_switch w"
proof (cases "\<exists>k. admissible d w clk r k")
  case True
  then obtain k where k: "admissible d w clk r k" by blast
  show ?thesis unfolding w' ServeHTTP_admissible [OF k] by (simp add: split_beta Let_def)
next
  case False
  from ServeHTTP_inadmissible [OF False, of "w_adapter oai" "w_adapter ant"] show ?thesis
    unfolding w' using enforce_keeps by fastforce
qed

lemma replica_step_history:
  assumes "event_ok e" "keys_inv (w_keys w)"
  shows "keys_inv (w_keys (replica_step R w e)) \<and> key_history (keys_abs (w_keys w)) (keys_abs (w_keys (replica_step R w e)))"
proof (cases e)
  case (Admin env rq)
  then show ?thesis
    using world_keys.request_history [of env w "r_token R" "r_order R" rq] assms by (simp add: replica_step_def event_ok_def)
next
  case (Client d clk r)
  then show ?thesis
    using client_keeps [OF refl, of d "r_openai R" "r_anthropic R" w clk r] assms(2) by (simp add: replica_step_def)
next
  case (Sweep now)
  then show ?thesis
    using world_keys.sweepOnce_history assms(2) by (simp add: replica_step_def sweep_world_def)
qed

lemma replica_history:
  "list_all event_ok evs \<Longrightarrow> keys_inv (w_keys w) \<Longrightarrow> keys_inv (w_keys (foldl (replica_step R) w evs)) \<and>
    key_history (keys_abs (w_keys w)) (keys_abs (w_keys (foldl (replica_step R) w evs)))"
proof (induction evs arbitrary: w)
  case (Cons e evs)
  have "event_ok e" "list_all event_ok evs" using Cons.prems(1) by simp_all
  note step = replica_step_history [OF this(1) Cons.prems(2), of R]
  from Cons.IH [OF \<open>list_all event_ok evs\<close> conjunct1 [OF step]] show ?case
    using step key_history_trans by auto
qed simp

section \<open>Guarantees\<close>

text \<open>C14: The admin API keeps its keys well-formed. Whatever requests, client traffic and sweeps a replica that
  starts empty sees, in any order, every key its store then returns has a valid identifier and token, a nonempty name of
  at most 100 bytes, a supported upstream and its secret, budgets that are finite and not negative, limits that
  are not negative, a timeout of at most an hour, and a base URL only for OpenAI and only one that
  passed validation.\<close>

theorem stored_keys_are_valid:
  assumes "w_keys w = keys_NewMemory" "list_all event_ok evs"
    "keys_GetByID (w_keys (foldl (replica_step R) w evs)) kid = Inr k"
  shows "ID k = kid \<and> valid_key k"
proof -
  have h: "keys_inv (w_keys (foldl (replica_step R) w evs))"
      "key_history (keys_abs (w_keys w)) (keys_abs (w_keys (foldl (replica_step R) w evs)))"
    using replica_history [OF assms(2), of w R] keys_inv_NewMemory assms(1) by simp_all
  from keys_mem.getByID_abs [OF h(1) assms(3)]
  have k: "keys_abs (w_keys (foldl (replica_step R) w evs)) kid = Some k" .
  then show ?thesis using h(2) keys_mem.ID_abs [OF h(1) k] assms(1) by (simp add: key_history_def)
qed

lemma revoked_key_rejected:
  assumes "Authorization r = ''Bearer '' @ t" "keys_GetByToken (w_keys w) t = Inr k" "RevokedAt k \<noteq> None"
  shows "\<exists>e. ServeHTTP (rein d) oai ant w clk r = (w, Rejected e) \<and>
    (IsReinToken t \<and> expectedUpstreamForPath (URL_Path r) \<noteq> '''' \<and> \<not> d \<and> ks_IsFrozen (w_switch w) = Inr False \<longrightarrow>
      status e = 401 \<and> err_code e = ''key_revoked'')"
proof -
  have "authenticate (rein d) w clk r \<noteq> Inr x" for x
    using assms by (cases x) (auto simp: authenticate_rein resolveKey_rein)
  then obtain e where e: "authenticate (rein d) w clk r = Inl e" by (cases "authenticate (rein d) w clk r") auto
  have "status e = 401 \<and> err_code e = ''key_revoked''"
    if "IsReinToken t" "expectedUpstreamForPath (URL_Path r) \<noteq> ''''" "\<not> d" "ks_IsFrozen (w_switch w) = Inr False"
  proof -
    have k: "resolveKey (rein d) w r = Inr (Some k)" using assms(1,2) that(1) by (simp add: resolveKey_rein)
    then show ?thesis using e that(2-4) assms(3)
      by (auto simp: authenticate_def Let_def rein_fields IsRevoked_def WriteError_def CodeKeyRevoked_def)
  qed
  then show ?thesis using e by (simp add: ServeHTTP_def)
qed

text \<open>C9: Revocation through the admin API is final on a replica with the in-memory stores. Once a revoke
  request has been answered 200, whatever requests, sweeps and traffic follow, updates and attempts
  to recreate the key included, every client request whose bearer token leads to that key, at the
  time of the revocation or when the request comes, is rejected and changes nothing. On a known
  route, for a token with Rein's prefix and while the replica is neither draining nor frozen, the answer is 401
  \<open>key_revoked\<close>. The key store
  before the revocation is any that its operations can reach (\<open>keys_inv\<close>), and the random source
  gives as many bytes as it is asked for (\<open>event_ok\<close>).\<close>

theorem admin_revocation_is_final:
  assumes "keys_inv (w_keys w)" "route_of (rq_Method rq) (rq_Path rq) = Some (RouteRevokeKey kid)"
    "admin_ServeHTTP (rein_admin token order) env w rq = (w', resp)" "response_code resp = 200"
    "list_all event_ok evs" and w'': "w'' = foldl (replica_step R) w' evs"
    and "Authorization r = ''Bearer '' @ t"
    "keys_GetByToken (w_keys w') t = Inr k \<or> keys_GetByToken (w_keys w'') t = Inr k" "ID k = kid"
  shows "\<exists>e. ServeHTTP (rein d) oai ant w'' clk r = (w'', Rejected e) \<and>
    (IsReinToken t \<and> expectedUpstreamForPath (URL_Path r) \<noteq> '''' \<and> \<not> d \<and> ks_IsFrozen (w_switch w'') = Inr False \<longrightarrow>
      status e = 401 \<and> err_code e = ''key_revoked'')"
proof -
  obtain k0 where k0: "keys_abs (w_keys w') kid = Some k0" "RevokedAt k0 \<noteq> None"
    using world_keys.revoke_answered [OF assms(1-4)] by blast
  have "handleRevokeKey (w_ops order) env w kid = (w', resp)"
    using assms(2-4) by (auto simp: admin_ServeHTTP_defs Mount_def withAuth_def rein_admin_def NewServer_def split: if_splits)
  then have "admin_step (rein_admin token order) (w_ops order) w w' 200"
    using handleRevokeKey_step [OF refl, of "rein_admin token order" "w_ops order" w env kid] assms(4) by simp
  then have inv: "keys_inv (w_keys w')" using world_keys.step_history assms(1) by blast
  note h = replica_history [OF assms(5) inv, of R, folded w'']
  then obtain k1 where k1: "keys_abs (w_keys w'') kid = Some k1" "key_evolves k0 k1"
    using k0(1) unfolding key_history_def by blast
  have r: "RevokedAt k1 \<noteq> None" "Token k1 = Token k0" using k1(2) k0(2) by (auto simp: key_evolves_def)
  have "keys_GetByToken (w_keys w'') t = Inr k1"
    using assms(8)
  proof
    assume "keys_GetByToken (w_keys w') t = Inr k"
    then have "Token k0 = t" using keys_GetByToken_ok [OF inv] k0(1) assms(9) by auto
    then show ?thesis using keys_GetByToken_ok [OF conjunct1 [OF h]] k1(1) r(2) keys_mem.ID_abs [OF conjunct1 [OF h] k1(1)] by auto
  next
    assume "keys_GetByToken (w_keys w'') t = Inr k"
    with keys_mem.getByToken_abs [OF conjunct1 [OF h] this] k1(1) assms(9) show ?thesis by simp
  qed
  from revoked_key_rejected [OF assms(7) this r(1)] show ?thesis .
qed

text \<open>On the stores in memory a call that fails leaves everything as it was.\<close>

lemma w_fails:
  "w_Create w k = (w', Inl e) \<Longrightarrow> w' = w" "w_Revoke w now kid = (w', Inl e) \<Longrightarrow> w' = w"
  "w_Update w kid p = (w', Inl e) \<Longrightarrow> w' = w"
  by (auto simp: w_op_defs apfst_eq dest: keys_fails)

lemma w_Revoke_readable: "w_Revoke w now kid = (w', Inr ()) \<Longrightarrow> keys_GetByID (w_keys w') kid \<noteq> Inl e"
  by (cases "byID (w_keys w) kid") (auto simp: w_Revoke_def keys_Revoke_def keys_GetByID_def assign_def)

lemma world_step_error:
  assumes "admin_step (rein_admin token order) (w_ops order) w w' code" "400 \<le> code"
  shows "w' = w"
  using assms
  by cases (auto simp: w_ops_def rein_admin_def NewServer_def w_SetFrozen_def ks_SetFrozen_def w_fails w_Revoke_readable)

lemma rein_mounts: "Mount (rein_admin token order) env route \<noteq> None"
  by (simp add: Mount_def rein_admin_def NewServer_def split: admin_route.split)

lemma rein_mux_refusal:
  "mux_refusal (rein_admin token order) env path = (if \<exists>verb. route_of verb path \<noteq> None then MethodNotAllowed else NoRoute)"
proof -
  have "mounted (rein_admin token order) env verb path \<noteq> None \<longleftrightarrow> route_of verb path \<noteq> None" for verb
    using rein_mounts [of token order env] by (simp add: mounted_def split: option.split)
  moreover have "(\<exists>verb. route_of verb path \<noteq> None) \<longleftrightarrow>
      route_of ''GET'' path \<noteq> None \<or> route_of ''POST'' path \<noteq> None \<or> route_of ''PATCH'' path \<noteq> None"
    using route_of_verb [of _ path] by blast
  ultimately show ?thesis by (simp add: mux_refusal_def Option.is_none_def del: not_None_eq)
qed

text \<open>C19: On a replica with the in-memory stores an admin request that is not allowed or not accepted
  has no effect. Without the exact bearer token it is answered 401 on a route, 405 on the path of a
  route with a method that is not mounted there, and, among paths the multiplexer does not clean first, 404 elsewhere; and an answer of status 400 or above, with the
  token or without, leaves every store of the replica as it was, the kill switch, budgets and
  counters included. The random source gives as many bytes as it is asked for (\<open>rand_ok\<close>).\<close>

theorem refused_admin_request_has_no_effect:
  assumes "rand_ok env" "admin_ServeHTTP (rein_admin token order) env w rq = (w', resp)"
    "rq_Authorization rq \<noteq> ''Bearer '' @ token \<or> 400 \<le> response_code resp"
  shows "w' = w \<and> (rq_Authorization rq \<noteq> ''Bearer '' @ token \<longrightarrow>
    resp = (if route_of (rq_Method rq) (rq_Path rq) \<noteq> None then TextError 401 ''unauthorized''
      else if \<exists>verb. route_of verb (rq_Path rq) \<noteq> None then MethodNotAllowed else NoRoute))"
proof (cases "rq_Authorization rq = ''Bearer '' @ token")
  case True
  then show ?thesis
    using world_step_error [of token order w w' "response_code resp"] assms(3)
      admin_ServeHTTP_step [OF _ assms(1) refl, of "rein_admin token order" "w_ops order" w rq]
    by (simp add: rein_admin_def NewServer_def assms(2) [unfolded rein_admin_def NewServer_def])
next
  case False
  then have cmp: "ConstantTimeCompare (rq_Authorization rq) (''Bearer '' @ sv_token (rein_admin token order)) \<noteq> 1"
    by (auto simp: ConstantTimeCompare_def list.rel_eq rein_admin_def NewServer_def)
  show ?thesis
  proof (cases "route_of (rq_Method rq) (rq_Path rq)")
    case None
    then show ?thesis using assms(2) by (simp add: admin_ServeHTTP_defs rein_mux_refusal)
  next
    case (Some route)
    then obtain h where "Mount (rein_admin token order) env route = Some h" using rein_mounts by blast
    with Some False show ?thesis using assms(2) cmp by (simp add: admin_ServeHTTP_defs withAuth_def)
  qed
qed

text \<open>What a handler cannot reach it keeps.\<close>

lemma handlers_keep:
  assumes "\<And>s k s' x. op_Create ops s k = (s', x) \<Longrightarrow> f s' = f s" "\<And>s t i s' x. op_Revoke ops s t i = (s', x) \<Longrightarrow> f s' = f s"
    "\<And>s i p s' y. op_Update ops s i p = (s', y) \<Longrightarrow> f s' = f s"
  shows "f (fst (handleCreateKey ops env s body)) = f s" "f (fst (handleListKeys ops s)) = f s"
    "f (fst (handleRevokeKey ops env s kid)) = f s" "f (fst (handleUpdateKey ops env s kid body)) = f s"
    "f (fst (handleGetFreeze srv s)) = f s"
proof -
  show "f (fst (handleCreateKey ops env s body)) = f s"
    unfolding handleCreateKey_def Let_def by (auto dest: assms(1) split: option.split sum.split prod.split)
  show "f (fst (handleListKeys ops s)) = f s" by (simp add: handleListKeys_def split: sum.split)
  show "f (fst (handleRevokeKey ops env s kid)) = f s"
    unfolding handleRevokeKey_def by (auto dest: assms(2) split: sum.split prod.split)
  show "f (fst (handleUpdateKey ops env s kid body)) = f s"
    unfolding handleUpdateKey_def Let_def by (auto dest: assms(3) split: option.split sum.split prod.split)
  show "f (fst (handleGetFreeze srv s)) = f s" by (simp add: handleGetFreeze_def split: sum.split)
qed

definition sets_freeze :: "event \<Rightarrow> bool" where
  "sets_freeze e = (case e of Admin _ rq \<Rightarrow> route_of (rq_Method rq) (rq_Path rq) = Some RouteSetFreeze | _ \<Rightarrow> False)"

lemma w_keep_switch:
  "w_Create w k = (w', x) \<Longrightarrow> w_switch w' = w_switch w" "w_Revoke w t i = (w', x) \<Longrightarrow> w_switch w' = w_switch w"
  "w_Update w i p = (w', y) \<Longrightarrow> w_switch w' = w_switch w" "w_RevokeAt w i t = (w', x) \<Longrightarrow> w_switch w' = w_switch w"
  by (auto simp: w_op_defs apfst_eq)

lemma w_handlers_keep_switch:
  "w_switch (fst (handleCreateKey (w_ops order) env w body)) = w_switch w"
  "w_switch (fst (handleListKeys (w_ops order) w)) = w_switch w"
  "w_switch (fst (handleRevokeKey (w_ops order) env w kid)) = w_switch w"
  "w_switch (fst (handleUpdateKey (w_ops order) env w kid body)) = w_switch w"
  "w_switch (fst (handleGetFreeze srv w)) = w_switch w"
  by (rule handlers_keep [of "w_ops order" w_switch]; simp add: w_ops_def w_keep_switch)+

lemma sweep_keeps_switch: "w_switch (sweep_world R w now) = w_switch w"
proof -
  have "w_switch (sweep_key w_RevokeAt w k) = w_switch w" for w k
    by (cases k) (auto simp: w_op_defs split: option.split)
  then have "w_switch (foldl (sweep_key w_RevokeAt) w ks) = w_switch w" for ks
    by (induction ks arbitrary: w) simp_all
  then show ?thesis by (simp add: sweep_world_def sweepOnce_def split: sum.split)
qed

lemma replica_step_switch:
  assumes "\<not> sets_freeze e"
  shows "w_switch (replica_step R w e) = w_switch w"
proof (cases e)
  case (Admin env rq)
  show ?thesis
  proof (cases "route_of (rq_Method rq) (rq_Path rq)")
    case (Some route)
    then show ?thesis
      using assms by (cases route) (simp_all add: Admin replica_step_def sets_freeze_def admin_ServeHTTP_defs Mount_def
        rein_admin_def NewServer_def withAuth_def w_handlers_keep_switch)
  qed (simp add: Admin replica_step_def admin_ServeHTTP_defs)
next
  case (Client d clk r)
  then show ?thesis using conjunct2 [OF client_keeps [OF refl]] by (simp add: replica_step_def)
qed (simp add: replica_step_def sweep_keeps_switch)

lemma replica_switch:
  "list_all (\<lambda>e. \<not> sets_freeze e) evs \<Longrightarrow> w_switch (foldl (replica_step R) w evs) = w_switch w"
  by (induction evs arbitrary: w) (simp_all add: replica_step_switch)

text \<open>C20: The kill switch stops a replica. From the moment a request to freeze has been answered 200 until
  the next request to the same endpoint, every client request is rejected and reaches no provider,
  whatever keys are made or changed meanwhile.\<close>

theorem freeze_stops_all_traffic:
  assumes "route_of (rq_Method rq) (rq_Path rq) = Some RouteSetFreeze" "Decode dec_freeze False (rq_Body rq) = Some True"
    "admin_ServeHTTP (rein_admin token order) env w rq = (w', resp)" "response_code resp = 200"
    "list_all (\<lambda>e. \<not> sets_freeze e) evs"
  shows "\<exists>e. snd (ServeHTTP (rein d) oai ant (foldl (replica_step R) w' evs) clk r) = Rejected e"
proof -
  have "handleSetFreeze (rein_admin token order) w (rq_Body rq) = (w', resp)"
    using assms(1,3,4) by (auto simp: admin_ServeHTTP_defs Mount_def withAuth_def split: if_splits)
  then have "ks_frozen (w_switch w')"
    using assms(2,4) by (auto simp: handleSetFreeze_def rein_admin_def NewServer_def w_SetFrozen_def ks_SetFrozen_def)
  then have "\<nexists>k. admissible d (foldl (replica_step R) w' evs) clk r k"
    by (simp add: admissible_def ks_IsFrozen_def replica_switch [OF assms(5)])
  from ServeHTTP_inadmissible [OF this, of oai ant] show ?thesis by auto
qed

section \<open>A session\<close>

text \<open>An admin creates a key for OpenAI named \<open>ci\<close>, freezes the replica and revokes the key.\<close>

definition demo_env :: admin_env where
  "demo_env = \<lparr>ae_check = 0, ae_stamp = 7, ae_rand = (\<lambda>n. Inr (replicate n 0)), ae_lookup = (\<lambda>_. None)\<rparr>"

definition demo_id :: string where "demo_id = ''key_0000000000000000''"

definition demo_replica :: "unit replica" where
  "demo_replica = \<lparr>r_token = ''t'', r_order = (\<lambda>_. []), r_openai = (\<lambda>m _ _ _. (m, ())), r_anthropic = (\<lambda>m _ _ _. (m, ()))\<rparr>"

definition create_json :: json where
  "create_json = JObj [(''name'', JStr ''ci''), (''upstream'', JStr ''openai''), (''upstream_key'', JStr ''sk'')]"

definition create_request :: admin_request where
  "create_request = \<lparr>rq_Method = ''POST'', rq_Path = ''/admin/v1/keys'', rq_Authorization = ''Bearer t'',
     rq_Body = json_text create_json\<rparr>"

definition revoke_request :: admin_request where
  "revoke_request = \<lparr>rq_Method = ''POST'', rq_Path = ''/admin/v1/keys/key_0000000000000000/revoke'',
     rq_Authorization = ''Bearer t'', rq_Body = []\<rparr>"

definition created_key :: VirtualKey where
  "created_key = \<lparr>ID = demo_id, Token = tokenPrefix @ replicate 64 (CHR ''0''), Name = ''ci'', Upstream = ''openai'',
     UpstreamKey = ''sk'', DailyBudgetUSD = Fin 0, MonthBudgetUSD = Fin 0, UpstreamBaseURL = [], RPSLimit = 0,
     RPMLimit = 0, MaxConcurrent = 0, UpstreamTimeoutSeconds = 0, CreatedAt = 7, RevokedAt = None, ExpiresAt = None\<rparr>"

lemma demo_rand_ok: "rand_ok demo_env"
  by (auto simp: rand_ok_def demo_env_def)

lemma demo_routes:
  "route_of (rq_Method create_request) (rq_Path create_request) = Some RouteCreateKey"
  "route_of (rq_Method revoke_request) (rq_Path revoke_request) = Some (RouteRevokeKey demo_id)"
  by code_simp+

lemma create_wire:
  "unquote ''name'' = ''name''" "unquote ''upstream'' = ''upstream''" "unquote ''upstream_key'' = ''upstream_key''"
  "unquote ''ci'' = ''ci''" "unquote ''openai'' = ''openai''" "unquote ''sk'' = ''sk''"
  by (simp_all add: plain_def quote_def backslash_def)

lemma create_decodes:
  "Decode dec_create_body create_body_zero (json_text create_json) =
    Some (create_body_zero\<lparr>cb_Name := ''ci'', cb_Upstream := ''openai'', cb_UpstreamKey := ''sk''\<rparr>)"
proof -
  have "wf_json create_json" "depth create_json \<le> maxNestingDepth"
    by (simp_all add: create_json_def valid_raw_plain plain_def quote_def backslash_def maxNestingDepth_def)
  from run_json_text [OF this, of "[]"] have "decode_first (json_text create_json) = Some create_json"
    by (simp add: decode_first_def)
  moreover have "dec_create_body create_json create_body_zero =
      Some (create_body_zero\<lparr>cb_Name := ''ci'', cb_Upstream := ''openai'', cb_UpstreamKey := ''sk''\<rparr>)"
    by (simp add: create_json_def dec_create_body_def create_body_zero_def dec_struct_def
      field_def find_field_def dec_string_def create_wire)
  ultimately show ?thesis by (simp add: Decode_def)
qed

lemma demo_credentials:
  "GenerateID (ae_rand demo_env) = Inr demo_id" "GenerateToken (ae_rand demo_env) = Inr (tokenPrefix @ replicate 64 (CHR ''0''))"
  by code_simp+

definition start :: world where
  "start = \<lparr>w_keys = keys_NewMemory, w_switch = ks_NewMemory, w_meter = meter_NewMemory, w_rates = rates_NewMemory,
     w_conc = conc_NewMemory\<rparr>"

abbreviation "demo_admin \<equiv> rein_admin ''t'' (\<lambda>_. [])"

definition created :: world where
  "created = start\<lparr>w_keys := fst (keys_Create keys_NewMemory (Some created_key))\<rparr>"

lemma demo_visible: "TrimSpace ''ci'' = ''ci''" "TrimSpace ''sk'' = ''sk''"
  by (rule TrimSpace_id; simp add: visible_def)+

lemma authorized:
  "route_of (rq_Method rq) (rq_Path rq) = Some route \<Longrightarrow> Mount srv env route = Some h \<Longrightarrow>
    rq_Authorization rq = ''Bearer '' @ sv_token srv \<Longrightarrow> admin_ServeHTTP srv env s rq = h s (rq_Body rq)"
  by (simp add: admin_ServeHTTP_defs withAuth_def ConstantTimeCompare_def list.rel_refl)

lemma demo_create: "admin_ServeHTTP demo_admin demo_env start create_request =
    (created, JSONBody 201 (createKeyResponse (viewOf created_key) (Token created_key)))"
proof -
  let ?b = "create_body_zero\<lparr>cb_Name := ''ci'', cb_Upstream := ''openai'', cb_UpstreamKey := ''sk''\<rparr>"
  have c: "check_create ?b ''ci'' = None"
    by (simp add: check_create_def create_body_zero_def demo_visible UpstreamOpenAI_def maxUpstreamTimeoutSeconds_def sless_int sle_int)
  have k: "new_key demo_env ?b ''ci'' [] None demo_id (tokenPrefix @ replicate 64 (CHR ''0'')) = created_key"
    by (simp add: new_key_def created_key_def create_body_zero_def demo_env_def)
  have "cb_UpstreamBaseURL ?b = []" "cb_ExpiresAt ?b = []" by (simp_all add: create_body_zero_def)
  then have u: "create_base_url demo_env ?b = Inr []" "create_expiry demo_env ?b = Inr None"
    by (simp_all add: create_base_url_def create_expiry_def demo_visible)
  have m: "keys_Create keys_NewMemory (Some created_key) = (fst (keys_Create keys_NewMemory (Some created_key)), Inr ())"
    by (simp add: keys_Create_def keys_NewMemory_def created_key_def demo_id_def tokenPrefix_def UpstreamOpenAI_def Let_def)
  have o: "op_Create (w_ops (\<lambda>_. [])) start (Some created_key) = (created, Inr ())"
    by (subst w_ops_def) (simp add: w_Create_def created_def start_def prod_eq_iff m [THEN arg_cong [where f = snd], simplified])
  have "handleCreateKey (w_ops (\<lambda>_. [])) demo_env start (rq_Body create_request) =
      (created, JSONBody 201 (createKeyResponse (viewOf created_key) (Token created_key)))"
    using create_decodes c k u o demo_credentials
    by (simp add: handleCreateKey_def create_request_def demo_visible Let_def WriteJSON_def)
  moreover have "Mount demo_admin demo_env RouteCreateKey = Some (handleCreateKey (w_ops (\<lambda>_. [])) demo_env)"
    by (simp add: Mount_def rein_admin_def NewServer_def)
  from authorized [OF demo_routes(1) this, of start] have
    "admin_ServeHTTP demo_admin demo_env start create_request =
      handleCreateKey (w_ops (\<lambda>_. [])) demo_env start (rq_Body create_request)"
    by (simp add: create_request_def rein_admin_def NewServer_def)
  ultimately show ?thesis by simp
qed

lemma created_reads:
  "keys_inv (w_keys created)" "keys_GetByID (w_keys created) demo_id = Inr created_key"
proof -
  have "keys_Create keys_NewMemory (Some created_key) = (fst (keys_Create keys_NewMemory (Some created_key)), Inr ())"
    by (simp add: keys_Create_def keys_NewMemory_def created_key_def demo_id_def tokenPrefix_def UpstreamOpenAI_def Let_def)
  from keys_mem.create_ok [OF keys_inv_NewMemory this]
  have "keys_inv (w_keys created)" "keys_abs (w_keys created) demo_id = Some created_key"
    by (simp_all add: created_def start_def created_key_def)
  then show "keys_inv (w_keys created)" "keys_GetByID (w_keys created) demo_id = Inr created_key"
    by (simp_all add: keys_GetByID_ok)
qed

theorem stored_keys_are_valid_witness:
  "keys_GetByID (w_keys (foldl (replica_step demo_replica) start [Sweep 3, Admin demo_env create_request])) demo_id =
     Inr created_key \<and> ID created_key = demo_id \<and> valid_key created_key"
proof -
  have "sweep_world demo_replica start 3 = start"
    by (simp add: sweep_world_def sweepOnce_def demo_replica_def keys_ListExpiring_def)
  then have g: "keys_GetByID (w_keys (foldl (replica_step demo_replica) start [Sweep 3, Admin demo_env create_request])) demo_id =
      Inr created_key"
    by (simp add: replica_step_def demo_replica_def demo_create created_reads)
  from stored_keys_are_valid [OF _ _ this] g show ?thesis by (simp add: start_def event_ok_def demo_rand_ok)
qed

definition revoked :: world where "revoked = fst (w_Revoke created 7 demo_id)"

lemma demo_revoke: "\<exists>body. admin_ServeHTTP demo_admin demo_env created revoke_request = (revoked, JSONBody 200 body)"
proof -
  obtain a where a: "byID (w_keys created) demo_id = Some a"
    using created_reads(2) by (auto simp: keys_GetByID_def split: option.splits)
  then have r: "w_Revoke created 7 demo_id = (revoked, Inr ())"
    by (simp add: revoked_def w_Revoke_def keys_Revoke_def)
  from w_Revoke_readable [OF this] obtain k where "keys_GetByID (w_keys revoked) demo_id = Inr k"
    by (cases "keys_GetByID (w_keys revoked) demo_id") auto
  moreover have "ValidID demo_id" by code_simp
  ultimately have "handleRevokeKey (w_ops (\<lambda>_. [])) demo_env created demo_id = (revoked, JSONBody 200 (view_json (viewOf k)))"
    using r by (simp add: handleRevokeKey_def w_ops_def demo_env_def WriteJSON_def)
  moreover have "Mount demo_admin demo_env (RouteRevokeKey demo_id) =
      Some (\<lambda>s _. handleRevokeKey (w_ops (\<lambda>_. [])) demo_env s demo_id)"
    by (simp add: Mount_def rein_admin_def NewServer_def)
  from authorized [OF demo_routes(2) this, of created] have
    "admin_ServeHTTP demo_admin demo_env created revoke_request = handleRevokeKey (w_ops (\<lambda>_. [])) demo_env created demo_id"
    by (simp add: revoke_request_def rein_admin_def NewServer_def)
  ultimately show ?thesis by simp
qed

theorem admin_revocation_is_final_witness:
  "let w = foldl (replica_step demo_replica) revoked [Sweep 9, Admin demo_env create_request] in
    \<exists>e. ServeHTTP (rein False) (\<lambda>w r vk t. (w, ())) (\<lambda>w r vk t. (w, ())) w demo_clock
      (demo_request\<lparr>Authorization := ''Bearer '' @ Token created_key\<rparr>) = (w, Rejected e)"
proof -
  let ?r = "demo_request\<lparr>Authorization := ''Bearer '' @ Token created_key\<rparr>"
  obtain body where b: "admin_ServeHTTP demo_admin demo_env created revoke_request = (revoked, JSONBody 200 body)"
    using demo_revoke by blast
  have evs: "list_all event_ok [Sweep 9, Admin demo_env create_request]" by (simp add: event_ok_def demo_rand_ok)
  have "\<exists>k. keys_GetByToken (w_keys revoked) (Token created_key) = Inr k \<and> ID k = demo_id"
    by (simp add: revoked_def created_def start_def w_Revoke_def keys_Revoke_def keys_Create_def keys_NewMemory_def keys_GetByToken_def
      assign_def deref_def Let_def created_key_def demo_id_def tokenPrefix_def UpstreamOpenAI_def)
  then obtain k where k: "keys_GetByToken (w_keys revoked) (Token created_key) = Inr k" "ID k = demo_id" by blast
  have auth: "Authorization ?r = ''Bearer '' @ Token created_key" by simp
  from admin_revocation_is_final [where R = demo_replica and d = False, OF created_reads(1) demo_routes(2) b _ evs refl auth disjI1 [OF k(1)] k(2)]
  show ?thesis unfolding Let_def by fastforce
qed

theorem refused_admin_request_has_no_effect_witness:
  "admin_ServeHTTP demo_admin demo_env start (create_request\<lparr>rq_Authorization := ''Bearer x''\<rparr>) =
    (start, TextError 401 ''unauthorized'') \<and>
   admin_ServeHTTP demo_admin demo_env start (create_request\<lparr>rq_Method := ''DELETE'', rq_Authorization := []\<rparr>) =
    (start, MethodNotAllowed)"
proof -
  let ?rq = "create_request\<lparr>rq_Authorization := ''Bearer x''\<rparr>" and
    ?del = "create_request\<lparr>rq_Method := ''DELETE'', rq_Authorization := []\<rparr>"
  obtain w1 r1 w2 r2 where r: "admin_ServeHTTP demo_admin demo_env start ?rq = (w1, r1)"
    "admin_ServeHTTP demo_admin demo_env start ?del = (w2, r2)" by fastforce
  have routes: "route_of (rq_Method ?rq) (rq_Path ?rq) \<noteq> None" "route_of (rq_Method ?del) (rq_Path ?del) = None"
    "route_of ''POST'' (rq_Path ?del) \<noteq> None" by code_simp+
  from refused_admin_request_has_no_effect [OF demo_rand_ok r(1)] routes(1)
  have "w1 = start \<and> r1 = TextError 401 ''unauthorized''" by simp
  moreover have "\<exists>verb. route_of verb (rq_Path ?del) \<noteq> None" using routes(3) by blast
  with refused_admin_request_has_no_effect [OF demo_rand_ok r(2)] routes(2)
  have "w2 = start \<and> r2 = MethodNotAllowed" by simp
  ultimately show ?thesis using r by simp
qed

definition freeze_request :: admin_request where
  "freeze_request = \<lparr>rq_Method = ''POST'', rq_Path = ''/admin/v1/killswitch'', rq_Authorization = ''Bearer t'',
     rq_Body = json_text (JObj [(''frozen'', JBool True)])\<rparr>"

theorem freeze_stops_all_traffic_witness:
  "\<exists>w' body e. admin_ServeHTTP demo_admin demo_env demo_world freeze_request = (w', JSONBody 200 body) \<and>
     snd (ServeHTTP (rein False) (\<lambda>w r vk t. (w, ())) (\<lambda>w r vk t. (w, ()))
       (foldl (replica_step demo_replica) w' [Admin demo_env create_request]) demo_clock demo_request) = Rejected e"
proof -
  have r: "route_of (rq_Method freeze_request) (rq_Path freeze_request) = Some RouteSetFreeze" by code_simp
  have "wf_json (JObj [(''frozen'', JBool True)])" "depth (JObj [(''frozen'', JBool True)]) \<le> maxNestingDepth"
    by (simp_all add: valid_raw_plain plain_def quote_def backslash_def maxNestingDepth_def)
  from run_json_text [OF this, of "[]"] have d: "Decode dec_freeze False (rq_Body freeze_request) = Some True"
    by (simp add: freeze_request_def Decode_def decode_first_def dec_freeze_def dec_struct_def field_def find_field_def
      dec_bool_def plain_def quote_def backslash_def)
  then obtain w' body where w': "admin_ServeHTTP demo_admin demo_env demo_world freeze_request = (w', JSONBody 200 body)"
    using r by (auto simp: admin_ServeHTTP_defs Mount_def withAuth_def rein_admin_def NewServer_def
      ConstantTimeCompare_def list.rel_refl freeze_request_def handleSetFreeze_def w_SetFrozen_def ks_SetFrozen_def WriteJSON_def)
  have n: "list_all (\<lambda>e. \<not> sets_freeze e) [Admin demo_env create_request]"
    by (simp add: sets_freeze_def demo_routes)
  from freeze_stops_all_traffic [OF r d w' _ n] w' show ?thesis by fastforce
qed

end
