(* ===== verification/Secrets.thy ===== *)
theory Secrets
  imports Replica
begin

text \<open>
  What the admin API gives away: its responses do not depend on the provider secrets and tokens that
  the store holds. The locale \<open>public_store\<close> follows the handlers over any store whose operations respect the
  public part of its state; the in-memory store of a replica is its interpretation.
\<close>

section \<open>Secrets\<close>

text \<open>What of a store the handlers may let out: \<open>public\<close> is the part of the state they depend on, when a
  key read from the store counts for what \<open>conceal\<close> leaves of it.\<close>

definition conceal :: "VirtualKey \<Rightarrow> VirtualKey" where
  "conceal k = k\<lparr>Token := [], UpstreamKey := []\<rparr>"

lemma conceal_keeps [simp]: "viewOf (conceal k) = viewOf k" "Upstream (conceal k) = Upstream k"
  by (simp_all add: conceal_def viewOf_def)

lemma viewOf_conceal: "conceal k = conceal k' \<Longrightarrow> viewOf k = viewOf k'"
  by (metis conceal_keeps(1))

text \<open>Two outcomes nobody can tell apart: the same answer, and states with the same public part.\<close>

definition alike :: "('s \<Rightarrow> 'p) \<Rightarrow> 's \<times> 'r \<Rightarrow> 's \<times> 'r \<Rightarrow> bool" where
  "alike public r r' \<longleftrightarrow> public (fst r) = public (fst r') \<and> snd r = snd r'"

lemma alike_pair [intro]: "public s = public t \<Longrightarrow> x = y \<Longrightarrow> alike public (s, x) (t, y)"
  by (simp add: alike_def)

lemma alike_if: "(b \<Longrightarrow> alike public r r') \<Longrightarrow> (\<not> b \<Longrightarrow> alike public u u') \<Longrightarrow>
    alike public (if b then r else u) (if b then r' else u')"
  by simp

lemma alike_option: "(x = None \<Longrightarrow> alike public r r') \<Longrightarrow> (\<And>a. x = Some a \<Longrightarrow> alike public (f a) (f' a)) \<Longrightarrow>
    alike public (case x of None \<Rightarrow> r | Some a \<Rightarrow> f a) (case x of None \<Rightarrow> r' | Some a \<Rightarrow> f' a)"
  by (cases x) simp_all

lemma alike_sum: "(\<And>e. x = Inl e \<Longrightarrow> alike public (g e) (g' e)) \<Longrightarrow> (\<And>a. x = Inr a \<Longrightarrow> alike public (f a) (f' a)) \<Longrightarrow>
    alike public (case x of Inl e \<Rightarrow> g e | Inr a \<Rightarrow> f a) (case x of Inl e \<Rightarrow> g' e | Inr a \<Rightarrow> f' a)"
  by (cases x) simp_all

lemma alike_prod: "(\<And>a b. x = (a, b) \<Longrightarrow> alike public (f a b) (f' a b)) \<Longrightarrow>
    alike public (case x of (a, b) \<Rightarrow> f a b) (case x of (a, b) \<Rightarrow> f' a b)"
  by (cases x) simp

lemmas alike_intros = alike_if alike_option alike_sum alike_pair

locale public_store =
  fixes ops :: "'s key_ops" and public :: "'s \<Rightarrow> 'p"
  assumes create_public: "public s = public t \<Longrightarrow> op_Create ops s vk = (s', x) \<Longrightarrow> op_Create ops t vk = (t', y) \<Longrightarrow>
      public s' = public t' \<and> x = y"
    and revoke_public: "public s = public t \<Longrightarrow> op_Revoke ops s now kid = (s', x) \<Longrightarrow> op_Revoke ops t now kid = (t', y) \<Longrightarrow>
      public s' = public t' \<and> x = y"
    and update_public: "public s = public t \<Longrightarrow> op_Update ops s kid p = (s', u) \<Longrightarrow> op_Update ops t kid p = (t', v) \<Longrightarrow>
      public s' = public t' \<and> map_sum id conceal u = map_sum id conceal v"
    and getByID_public: "public s = public t \<Longrightarrow>
      map_sum id conceal (op_GetByID ops s kid) = map_sum id conceal (op_GetByID ops t kid)"
    and list_public: "public s = public t \<Longrightarrow>
      map_sum id (map conceal) (op_List ops s) = map_sum id (map conceal) (op_List ops t)"
begin

lemma handleCreateKey_public:
  assumes "public s = public t"
  shows "alike public (handleCreateKey ops env s body) (handleCreateKey ops env t body)"
proof -
  have c: "alike public (case op_Create ops s (Some vk) of (s, Inl _) \<Rightarrow> (s, a) | (s, Inr _) \<Rightarrow> (s, b))
      (case op_Create ops t (Some vk) of (s, Inl _) \<Rightarrow> (s, a) | (s, Inr _) \<Rightarrow> (s, b))" for vk and a b :: admin_response
  proof -
    obtain s' x where x: "op_Create ops s (Some vk) = (s', x)" by (cases "op_Create ops s (Some vk)")
    obtain t' y where y: "op_Create ops t (Some vk) = (t', y)" by (cases "op_Create ops t (Some vk)")
    have "public s' = public t'" "y = x" using create_public [OF assms x y] by simp_all
    then show ?thesis unfolding x y prod.case by (simp only: alike_intros)
  qed
  show ?thesis
    unfolding handleCreateKey_def Let_def WriteJSON_def by (intro alike_intros c assms refl)
qed

lemma read_public:
  assumes "map_sum id conceal u = map_sum id conceal v" "\<And>k k'. conceal k = conceal k' \<Longrightarrow> f k = f k'"
  shows "(case u of Inl e \<Rightarrow> g e | Inr k \<Rightarrow> f k) = (case v of Inl e \<Rightarrow> g e | Inr k \<Rightarrow> f k)"
  using assms(1) by (cases u; cases v) (auto intro: assms(2))

lemma handleRevokeKey_public:
  assumes "public s = public t"
  shows "alike public (handleRevokeKey ops env s kid) (handleRevokeKey ops env t kid)"
proof -
  obtain s' x where x: "op_Revoke ops s (ae_stamp env) kid = (s', x)" by (cases "op_Revoke ops s (ae_stamp env) kid")
  obtain t' y where y: "op_Revoke ops t (ae_stamp env) kid = (t', y)" by (cases "op_Revoke ops t (ae_stamp env) kid")
  have e: "public s' = public t'" "y = x" using revoke_public [OF assms x y] by simp_all
  have g: "alike public (case op_GetByID ops s' kid of Inl _ \<Rightarrow> (s', a) | Inr vk \<Rightarrow> (s', f (viewOf vk)))
      (case op_GetByID ops t' kid of Inl _ \<Rightarrow> (t', a) | Inr vk \<Rightarrow> (t', f (viewOf vk)))" for a and f :: "keyView \<Rightarrow> admin_response"
    using getByID_public [OF e(1), of kid] e(1)
    by (cases "op_GetByID ops s' kid"; cases "op_GetByID ops t' kid") (auto simp: alike_def dest: viewOf_conceal)
  show ?thesis
    unfolding handleRevokeKey_def x y e(2) prod.case by (intro alike_intros g assms e refl)
qed

lemma update_base_url_public:
  assumes "public s = public t"
  shows "update_base_url ops env s kid b = update_base_url ops env t kid b"
proof -
  have up: "Upstream k = Upstream k'" if "conceal k = conceal k'" for k k' by (metis that conceal_keeps(2))
  have r: "(case op_GetByID ops s kid of Inl err \<Rightarrow> g err | Inr k \<Rightarrow> if Upstream k \<noteq> UpstreamOpenAI then a else d) =
      (case op_GetByID ops t kid of Inl err \<Rightarrow> g err | Inr k \<Rightarrow> if Upstream k \<noteq> UpstreamOpenAI then a else d)" for g a d
    by (rule read_public [OF getByID_public [OF assms]]) (drule up; simp)
  show ?thesis unfolding update_base_url_def Let_def r ..
qed

lemma handleUpdateKey_public:
  assumes "public s = public t"
  shows "alike public (handleUpdateKey ops env s kid body) (handleUpdateKey ops env t kid body)"
proof -
  have u: "alike public (case op_Update ops s kid p of
                 (s, Inl err) \<Rightarrow> if err = ErrNotFound then (s, a) else if err = ErrRevoked then (s, b) else (s, c)
               | (s, Inr updated) \<Rightarrow> (s, WriteJSON 200 (view_json (viewOf updated))))
      (case op_Update ops t kid p of
                 (s, Inl err) \<Rightarrow> if err = ErrNotFound then (s, a) else if err = ErrRevoked then (s, b) else (s, c)
               | (s, Inr updated) \<Rightarrow> (s, WriteJSON 200 (view_json (viewOf updated))))" for p a b c
  proof -
    obtain s' x where x: "op_Update ops s kid p = (s', x)" by (cases "op_Update ops s kid p")
    obtain t' y where y: "op_Update ops t kid p = (t', y)" by (cases "op_Update ops t kid p")
    from update_public [OF assms x y] show ?thesis
      unfolding x y by (cases x; cases y) (auto simp: alike_def dest: viewOf_conceal)
  qed
  show ?thesis
    unfolding handleUpdateKey_def Let_def update_base_url_public [OF assms]
    by (rule alike_if alike_option alike_sum u alike_prod alike_pair assms refl)+
qed

lemma handleListKeys_public:
  assumes "public s = public t"
  shows "alike public (handleListKeys ops s) (handleListKeys ops t)"
proof -
  have v: "map (view_json \<circ> viewOf) ks = map (view_json \<circ> viewOf) ks'" if "map conceal ks = map conceal ks'" for ks ks'
    using arg_cong [OF that, of "map (view_json \<circ> viewOf)"] by (simp add: comp_def)
  show ?thesis
    using list_public [OF assms] assms
    by (cases "op_List ops s"; cases "op_List ops t")
      (auto simp: handleListKeys_def alike_def WriteJSON_def intro!: arg_cong [where f = "\<lambda>js. object_json [(_, map_option JArr (those js))]"] v)
qed

end

section \<open>The store in memory\<close>

definition conceal_keys :: "keys_memory \<Rightarrow> keys_memory" where
  "conceal_keys m = m\<lparr>cells := (\<lambda>a. map_option conceal (cells m a))\<rparr>"

definition public_world :: "world \<Rightarrow> world" where
  "public_world w = w\<lparr>w_keys := conceal_keys (w_keys w)\<rparr>"

lemma conceal_keys_eq:
  "conceal_keys m = conceal_keys m' \<longleftrightarrow> byID m = byID m' \<and> byToken m = byToken m' \<and> next_cell m = next_cell m' \<and>
    (\<forall>a. map_option conceal (cells m a) = map_option conceal (cells m' a))"
  by (cases m; cases m') (auto simp: conceal_keys_def fun_eq_iff)

lemma deref_public: "conceal_keys m = conceal_keys m' \<Longrightarrow> conceal (deref m a) = conceal (deref m' a)"
proof -
  assume "conceal_keys m = conceal_keys m'"
  then have "map_option conceal (cells m a) = map_option conceal (cells m' a)" by (simp add: conceal_keys_eq)
  then show ?thesis by (cases "cells m a"; cases "cells m' a") (simp_all add: deref_def)
qed

lemma assign_public:
  "conceal_keys m = conceal_keys m' \<Longrightarrow> conceal k = conceal k' \<Longrightarrow> conceal_keys (assign m a k) = conceal_keys (assign m' a k')"
  by (simp add: conceal_keys_eq assign_def)

lemma conceal_writes: "conceal (k\<lparr>RevokedAt := t\<rparr>) = (conceal k)\<lparr>RevokedAt := t\<rparr>" "RevokedAt (conceal k) = RevokedAt k"
  by (simp_all add: conceal_def)

lemma conceal_revoke: "conceal k = conceal k' \<Longrightarrow> conceal (k\<lparr>RevokedAt := t\<rparr>) = conceal (k'\<lparr>RevokedAt := t\<rparr>)"
  by (simp add: conceal_writes)

lemma conceal_ApplyTo: "conceal (ApplyTo p k) = ApplyTo p (conceal k)"
proof -
  have e: "ExpiresAt (ApplyTo p k) = (if p_ClearExpiresAt p then None else case p_ExpiresAt p of None \<Rightarrow> ExpiresAt k | Some e \<Rightarrow> Some e)"
    for k by (simp add: ApplyTo_def Let_def split: option.split)
  show ?thesis by (rule VirtualKey.equality) (simp_all add: conceal_def e ApplyTo_fields split: option.split)
qed

lemma conceal_update: "conceal k = conceal k' \<Longrightarrow> conceal (ApplyTo p k) = conceal (ApplyTo p k')"
  by (simp add: conceal_ApplyTo)

lemma conceal_revoked: "conceal k = conceal k' \<Longrightarrow> IsRevoked (Some k) = IsRevoked (Some k')"
  by (metis IsRevoked_def conceal_writes(2) option.simps(5))

lemma keys_public:
  assumes "conceal_keys m = conceal_keys m'"
  shows "conceal_keys (fst (keys_Create m vk)) = conceal_keys (fst (keys_Create m' vk)) \<and>
      snd (keys_Create m vk) = snd (keys_Create m' vk)"
    "conceal_keys (fst (keys_Revoke m now kid)) = conceal_keys (fst (keys_Revoke m' now kid)) \<and>
      snd (keys_Revoke m now kid) = snd (keys_Revoke m' now kid)"
    "conceal_keys (fst (keys_Update m kid p)) = conceal_keys (fst (keys_Update m' kid p)) \<and>
      map_sum id conceal (snd (keys_Update m kid p)) = map_sum id conceal (snd (keys_Update m' kid p))"
    "map_sum id conceal (keys_GetByID m kid) = map_sum id conceal (keys_GetByID m' kid)"
    "map_sum id (map conceal) (keys_List m ids) = map_sum id (map conceal) (keys_List m' ids)"
proof -
  have e: "byID m' = byID m" "byToken m' = byToken m" "next_cell m' = next_cell m"
    "\<And>a. map_option conceal (cells m a) = map_option conceal (cells m' a)"
    using assms by (simp_all add: conceal_keys_eq)
  note d = deref_public [OF assms]
  show "conceal_keys (fst (keys_Create m vk)) = conceal_keys (fst (keys_Create m' vk)) \<and>
      snd (keys_Create m vk) = snd (keys_Create m' vk)"
  proof (cases vk)
    case (Some k)
    have "conceal_keys (m\<lparr>cells := (cells m)(cp \<mapsto> k), next_cell := n, byID := i, byToken := t\<rparr>) =
        conceal_keys (m'\<lparr>cells := (cells m')(cp \<mapsto> k), next_cell := n, byID := i, byToken := t\<rparr>)" for cp n i t
      using e(4) by (simp add: conceal_keys_eq)
    with assms show ?thesis unfolding Some keys_Create_def option.case e(1-3) Let_def by simp
  qed (simp add: keys_Create_def assms)
  show "conceal_keys (fst (keys_Revoke m now kid)) = conceal_keys (fst (keys_Revoke m' now kid)) \<and>
      snd (keys_Revoke m now kid) = snd (keys_Revoke m' now kid)"
  proof (cases "byID m kid")
    case (Some a)
    with e(1) show ?thesis
      using assign_public [OF assms conceal_revoke [OF d], of a "Some now" a] by (simp add: keys_Revoke_def)
  qed (use e assms in \<open>simp add: keys_Revoke_def\<close>)
  show "conceal_keys (fst (keys_Update m kid p)) = conceal_keys (fst (keys_Update m' kid p)) \<and>
      map_sum id conceal (snd (keys_Update m kid p)) = map_sum id conceal (snd (keys_Update m' kid p))"
  proof (cases "byID m kid")
    case (Some a)
    with e(1) conceal_revoked [OF d, of a] conceal_update [OF d, of p a] show ?thesis
      using assign_public [OF assms conceal_update [OF d], of a p a] assms by (simp add: keys_Update_def Let_def)
  qed (use e assms in \<open>simp add: keys_Update_def\<close>)
  show "map_sum id conceal (keys_GetByID m kid) = map_sum id conceal (keys_GetByID m' kid)"
    using e d by (cases "byID m kid") (simp_all add: keys_GetByID_def)
  show "map_sum id (map conceal) (keys_List m ids) = map_sum id (map conceal) (keys_List m' ids)"
    using e d by (simp add: keys_List_def)
qed

lemma public_world_eq:
  "public_world w = public_world w' \<longleftrightarrow> conceal_keys (w_keys w) = conceal_keys (w_keys w') \<and> w_switch w = w_switch w' \<and>
    w_meter w = w_meter w' \<and> w_rates w = w_rates w' \<and> w_conc w = w_conc w'"
  by (cases w; cases w') (auto simp: public_world_def)

interpretation w_public: public_store "w_ops order" public_world for order
proof
  fix s t s' t' :: world and vk x y now kid p u v
  assume st: "public_world s = public_world t"
  then have k: "conceal_keys (w_keys s) = conceal_keys (w_keys t)" by (simp add: public_world_eq)
  note kp = keys_public [OF k]
  show "public_world s' = public_world t' \<and> x = y"
    if "op_Create (w_ops order) s vk = (s', x)" "op_Create (w_ops order) t vk = (t', y)"
    using that st kp(1) [of vk] by (auto simp: w_ops_def w_Create_def apfst_eq public_world_eq)
  show "public_world s' = public_world t' \<and> x = y"
    if "op_Revoke (w_ops order) s now kid = (s', x)" "op_Revoke (w_ops order) t now kid = (t', y)"
    using that st kp(2) [of now kid] by (auto simp: w_ops_def w_Revoke_def apfst_eq public_world_eq)
  show "public_world s' = public_world t' \<and> map_sum id conceal u = map_sum id conceal v"
    if "op_Update (w_ops order) s kid p = (s', u)" "op_Update (w_ops order) t kid p = (t', v)"
    using that st kp(3) [of kid p] by (auto simp: w_ops_def w_Update_def apfst_eq public_world_eq)
  show "map_sum id conceal (op_GetByID (w_ops order) s kid) = map_sum id conceal (op_GetByID (w_ops order) t kid)"
    using kp(4) by (simp add: w_ops_def)
  have "byID (w_keys s) = byID (w_keys t)" using k by (simp add: conceal_keys_eq)
  then show "map_sum id (map conceal) (op_List (w_ops order) s) = map_sum id (map conceal) (op_List (w_ops order) t)"
    using kp(5) by (simp add: w_ops_def)
qed

section \<open>What a session reveals\<close>

lemma request_public:
  assumes "public_world w = public_world w'"
  shows "alike public_world (admin_ServeHTTP (rein_admin token order) env w rq) (admin_ServeHTTP (rein_admin token order) env w' rq)"
proof -
  have sw: "w_switch w = w_switch w'" using assms by (simp add: public_world_eq)
  have freeze: "alike public_world (handleSetFreeze (rein_admin token order) w body) (handleSetFreeze (rein_admin token order) w' body)"
    for body
    using assms by (auto simp: alike_def handleSetFreeze_def rein_admin_def NewServer_def w_SetFrozen_def ks_SetFrozen_def
      public_world_eq split: option.split)
  have get: "alike public_world (handleGetFreeze (rein_admin token order) w) (handleGetFreeze (rein_admin token order) w')"
    using assms sw by (simp add: alike_def handleGetFreeze_def rein_admin_def NewServer_def ks_IsFrozen_def)
  have keys: "sv_keys (rein_admin token order) = Some (w_ops order)" by (simp add: rein_admin_def NewServer_def)
  show ?thesis
  proof (cases "route_of (rq_Method rq) (rq_Path rq)")
    case None
    then show ?thesis using assms by (simp add: admin_ServeHTTP_defs alike_pair)
  next
    case (Some route)
    then show ?thesis
      using assms w_public.handleCreateKey_public w_public.handleUpdateKey_public w_public.handleRevokeKey_public
        w_public.handleListKeys_public
      by (cases route) (simp_all add: admin_ServeHTTP_defs Mount_def withAuth_def keys freeze get alike_pair)
  qed
qed

fun admin_session :: "world admin_server \<Rightarrow> world \<Rightarrow> (admin_env \<times> admin_request) list \<Rightarrow> admin_response list" where
  "admin_session srv w [] = []"
| "admin_session srv w ((env, rq) # rqs) = (let (w, resp) = admin_ServeHTTP srv env w rq in resp # admin_session srv w rqs)"

text \<open>C15: The admin API never gives a stored secret away. Two replicas that differ only in the provider secrets and the
  tokens of the keys they hold answer every sequence of admin requests alike, byte for byte: a token is shown
  in the response that creates its key and never again, a provider secret in no response at all.\<close>

theorem admin_responses_hide_secrets:
  assumes "public_world w = public_world w'"
  shows "admin_session (rein_admin token order) w rqs = admin_session (rein_admin token order) w' rqs"
  using assms
proof (induction rqs arbitrary: w w')
  case (Cons x rqs)
  obtain env rq where x: "x = (env, rq)" by fastforce
  have a: "alike public_world (admin_ServeHTTP (rein_admin token order) env w rq) (admin_ServeHTTP (rein_admin token order) env w' rq)"
    by (rule request_public [OF Cons.prems])
  show ?case
    unfolding x admin_session.simps split_beta Let_def
    using Cons.IH [OF conjunct1 [OF a [unfolded alike_def]]] a by (simp only: alike_def)
qed simp

theorem admin_responses_hide_secrets_witness:
  "\<exists>body w'. admin_session demo_admin (created\<lparr>w_keys := fst (keys_Create keys_NewMemory (Some (created_key\<lparr>UpstreamKey := ''other''\<rparr>)))\<rparr>)
     [(demo_env, revoke_request), (demo_env, create_request)] = JSONBody 200 body # w'"
proof -
  let ?w = "created\<lparr>w_keys := fst (keys_Create keys_NewMemory (Some (created_key\<lparr>UpstreamKey := ''other''\<rparr>)))\<rparr>"
  have "conceal_keys (w_keys created) = conceal_keys (w_keys ?w)"
    by (simp add: created_def start_def keys_Create_def keys_NewMemory_def created_key_def demo_id_def tokenPrefix_def
      UpstreamOpenAI_def Let_def conceal_keys_def conceal_def fun_eq_iff)
  then have "public_world created = public_world ?w" by (simp add: public_world_eq)
  note same = admin_responses_hide_secrets [OF this, of "''t''" "\<lambda>_. []" "[(demo_env, revoke_request), (demo_env, create_request)]"]
  obtain body where "admin_ServeHTTP demo_admin demo_env created revoke_request = (revoked, JSONBody 200 body)"
    using demo_revoke by blast
  then have "admin_session demo_admin created [(demo_env, revoke_request), (demo_env, create_request)] =
      JSONBody 200 body # admin_session demo_admin revoked [(demo_env, create_request)]" by simp
  then show ?thesis unfolding same by blast
qed

end
