(* ===== verification/AES_GCM.thy ===== *)
theory AES_GCM
  imports Prelude
begin

text \<open>
  AES-256 in Galois counter mode as Go's \<open>crypto/aes\<close> and \<open>crypto/cipher\<close> provide it to the key store: 32-byte keys,
  12-byte nonces, 16-byte tags, no additional data. The block cipher follows FIPS 197 with the S-box computed
  as inversion in \<open>GF(2^8)\<close> and the affine map, the mode follows NIST SP 800-38D. What the program relies on is
  the lemma \<open>Open_Seal\<close>: opening what was sealed under the same nonce gives the plaintext back.
\<close>

unbundle bit_operations_syntax

type_synonym bytes = "8 word list"

section \<open>The block cipher\<close>

definition xtime :: "8 word \<Rightarrow> 8 word" where
  "xtime b = (if bit b 7 then push_bit 1 b XOR 0x1b else push_bit 1 b)"

fun gf_mult :: "nat \<Rightarrow> 8 word \<Rightarrow> 8 word \<Rightarrow> 8 word" where
  "gf_mult 0 a b = 0"
| "gf_mult (Suc n) a b = (if bit b 0 then a else 0) XOR gf_mult n (xtime a) (drop_bit 1 b)"

definition gf_mul :: "8 word \<Rightarrow> 8 word \<Rightarrow> 8 word" where
  "gf_mul a b = gf_mult 8 a b"

text \<open>The inverse is the 254th power: the product of the powers with exponent 2, 4 up to 128.\<close>

fun square_product :: "nat \<Rightarrow> 8 word \<Rightarrow> 8 word" where
  "square_product 0 a = 1"
| "square_product (Suc n) a = (let s = gf_mul a a in gf_mul s (square_product n s))"

definition sub_byte :: "8 word \<Rightarrow> 8 word" where
  "sub_byte a = (let b = square_product 7 a in
     b XOR word_rotl 1 b XOR word_rotl 2 b XOR word_rotl 3 b XOR word_rotl 4 b XOR 0x63)"

definition xor_bytes :: "bytes \<Rightarrow> bytes \<Rightarrow> bytes" where
  "xor_bytes xs ys = map2 (XOR) xs ys"

definition sbox :: "bytes" where
  "sbox = map (\<lambda>n. sub_byte (word_of_nat n)) [0..<256]"

definition sub_bytes :: "bytes \<Rightarrow> bytes" where
  "sub_bytes xs = (let t = sbox in map (\<lambda>b. t ! unat b) xs)"

definition shift_rows :: "bytes \<Rightarrow> bytes" where
  "shift_rows st = map (\<lambda>i. st ! ((i + 4 * (i mod 4)) mod 16)) [0..<16]"

fun mix_column :: "bytes \<Rightarrow> bytes" where
  "mix_column [a, b, c, d] =
     [xtime a XOR xtime b XOR b XOR c XOR d, a XOR xtime b XOR xtime c XOR c XOR d,
      a XOR b XOR xtime c XOR xtime d XOR d, xtime a XOR a XOR b XOR c XOR xtime d]"
| "mix_column _ = []"

definition mix_columns :: "bytes \<Rightarrow> bytes" where
  "mix_columns st = concat (map (\<lambda>c. mix_column (take 4 (drop (4 * c) st))) [0..<4])"

text \<open>The key schedule: the last eight words are kept newest first, a word is four bytes.\<close>

fun next_word :: "nat \<Rightarrow> 8 word \<Rightarrow> bytes list \<Rightarrow> bytes" where
  "next_word i rcon ws = (let prev = ws ! 0; t =
     (if i mod 8 = 0 then (case sub_bytes (rotate1 prev) of b # bs \<Rightarrow> (b XOR rcon) # bs | [] \<Rightarrow> [])
      else if i mod 8 = 4 then sub_bytes prev else prev) in xor_bytes (ws ! 7) t)"

fun key_words :: "nat \<Rightarrow> nat \<Rightarrow> 8 word \<Rightarrow> bytes list \<Rightarrow> bytes list" where
  "key_words 0 i rcon ws = ws"
| "key_words (Suc n) i rcon ws =
     key_words n (Suc i) (if i mod 8 = 0 then xtime rcon else rcon) (next_word i rcon ws # ws)"

definition round_keys :: "bytes \<Rightarrow> bytes list" where
  "round_keys key = (let ws = rev (key_words 52 8 1 (rev (map (\<lambda>i. take 4 (drop (4 * i) key)) [0..<8])))
     in map (\<lambda>r. concat (take 4 (drop (4 * r) ws))) [0..<15])"

fun rounds :: "bytes list \<Rightarrow> bytes \<Rightarrow> bytes" where
  "rounds [] st = st"
| "rounds [k] st = xor_bytes (shift_rows (sub_bytes st)) k"
| "rounds (k # ks) st = rounds ks (xor_bytes (mix_columns (shift_rows (sub_bytes st))) k)"

definition encrypt_block :: "bytes list \<Rightarrow> bytes \<Rightarrow> bytes" where
  "encrypt_block ks block = (case ks of [] \<Rightarrow> block | k # ks \<Rightarrow> rounds ks (xor_bytes block k))"

section \<open>Galois counter mode\<close>

definition word_of_bytes :: "bytes \<Rightarrow> 128 word" where
  "word_of_bytes bs = foldl (\<lambda>w b. push_bit 8 w OR ucast b) 0 bs"

definition bytes_of_word :: "128 word \<Rightarrow> bytes" where
  "bytes_of_word w = map (\<lambda>i. ucast (drop_bit (120 - 8 * i) w)) [0..<16]"

fun ghash_mult :: "nat \<Rightarrow> 128 word \<Rightarrow> 128 word \<Rightarrow> 128 word \<Rightarrow> 128 word" where
  "ghash_mult 0 x v z = z"
| "ghash_mult (Suc n) x v z = ghash_mult n x
     (if bit v 0 then drop_bit 1 v XOR push_bit 120 0xe1 else drop_bit 1 v) (if bit x n then z XOR v else z)"

function blocks :: "bytes \<Rightarrow> bytes list" where
  "blocks [] = []"
| "blocks (b # bs) = take 16 (b # bs) # blocks (drop 16 (b # bs))"
  by pat_completeness auto

termination
  by (relation "measure length") simp_all

definition zero_pad :: "bytes \<Rightarrow> bytes" where
  "zero_pad bs = bs @ replicate (16 - length bs) 0"

definition ghash :: "128 word \<Rightarrow> bytes \<Rightarrow> 128 word" where
  "ghash h ct = foldl (\<lambda>y b. ghash_mult 128 (y XOR word_of_bytes b) h 0) 0
     (map zero_pad (blocks ct) @ [bytes_of_word (word_of_nat (8 * length ct))])"

definition counter_block :: "bytes \<Rightarrow> nat \<Rightarrow> bytes" where
  "counter_block nonce i = nonce @ drop 12 (bytes_of_word (word_of_nat (i mod 2 ^ 32)))"

definition keystream :: "bytes list \<Rightarrow> bytes \<Rightarrow> nat \<Rightarrow> bytes" where
  "keystream ks nonce n = take n (concat (map (\<lambda>i. take 16 (encrypt_block ks (counter_block nonce (i + 2)) @ replicate 16 0))
     [0..<(n + 15) div 16]))"

definition gcm_tag :: "bytes list \<Rightarrow> bytes \<Rightarrow> bytes \<Rightarrow> bytes" where
  "gcm_tag ks nonce ct = bytes_of_word
     (ghash (word_of_bytes (encrypt_block ks (replicate 16 0))) ct XOR
      word_of_bytes (encrypt_block ks (counter_block nonce 1)))"

definition gcm_Seal :: "bytes \<Rightarrow> bytes \<Rightarrow> bytes \<Rightarrow> bytes" where
  "gcm_Seal key nonce plaintext = (let ks = round_keys key;
     ct = xor_bytes plaintext (keystream ks nonce (length plaintext)) in ct @ gcm_tag ks nonce ct)"

definition gcm_Open :: "bytes \<Rightarrow> bytes \<Rightarrow> bytes \<Rightarrow> bytes option" where
  "gcm_Open key nonce sealed = (if length sealed < 16 then None else
     let ks = round_keys key; ct = take (length sealed - 16) sealed; tag = drop (length sealed - 16) sealed
     in if tag \<noteq> gcm_tag ks nonce ct then None else Some (xor_bytes ct (keystream ks nonce (length ct))))"

section \<open>Opening what was sealed\<close>

lemma length_keystream: "length (keystream ks nonce n) = n"
proof -
  have "length (concat (map (\<lambda>i. take 16 (encrypt_block ks (counter_block nonce (i + 2)) @ replicate 16 0)) [0..<m])) = 16 * m"
    for m by (induction m) simp_all
  moreover have "n \<le> 16 * ((n + 15) div 16)" by presburger
  ultimately show ?thesis by (simp add: keystream_def)
qed

lemma xor_bytes_twice: "length ys = length xs \<Longrightarrow> xor_bytes (xor_bytes xs ys) ys = xs"
proof (induction xs arbitrary: ys)
  case (Cons x xs)
  then show ?case by (cases ys) (simp_all add: xor_bytes_def xor.assoc)
qed (simp add: xor_bytes_def)

lemma length_xor_bytes: "length (xor_bytes xs ys) = min (length xs) (length ys)"
  by (simp add: xor_bytes_def)

lemma length_gcm_tag: "length (gcm_tag ks nonce ct) = 16"
  by (simp add: gcm_tag_def bytes_of_word_def)

lemma Open_Seal: "gcm_Open key nonce (gcm_Seal key nonce plaintext) = Some plaintext"
  by (simp add: gcm_Open_def gcm_Seal_def Let_def length_gcm_tag length_xor_bytes length_keystream xor_bytes_twice)

end
