(* ===== verification/Cipher.thy ===== *)
theory Cipher
  imports AES_GCM Keys
begin

text \<open>
  \<open>internal/keys/cipher.go\<close>: encryption of the upstream secrets of the durable key store. The interface \<open>Cipher\<close> is the record \<open>cipher\<close>, with the random
  source an argument of \<open>Encrypt\<close>, and the locale \<open>cipher_laws\<close> what its users rely on: what was encrypted decrypts
  to itself. \<open>base64.RawStdEncoding\<close> and \<open>hex.DecodeString\<close> are modelled here, the cipher itself in \<open>AES_GCM\<close>.
\<close>

section \<open>Bytes as text\<close>

definition bytes_of_string :: "string \<Rightarrow> bytes" where
  "bytes_of_string s = map (\<lambda>c. word_of_nat (of_char c)) s"

definition string_of_bytes :: "bytes \<Rightarrow> string" where
  "string_of_bytes bs = map (\<lambda>b. char_of (unat b)) bs"

lemma unat_of_char: "unat (word_of_nat (of_char c) :: 8 word) = of_char c"
proof -
  have "(of_char c :: nat) < 256" by (cases c) (simp add: of_char_def horner_sum_bit_eq_take_bit)
  then show ?thesis by (simp add: unat_of_nat)
qed

lemma string_of_bytes_of_string [simp]: "string_of_bytes (bytes_of_string s) = s"
  by (induction s) (simp_all add: string_of_bytes_def bytes_of_string_def unat_of_char)

text \<open>\<open>RawStdEncoding\<close>: three bytes are four characters, without padding. Decoding skips carriage returns and
  newlines and does not look at the unused bits of the last character.\<close>

definition base64_alphabet :: string where
  "base64_alphabet = ''ABCDEFGHIJKLMNOPQRSTUVWXYZabcdefghijklmnopqrstuvwxyz0123456789+/''"

definition b64 :: "nat \<Rightarrow> char" where
  "b64 n = base64_alphabet ! n"

fun index_of :: "char \<Rightarrow> string \<Rightarrow> nat option" where
  "index_of c [] = None"
| "index_of c (d # s) = (if d = c then Some 0 else map_option Suc (index_of c s))"

definition unb64 :: "char \<Rightarrow> nat option" where
  "unb64 c = index_of c base64_alphabet"

text \<open>The second and third group of three bytes \<open>a\<close>, \<open>b\<close> and \<open>c\<close>; the bytes of four groups.\<close>

definition group2 :: "nat \<Rightarrow> nat \<Rightarrow> nat" where "group2 a b = a mod 4 * 16 + b div 16"
definition group3 :: "nat \<Rightarrow> nat \<Rightarrow> nat" where "group3 b c = b mod 16 * 4 + c div 64"
definition byte1 :: "nat \<Rightarrow> nat \<Rightarrow> nat" where "byte1 w x = w * 4 + x div 16"
definition byte2 :: "nat \<Rightarrow> nat \<Rightarrow> nat" where "byte2 x y = x mod 16 * 16 + y div 4"
definition byte3 :: "nat \<Rightarrow> nat \<Rightarrow> nat" where "byte3 y z = y mod 4 * 64 + z"

fun RawStd_EncodeToString :: "bytes \<Rightarrow> string" where
  "RawStd_EncodeToString [] = []"
| "RawStd_EncodeToString [a] = [b64 (unat a div 4), b64 (group2 (unat a) 0)]"
| "RawStd_EncodeToString [a, b] = [b64 (unat a div 4), b64 (group2 (unat a) (unat b)), b64 (group3 (unat b) 0)]"
| "RawStd_EncodeToString (a # b # c # r) = [b64 (unat a div 4), b64 (group2 (unat a) (unat b)),
     b64 (group3 (unat b) (unat c)), b64 (unat c mod 64)] @ RawStd_EncodeToString r"

fun quanta :: "nat list \<Rightarrow> bytes option" where
  "quanta [] = Some []"
| "quanta [w] = None"
| "quanta [w, x] = Some [word_of_nat (byte1 w x)]"
| "quanta [w, x, y] = Some [word_of_nat (byte1 w x), word_of_nat (byte2 x y)]"
| "quanta (w # x # y # z # r) = map_option
     (\<lambda>bs. [word_of_nat (byte1 w x), word_of_nat (byte2 x y), word_of_nat (byte3 y z)] @ bs) (quanta r)"

definition RawStd_DecodeString :: "string \<Rightarrow> bytes option" where
  "RawStd_DecodeString s = Option.bind
     (those (map unb64 (filter (\<lambda>c. c \<noteq> CHR 0x0D \<and> c \<noteq> CHR 0x0A) s))) quanta"

text \<open>\<open>hex.DecodeString\<close>: pairs of digits of either case.\<close>

definition unhex :: "char \<Rightarrow> nat option" where
  "unhex c = (let n = of_char c in if 48 \<le> n \<and> n \<le> 57 then Some (n - 48)
     else if 97 \<le> n \<and> n \<le> 102 then Some (n - 87) else if 65 \<le> n \<and> n \<le> 70 then Some (n - 55) else None)"

fun hex_DecodeString :: "string \<Rightarrow> bytes option" where
  "hex_DecodeString [] = Some []"
| "hex_DecodeString [a] = None"
| "hex_DecodeString (a # b # r) = (case unhex a of None \<Rightarrow> None | Some m \<Rightarrow> case unhex b of None \<Rightarrow> None | Some n \<Rightarrow>
     map_option ((#) (word_of_nat (16 * m + n))) (hex_DecodeString r))"

section \<open>Ciphers\<close>

datatype cipher_error = RandFailed string | MissingTag | BadBase64 | CiphertextTooShort | OpenFailed
  | NoopTagged | WrongKeySize nat | WrongHexLength nat | BadHex

type_synonym rand = "nat \<Rightarrow> string + bytes"

record cipher =
  Encrypt :: "rand \<Rightarrow> string \<Rightarrow> cipher_error + string"
  Decrypt :: "string \<Rightarrow> cipher_error + string"

definition AESKeySize :: nat where "AESKeySize = 32"
definition aesGCMTag :: string where "aesGCMTag = ''v1:''"

definition NoopCipher :: cipher where
  "NoopCipher = \<lparr>Encrypt = (\<lambda>_ s. Inr s),
     Decrypt = (\<lambda>s. if HasPrefix s aesGCMTag then Inl NoopTagged else Inr s)\<rparr>"

text \<open>An AEAD of \<open>crypto/cipher\<close>.\<close>

record aead =
  NonceSize :: nat
  Seal :: "bytes \<Rightarrow> bytes \<Rightarrow> bytes"
  Open :: "bytes \<Rightarrow> bytes \<Rightarrow> bytes option"

definition NewGCM :: "bytes \<Rightarrow> aead" where
  "NewGCM key = \<lparr>NonceSize = 12, Seal = gcm_Seal key, Open = gcm_Open key\<rparr>"

definition aesGCM_Encrypt :: "aead \<Rightarrow> rand \<Rightarrow> string \<Rightarrow> cipher_error + string" where
  "aesGCM_Encrypt A rand_Read plaintext = (case rand_Read (NonceSize A) of
     Inl err \<Rightarrow> Inl (RandFailed err)
   | Inr nonce \<Rightarrow> let sealed = Seal A nonce (bytes_of_string plaintext); payload = nonce @ sealed
       in Inr (aesGCMTag @ RawStd_EncodeToString payload))"

definition aesGCM_Decrypt :: "aead \<Rightarrow> string \<Rightarrow> cipher_error + string" where
  "aesGCM_Decrypt A encoded =
     (if \<not> HasPrefix encoded aesGCMTag then Inl MissingTag
      else case RawStd_DecodeString (TrimPrefix encoded aesGCMTag) of None \<Rightarrow> Inl BadBase64
      | Some payload \<Rightarrow>
          let nonceSize = NonceSize A in
          if length payload < nonceSize then Inl CiphertextTooShort
          else (case Open A (take nonceSize payload) (drop nonceSize payload) of
              None \<Rightarrow> Inl OpenFailed | Some plain \<Rightarrow> Inr (string_of_bytes plain)))"

definition aesGCMCipher :: "aead \<Rightarrow> cipher" where
  "aesGCMCipher A = \<lparr>Encrypt = aesGCM_Encrypt A, Decrypt = aesGCM_Decrypt A\<rparr>"

definition NewAESGCM :: "bytes \<Rightarrow> cipher_error + cipher" where
  "NewAESGCM key = (if length key \<noteq> AESKeySize then Inl (WrongKeySize (length key))
     else Inr (aesGCMCipher (NewGCM key)))"

definition DecodeHexKey :: "string \<Rightarrow> cipher_error + bytes" where
  "DecodeHexKey h = (let h = TrimSpace h in
     if length h \<noteq> AESKeySize * 2 then Inl (WrongHexLength (length h))
     else case hex_DecodeString h of None \<Rightarrow> Inl BadHex | Some bs \<Rightarrow> Inr bs)"

section \<open>The interface\<close>

definition rand_fills :: "rand \<Rightarrow> bool" where
  "rand_fills r \<longleftrightarrow> (\<forall>n bs. r n = Inr bs \<longrightarrow> length bs = n)"

locale cipher_laws =
  fixes C :: cipher and ok :: "string \<Rightarrow> bool"
  assumes decrypt_encrypt: "rand_fills r \<Longrightarrow> ok p \<Longrightarrow> Encrypt C r p = Inr c \<Longrightarrow> Decrypt C c = Inr p"

section \<open>Round trips\<close>

lemma index_of_nth: "distinct s \<Longrightarrow> n < length s \<Longrightarrow> index_of (s ! n) s = Some n"
  by (induction s arbitrary: n) (auto simp: nth_Cons split: nat.split)

lemma distinct_alphabet: "distinct base64_alphabet" "length base64_alphabet = 64"
  "CHR 0x0D \<notin> set base64_alphabet" "CHR 0x0A \<notin> set base64_alphabet"
  by (simp_all add: base64_alphabet_def)

lemma unb64_b64 [simp]: "n < 64 \<Longrightarrow> unb64 (b64 n) = Some n"
  by (simp add: unb64_def b64_def index_of_nth distinct_alphabet)

lemma b64_visible: "n < 64 \<Longrightarrow> b64 n \<noteq> CHR 0x0D \<and> b64 n \<noteq> CHR 0x0A"
proof -
  assume "n < 64"
  then have "b64 n \<in> set base64_alphabet" by (simp add: b64_def distinct_alphabet)
  then show ?thesis using distinct_alphabet(3,4) by metis
qed

lemma unat_8: "unat (a :: 8 word) < 256"
  using unsigned_less [of a] by simp

text \<open>The six-bit groups of a text, and their decoding.\<close>

definition sextets :: "bytes \<Rightarrow> nat list option" where
  "sextets bs = those (map unb64 (filter (\<lambda>c. c \<noteq> CHR 0x0D \<and> c \<noteq> CHR 0x0A) (RawStd_EncodeToString bs)))"

lemma sextet_split:
  "a < 256 \<Longrightarrow> a div 4 < 64" "b < 256 \<Longrightarrow> group2 a b < 64" "c < 256 \<Longrightarrow> group3 b c < 64"
proof -
  have m: "a mod 4 < 4" "b mod 16 < 16" for a b :: nat by simp_all
  show "a < 256 \<Longrightarrow> a div 4 < 64" by (simp add: less_mult_imp_div_less)
  have "b < 256 \<Longrightarrow> b div 16 < 16" by (simp add: less_mult_imp_div_less)
  then show "b < 256 \<Longrightarrow> group2 a b < 64" using m(1) [of a] by (simp add: group2_def)
  have "c < 256 \<Longrightarrow> c div 64 < 4" by (simp add: less_mult_imp_div_less)
  then show "c < 256 \<Longrightarrow> group3 b c < 64" using m(2) [of b] by (simp add: group3_def)
qed

lemma sextet_join:
  "b < 256 \<Longrightarrow> byte1 (a div 4) (group2 a b) = a" "b < 256 \<Longrightarrow> c < 256 \<Longrightarrow> byte2 (group2 a b) (group3 b c) = b"
  "c < 256 \<Longrightarrow> byte3 (group3 b c) (c mod 64) = c"
proof -
  have d: "b < 256 \<Longrightarrow> b div 16 < 16" "c < 256 \<Longrightarrow> c div 64 < 4" by (simp_all add: less_mult_imp_div_less)
  show "b < 256 \<Longrightarrow> byte1 (a div 4) (group2 a b) = a" using d(1) by (simp add: byte1_def group2_def)
  have "(a mod 4 * 16 + b div 16) mod 16 = b div 16" if "b < 256" using d(1) [OF that] by simp
  moreover have "(b mod 16 * 4 + c div 64) div 4 = b mod 16" if "c < 256" using d(2) [OF that] by simp
  ultimately show "b < 256 \<Longrightarrow> c < 256 \<Longrightarrow> byte2 (group2 a b) (group3 b c) = b"
    by (simp add: byte2_def group2_def group3_def)
  have "(b mod 16 * 4 + c div 64) mod 4 = c div 64" if "c < 256" using d(2) [OF that] by simp
  then show "c < 256 \<Longrightarrow> byte3 (group3 b c) (c mod 64) = c" by (simp add: byte3_def group3_def)
qed

lemma RawStd_round_trip: "RawStd_DecodeString (RawStd_EncodeToString bs) = Some bs"
proof -
  have "\<exists>ns. sextets bs = Some ns \<and> quanta ns = Some bs"
  proof (induction bs rule: RawStd_EncodeToString.induct)
    case (4 a b c r)
    then obtain ns where "sextets r = Some ns" "quanta ns = Some r" by blast
    then show ?case
      by (simp add: sextets_def Let_def b64_visible sextet_split sextet_join unat_8)
  qed (simp_all add: sextets_def Let_def b64_visible sextet_split sextet_join unat_8)
  then show ?thesis by (auto simp: RawStd_DecodeString_def sextets_def)
qed

lemma aesGCM_round_trip:
  assumes "\<And>nonce p. length nonce = NonceSize A \<Longrightarrow> Open A nonce (Seal A nonce p) = Some p"
    "rand_fills r" "aesGCM_Encrypt A r p = Inr c"
  shows "aesGCM_Decrypt A c = Inr p"
proof -
  obtain nonce where n: "r (NonceSize A) = Inr nonce"
      "c = aesGCMTag @ RawStd_EncodeToString (nonce @ Seal A nonce (bytes_of_string p))"
    using assms(3) by (auto simp: aesGCM_Encrypt_def Let_def split: sum.splits)
  then have "length nonce = NonceSize A" using assms(2) by (simp add: rand_fills_def)
  with n(2) assms(1) show ?thesis
    by (simp add: aesGCM_Decrypt_def HasPrefix_append TrimPrefix_append RawStd_round_trip Let_def)
qed

interpretation aes: cipher_laws "aesGCMCipher (NewGCM key)" "\<lambda>_. True" for key
  by unfold_locales (auto simp: aesGCMCipher_def NewGCM_def Open_Seal intro: aesGCM_round_trip [rotated])

text \<open>The pass-through cipher refuses to give back what looks like real ciphertext.\<close>

interpretation noop: cipher_laws NoopCipher "\<lambda>p. \<not> HasPrefix p aesGCMTag"
  by unfold_locales (simp add: NoopCipher_def)

lemma hex_DecodeString_length: "hex_DecodeString h = Some bs \<Longrightarrow> length h = 2 * length bs"
  by (induction h arbitrary: bs rule: hex_DecodeString.induct) (auto split: option.splits)

lemma unhex_digits: "list_all (\<lambda>c. \<not> Option.is_none (unhex c)) ''0123456789abcdefABCDEF''"
  by code_simp

lemma unhex_Some: "c \<in> set ''0123456789abcdefABCDEF'' \<Longrightarrow> \<exists>n. unhex c = Some n"
  using unhex_digits unfolding list_all_iff by (auto simp: Option.is_none_def)

lemma hex_DecodeString_total:
  "set h \<subseteq> set ''0123456789abcdefABCDEF'' \<Longrightarrow> even (length h) \<Longrightarrow> \<exists>bs. hex_DecodeString h = Some bs"
proof (induction h rule: hex_DecodeString.induct)
  case (3 a b r)
  then obtain m n where "unhex a = Some m" "unhex b = Some n"
    using unhex_Some [of a] unhex_Some [of b] by (meson list.set_intros subsetD)
  with 3 show ?case by auto
qed auto

text \<open>C36: The keys of the operator work. Every encryption key of 64 hexadecimal digits, of either case and with any white space
  around them, gives a cipher, and whatever secret it encrypts, the stored text decrypts under the same key to
  exactly that secret, given a random source that fills the nonce or fails; encrypting fails only if it does. Without the key the store refuses the text
  instead of taking it for a secret.\<close>

theorem encrypted_secret_decrypts:
  assumes "TrimSpace text = h" "length h = 64" "set h \<subseteq> set ''0123456789abcdefABCDEF''" "rand_fills r"
  shows "\<exists>key C. DecodeHexKey text = Inr key \<and> NewAESGCM key = Inr C \<and> (case Encrypt C r secret of
     Inl err \<Rightarrow> \<exists>e. r 12 = Inl e \<and> err = RandFailed e
   | Inr c \<Rightarrow> Decrypt C c = Inr secret \<and> Decrypt NoopCipher c = Inl NoopTagged)"
proof -
  obtain key where key: "hex_DecodeString h = Some key" using hex_DecodeString_total [OF assms(3)] assms(2) by auto
  then have h: "DecodeHexKey text = Inr key" using assms(1,2) by (simp add: DecodeHexKey_def AESKeySize_def)
  have "length key = 32" using hex_DecodeString_length [OF key] assms(2) by simp
  then have C: "NewAESGCM key = Inr (aesGCMCipher (NewGCM key))" by (simp add: NewAESGCM_def AESKeySize_def)
  let ?C = "aesGCMCipher (NewGCM key)"
  have "\<exists>e. r 12 = Inl e \<and> err = RandFailed e" if "Encrypt ?C r secret = Inl err" for err
    using that by (auto simp: aesGCMCipher_def aesGCM_Encrypt_def NewGCM_def Let_def split: sum.splits)
  moreover have "Decrypt ?C c = Inr secret \<and> Decrypt NoopCipher c = Inl NoopTagged" if "Encrypt ?C r secret = Inr c" for c
  proof -
    have "\<exists>t. c = aesGCMTag @ t"
      using that by (auto simp: aesGCMCipher_def aesGCM_Encrypt_def Let_def split: sum.splits)
    then show ?thesis using aes.decrypt_encrypt [OF assms(4) TrueI that] by (auto simp: NoopCipher_def HasPrefix_append)
  qed
  ultimately show ?thesis using h C by (auto split: sum.split)
qed

definition demo_rand :: rand where "demo_rand n = Inr (replicate n 7)"

lemma demo_hex_key: "DecodeHexKey (replicate 64 (CHR ''0'')) = Inr (replicate 32 0)"
proof -
  have "TrimSpace (replicate 64 (CHR ''0'')) = replicate 64 (CHR ''0'')" by (rule TrimSpace_id) (simp_all add: visible_def)
  moreover have "hex_DecodeString (replicate 64 (CHR ''0'')) = Some (replicate 32 0)" by code_simp
  ultimately show ?thesis by (simp add: DecodeHexKey_def Let_def AESKeySize_def)
qed

theorem encrypted_secret_decrypts_witness:
  "\<exists>key C c. DecodeHexKey (replicate 64 (CHR ''F'')) = Inr key \<and> NewAESGCM key = Inr C \<and>
    Encrypt C demo_rand ''sk-1'' = Inr c \<and> Decrypt C c = Inr ''sk-1''"
proof -
  let ?h = "replicate 64 (CHR ''F'')"
  have t: "TrimSpace ?h = ?h" by (rule TrimSpace_id) (simp_all add: visible_def)
  have r: "rand_fills demo_rand" by (simp add: rand_fills_def demo_rand_def)
  from encrypted_secret_decrypts [OF t _ _ r, of "''sk-1''"] obtain key C where
    C: "DecodeHexKey ?h = Inr key" "NewAESGCM key = Inr C" "case Encrypt C demo_rand ''sk-1'' of Inl err \<Rightarrow> \<exists>e. demo_rand 12 = Inl e \<and> err = RandFailed e
      | Inr c \<Rightarrow> Decrypt C c = Inr ''sk-1'' \<and> Decrypt NoopCipher c = Inl NoopTagged" by auto
  then show ?thesis by (cases "Encrypt C demo_rand ''sk-1''") (auto simp: demo_rand_def)
qed

end
