(* ===== verification/Sqlite_Keys.thy ===== *)
theory Sqlite_Keys
  imports Cipher Timestamps
begin

text \<open>
  \<open>internal/keys/sqlite.go\<close>: the durable key store. The database engine is not part of the program: it is a
  record \<open>sql_db\<close> with one operation per statement the store sends, over an unknown state \<open>'d\<close>, and the locale
  \<open>sql_keys\<close> states what SQL promises about the table behind them. Everything else is the store's own: how
  a key becomes a row with its secret encrypted and its times as RFC 3339 text, how a row becomes a key again, and what each
  operation does with the number of rows it changed. The store then meets the same contract \<open>key_store\<close>
  as the store in memory.
\<close>

section \<open>The database\<close>

record key_row =
  r_id :: string
  r_token :: string
  r_name :: string
  r_upstream :: string
  r_upstream_key :: string
  r_daily_budget_usd :: f64
  r_month_budget_usd :: f64
  r_upstream_base_url :: string
  r_rps_limit :: i64
  r_rpm_limit :: i64
  r_max_concurrent :: i64
  r_upstream_timeout_seconds :: i64
  r_created_at :: string
  r_revoked_at :: "string option"
  r_expires_at :: "string option"

text \<open>What scanning a row gives, and a result set: its rows and the error that ended it, if any. A statement
  that writes returns the outcome of \<open>Exec\<close> and within it the one of \<open>RowsAffected\<close>.\<close>

datatype 'r scanned = NoRows | ScanError string | Row 'r

type_synonym 'r result_set = "string + 'r scanned list \<times> string option"
type_synonym exec_result = "string + (string + nat)"

text \<open>The columns that \<open>Update\<close> writes.\<close>

record row_update =
  u_name :: string
  u_daily_budget_usd :: f64
  u_month_budget_usd :: f64
  u_upstream_base_url :: string
  u_rps_limit :: i64
  u_rpm_limit :: i64
  u_max_concurrent :: i64
  u_upstream_timeout_seconds :: i64
  u_expires_at :: "string option"

record 'd sql_db =
  db_Ping :: "'d \<Rightarrow> string option"
  db_Exec :: "'d \<Rightarrow> string \<Rightarrow> 'd \<times> string option"
  db_table_info :: "'d \<Rightarrow> string \<Rightarrow> string result_set"
  db_insert :: "'d \<Rightarrow> key_row \<Rightarrow> 'd \<times> string option"
  db_by_id :: "'d \<Rightarrow> string \<Rightarrow> key_row scanned"
  db_by_token :: "'d \<Rightarrow> string \<Rightarrow> key_row scanned"
  db_list :: "'d \<Rightarrow> key_row result_set"
  db_revoke :: "'d \<Rightarrow> string \<Rightarrow> string \<Rightarrow> 'd \<times> exec_result"
  db_update :: "'d \<Rightarrow> row_update \<Rightarrow> string \<Rightarrow> 'd \<times> exec_result"
  db_expiring :: "'d \<Rightarrow> string \<Rightarrow> key_row result_set"

section \<open>Opening a database\<close>

text \<open>\<open>url.PathEscape\<close>.\<close>

definition path_unreserved :: "char \<Rightarrow> bool" where
  "path_unreserved c \<longleftrightarrow> (let n = (of_char c :: nat) in 97 \<le> n \<and> n \<le> 122 \<or> 65 \<le> n \<and> n \<le> 90 \<or> 48 \<le> n \<and> n \<le> 57)
     \<or> c \<in> set ''-_.~$&+:=@''"

definition upper_hex :: "nat \<Rightarrow> char" where
  "upper_hex n = ''0123456789ABCDEF'' ! n"

definition PathEscape :: "string \<Rightarrow> string" where
  "PathEscape s = concat (map (\<lambda>c. if path_unreserved c then [c]
     else [CHR ''%'', upper_hex (of_char c div 16), upper_hex (of_char c mod 16)]) s)"

text \<open>\<open>strings.CutPrefix\<close>, for the schemes of database URLs.\<close>

definition CutPrefix :: "string \<Rightarrow> string \<Rightarrow> string option" where
  "CutPrefix s p = (if HasPrefix s p then Some (TrimPrefix s p) else None)"

definition sqlite_dsn :: "string \<Rightarrow> string" where
  "sqlite_dsn path = ''file:'' @ PathEscape path @
     ''?_pragma=journal_mode(WAL)&_pragma=busy_timeout(5000)&_pragma=foreign_keys(on)''"

definition validBareIdent :: "string \<Rightarrow> bool" where
  "validBareIdent s = (if s = [] \<or> 64 < length s then False
     else list_all (\<lambda>(i, c). let n = (of_char c :: nat) in 97 \<le> n \<and> n \<le> 122 \<or> (48 \<le> n \<and> n \<le> 57 \<and> 0 < i) \<or> (c = CHR ''_'' \<and> 0 < i))
       (enumerate 0 s))"

fun find_column :: "string \<Rightarrow> string scanned list \<Rightarrow> string option \<Rightarrow> string + bool" where
  "find_column column [] rows_Err = (case rows_Err of None \<Rightarrow> Inr False | Some e \<Rightarrow> Inl e)"
| "find_column column (Row name # rows) rows_Err = (if name = column then Inr True else find_column column rows rows_Err)"
| "find_column column (ScanError e # rows) rows_Err = Inl (''scan table_info: '' @ e)"
| "find_column column (NoRows # rows) rows_Err = find_column column rows rows_Err"

definition sqliteColumnExists :: "'d sql_db \<Rightarrow> 'd \<Rightarrow> string \<Rightarrow> string \<Rightarrow> string + bool" where
  "sqliteColumnExists E d table column =
     (if \<not> validBareIdent table then Inl (''pragma table_info: invalid table name'')
      else case db_table_info E d table of Inl e \<Rightarrow> Inl (''pragma table_info: '' @ e)
        | Inr (rows, rows_Err) \<Rightarrow> find_column column rows rows_Err)"

text \<open>The text of the schema, line by line.\<close>

abbreviation tab :: char where "tab \<equiv> CHR 0x09"

fun join_lines :: "string list \<Rightarrow> string" where
  "join_lines [] = []"
| "join_lines [l] = l"
| "join_lines (l # ls) = l @ CHR 0x0A # join_lines ls"

definition sqliteSchema :: string where
  "sqliteSchema = join_lines
     [[],
      ''CREATE TABLE IF NOT EXISTS virtual_keys ('',
      tab # ''id                        TEXT PRIMARY KEY,'',
      tab # ''token                     TEXT NOT NULL UNIQUE,'',
      tab # ''name                      TEXT NOT NULL,'',
      tab # ''upstream                  TEXT NOT NULL,'',
      tab # ''upstream_key              TEXT NOT NULL,'',
      tab # ''daily_budget_usd          REAL NOT NULL DEFAULT 0,'',
      tab # ''month_budget_usd          REAL NOT NULL DEFAULT 0,'',
      tab # (''upstream_base_url         TEXT NOT NULL DEFAULT '' @ [chr 39, chr 39] @ '',''),
      tab # ''rps_limit                 INTEGER NOT NULL DEFAULT 0,'',
      tab # ''rpm_limit                 INTEGER NOT NULL DEFAULT 0,'',
      tab # ''max_concurrent            INTEGER NOT NULL DEFAULT 0,'',
      tab # ''upstream_timeout_seconds  INTEGER NOT NULL DEFAULT 0,'',
      tab # ''created_at                TEXT NOT NULL,'',
      tab # ''revoked_at                TEXT,'',
      tab # ''expires_at                TEXT'',
      '');'']"

definition add_column :: "string \<Rightarrow> string" where
  "add_column decl = ''ALTER TABLE virtual_keys ADD COLUMN '' @ decl"

text \<open>The columns added since the oldest supported schema, in the order they are checked.\<close>

definition sqlite_migrations :: "(string \<times> string) list" where
  "sqlite_migrations =
     [(''upstream_base_url'', add_column (''upstream_base_url TEXT NOT NULL DEFAULT '' @ [chr 39, chr 39])),
      (''rps_limit'', add_column ''rps_limit INTEGER NOT NULL DEFAULT 0''),
      (''rpm_limit'', add_column ''rpm_limit INTEGER NOT NULL DEFAULT 0''),
      (''max_concurrent'', add_column ''max_concurrent INTEGER NOT NULL DEFAULT 0''),
      (''upstream_timeout_seconds'', add_column ''upstream_timeout_seconds INTEGER NOT NULL DEFAULT 0''),
      (''expires_at'', add_column ''expires_at TEXT'')]"

fun run_migrations :: "'d sql_db \<Rightarrow> (string \<times> string) list \<Rightarrow> 'd \<Rightarrow> 'd \<times> string option" where
  "run_migrations E [] d = (d, None)"
| "run_migrations E ((name, ddl) # ms) d = (case sqliteColumnExists E d ''virtual_keys'' name of
     Inl e \<Rightarrow> (d, Some e)
   | Inr True \<Rightarrow> run_migrations E ms d
   | Inr False \<Rightarrow> (case db_Exec E d ddl of
         (d, Some e) \<Rightarrow> (d, Some (''add '' @ name @ '' column: '' @ e))
       | (d, None) \<Rightarrow> run_migrations E ms d))"

definition applySQLiteMigrations :: "'d sql_db \<Rightarrow> 'd \<Rightarrow> 'd \<times> string option" where
  "applySQLiteMigrations E d = run_migrations E sqlite_migrations d"

text \<open>\<open>sql.Open\<close> is a parameter; the result is the handle, whose cipher is an argument of every operation.\<close>

definition NewSQLite :: "(string \<Rightarrow> string + 'd) \<Rightarrow> 'd sql_db \<Rightarrow> string \<Rightarrow> cipher option \<Rightarrow> string + 'd" where
  "NewSQLite sql_Open E path c =
     (if TrimSpace path = [] then Inl ''sqlite path is required''
      else if c = None then Inl ''sqlite keystore requires a non-nil Cipher''
      else case sql_Open (sqlite_dsn path) of Inl e \<Rightarrow> Inl (''open sqlite: '' @ e) | Inr d \<Rightarrow>
        case db_Ping E d of Some e \<Rightarrow> Inl (''ping sqlite: '' @ e) | None \<Rightarrow>
        case db_Exec E d sqliteSchema of (d, Some e) \<Rightarrow> Inl (''apply schema: '' @ e) | (d, None) \<Rightarrow>
        case applySQLiteMigrations E d of (d, Some e) \<Rightarrow> Inl (''apply migrations: '' @ e) | (d, None) \<Rightarrow> Inr d)"

section \<open>Rows and keys\<close>

definition format_opt :: "instant option \<Rightarrow> string option" where
  "format_opt t = map_option format_RFC3339Nano t"

text \<open>The row \<open>Create\<close> inserts; \<open>revoked_at\<close> is not among its columns.\<close>

definition row_of :: "VirtualKey \<Rightarrow> string \<Rightarrow> key_row" where
  "row_of k encUpstream = \<lparr>r_id = ID k, r_token = Token k, r_name = Name k, r_upstream = Upstream k,
     r_upstream_key = encUpstream, r_daily_budget_usd = DailyBudgetUSD k, r_month_budget_usd = MonthBudgetUSD k,
     r_upstream_base_url = UpstreamBaseURL k, r_rps_limit = RPSLimit k, r_rpm_limit = RPMLimit k,
     r_max_concurrent = MaxConcurrent k, r_upstream_timeout_seconds = UpstreamTimeoutSeconds k,
     r_created_at = format_RFC3339Nano (CreatedAt k), r_revoked_at = None, r_expires_at = format_opt (ExpiresAt k)\<rparr>"

definition parse_opt :: "string \<Rightarrow> string option \<Rightarrow> keys_error + instant option" where
  "parse_opt what s = (case s of None \<Rightarrow> Inr None
     | Some s \<Rightarrow> (case time_Parse s of None \<Rightarrow> Inl (StoreFailure what) | Some t \<Rightarrow> Inr (Some t)))"

definition scanKey :: "cipher \<Rightarrow> key_row scanned \<Rightarrow> keys_error + VirtualKey" where
  "scanKey C scan = (case scan of
     NoRows \<Rightarrow> Inl ErrNotFound
   | ScanError e \<Rightarrow> Inl (StoreFailure (''scan key: '' @ e))
   | Row r \<Rightarrow> (case Decrypt C (r_upstream_key r) of
       Inl err \<Rightarrow> Inl (StoreFailure ''decrypt upstream key'')
     | Inr secret \<Rightarrow> (case time_Parse (r_created_at r) of
         None \<Rightarrow> Inl (StoreFailure ''parse created_at'')
       | Some t \<Rightarrow> (case parse_opt ''parse revoked_at'' (r_revoked_at r) of
           Inl err \<Rightarrow> Inl err
         | Inr rt \<Rightarrow> (case parse_opt ''parse expires_at'' (r_expires_at r) of
             Inl err \<Rightarrow> Inl err
           | Inr et \<Rightarrow> Inr \<lparr>ID = r_id r, Token = r_token r, Name = r_name r, Upstream = r_upstream r, UpstreamKey = secret,
               DailyBudgetUSD = r_daily_budget_usd r, MonthBudgetUSD = r_month_budget_usd r,
               UpstreamBaseURL = r_upstream_base_url r, RPSLimit = r_rps_limit r, RPMLimit = r_rpm_limit r,
               MaxConcurrent = r_max_concurrent r, UpstreamTimeoutSeconds = r_upstream_timeout_seconds r,
               CreatedAt = t, RevokedAt = rt, ExpiresAt = et\<rparr>)))))"

text \<open>The loop over a result set.\<close>

fun scan_rows :: "cipher \<Rightarrow> string \<Rightarrow> key_row scanned list \<Rightarrow> string option \<Rightarrow> keys_error + VirtualKey list" where
  "scan_rows C what [] rows_Err = (case rows_Err of None \<Rightarrow> Inr [] | Some e \<Rightarrow> Inl (StoreFailure (what @ e)))"
| "scan_rows C what (r # rows) rows_Err = (case scanKey C r of
     Inl err \<Rightarrow> Inl err | Inr k \<Rightarrow> map_sum id ((#) k) (scan_rows C what rows rows_Err))"

section \<open>The operations\<close>

definition sqlite_Create :: "'d sql_db \<Rightarrow> cipher \<Rightarrow> rand \<Rightarrow> 'd \<Rightarrow> VirtualKey option \<Rightarrow> 'd \<times> (keys_error + unit)" where
  "sqlite_Create E C rand_Read d k = (case k of None \<Rightarrow> (d, Inl NilKey) | Some k \<Rightarrow>
     if ID k = '''' \<or> Token k = '''' then (d, Inl MissingIDOrToken)
     else if Upstream k \<noteq> UpstreamOpenAI \<and> Upstream k \<noteq> UpstreamAnthropic then (d, Inl (UnsupportedUpstream (Upstream k)))
     else case Encrypt C rand_Read (UpstreamKey k) of
       Inl err \<Rightarrow> (d, Inl (StoreFailure ''encrypt upstream key''))
     | Inr encUpstream \<Rightarrow> (case db_insert E d (row_of k encUpstream) of
         (d, Some e) \<Rightarrow> (d, Inl (StoreFailure (''insert virtual key: '' @ e)))
       | (d, None) \<Rightarrow> (d, Inr ())))"

datatype lookup_column = IdColumn | TokenColumn

definition queryOne :: "'d sql_db \<Rightarrow> cipher \<Rightarrow> 'd \<Rightarrow> lookup_column \<Rightarrow> string \<Rightarrow> keys_error + VirtualKey" where
  "queryOne E C d column v = scanKey C (case column of IdColumn \<Rightarrow> db_by_id E d v | TokenColumn \<Rightarrow> db_by_token E d v)"

definition sqlite_GetByToken :: "'d sql_db \<Rightarrow> cipher \<Rightarrow> 'd \<Rightarrow> string \<Rightarrow> keys_error + VirtualKey" where
  "sqlite_GetByToken E C d token = queryOne E C d TokenColumn token"

definition sqlite_GetByID :: "'d sql_db \<Rightarrow> cipher \<Rightarrow> 'd \<Rightarrow> string \<Rightarrow> keys_error + VirtualKey" where
  "sqlite_GetByID E C d kid = queryOne E C d IdColumn kid"

definition sqlite_List :: "'d sql_db \<Rightarrow> cipher \<Rightarrow> 'd \<Rightarrow> keys_error + VirtualKey list" where
  "sqlite_List E C d = (case db_list E d of Inl e \<Rightarrow> Inl (StoreFailure (''query keys: '' @ e))
     | Inr (rows, rows_Err) \<Rightarrow> scan_rows C ''iterate keys: '' rows rows_Err)"

text \<open>What \<open>Revoke\<close> and \<open>RevokeAt\<close> do alike, with their error prefixes.\<close>

definition stamp_revoked :: "'d sql_db \<Rightarrow> cipher \<Rightarrow> string \<Rightarrow> string \<Rightarrow> 'd \<Rightarrow> instant \<Rightarrow> string \<Rightarrow> 'd \<times> (keys_error + unit)" where
  "stamp_revoked E C what what' d stamp kid = (case db_revoke E d (format_RFC3339Nano stamp) kid of
     (d, Inl e) \<Rightarrow> (d, Inl (StoreFailure (what @ e)))
   | (d, Inr (Inl e)) \<Rightarrow> (d, Inl (StoreFailure (what' @ e)))
   | (d, Inr (Inr n)) \<Rightarrow>
       if n = 0 then (case sqlite_GetByID E C d kid of Inl err \<Rightarrow> (d, Inl err) | Inr _ \<Rightarrow> (d, Inr ()))
       else (d, Inr ()))"

definition sqlite_Revoke :: "'d sql_db \<Rightarrow> cipher \<Rightarrow> 'd \<Rightarrow> instant \<Rightarrow> string \<Rightarrow> 'd \<times> (keys_error + unit)" where
  "sqlite_Revoke E C d now kid = stamp_revoked E C ''revoke key: '' ''revoke rows affected: '' d now kid"

definition sqlite_RevokeAt :: "'d sql_db \<Rightarrow> cipher \<Rightarrow> 'd \<Rightarrow> string \<Rightarrow> instant \<Rightarrow> 'd \<times> (keys_error + unit)" where
  "sqlite_RevokeAt E C d kid stamp = stamp_revoked E C ''revoke_at key: '' ''revoke_at rows affected: '' d stamp kid"

definition update_of :: "VirtualKey \<Rightarrow> row_update" where
  "update_of k = \<lparr>u_name = Name k, u_daily_budget_usd = DailyBudgetUSD k, u_month_budget_usd = MonthBudgetUSD k,
     u_upstream_base_url = UpstreamBaseURL k, u_rps_limit = RPSLimit k, u_rpm_limit = RPMLimit k,
     u_max_concurrent = MaxConcurrent k, u_upstream_timeout_seconds = UpstreamTimeoutSeconds k,
     u_expires_at = format_opt (ExpiresAt k)\<rparr>"

text \<open>\<open>Update\<close> in its two halves, the read with the patch applied in memory and the statement that writes every column back. No transaction
  holds them together, so other operations may run in between.\<close>

definition update_read :: "'d sql_db \<Rightarrow> cipher \<Rightarrow> 'd \<Rightarrow> string \<Rightarrow> KeyPatch \<Rightarrow> keys_error + VirtualKey" where
  "update_read E C d kid patch = (case sqlite_GetByID E C d kid of
     Inl err \<Rightarrow> Inl err
   | Inr current \<Rightarrow> if IsRevoked (Some current) then Inl ErrRevoked else Inr (ApplyTo patch current))"

definition update_write :: "'d sql_db \<Rightarrow> 'd \<Rightarrow> string \<Rightarrow> VirtualKey \<Rightarrow> 'd \<times> (keys_error + VirtualKey)" where
  "update_write E d kid current = (case db_update E d (update_of current) kid of
     (d, Inl e) \<Rightarrow> (d, Inl (StoreFailure (''update virtual key: '' @ e)))
   | (d, Inr (Inl e)) \<Rightarrow> (d, Inl (StoreFailure (''update rows affected: '' @ e)))
   | (d, Inr (Inr n)) \<Rightarrow> if n = 0 then (d, Inl ErrRevoked) else (d, Inr current))"

definition sqlite_Update :: "'d sql_db \<Rightarrow> cipher \<Rightarrow> 'd \<Rightarrow> string \<Rightarrow> KeyPatch \<Rightarrow> 'd \<times> (keys_error + VirtualKey)" where
  "sqlite_Update E C d kid patch = (case update_read E C d kid patch of
     Inl err \<Rightarrow> (d, Inl err) | Inr current \<Rightarrow> update_write E d kid current)"

definition sqlite_ListExpiring :: "'d sql_db \<Rightarrow> cipher \<Rightarrow> 'd \<Rightarrow> instant \<Rightarrow> keys_error + VirtualKey list" where
  "sqlite_ListExpiring E C d asOf = (case db_expiring E d (format_RFC3339Nano asOf) of
     Inl e \<Rightarrow> Inl (StoreFailure (''query expiring keys: '' @ e))
   | Inr (rows, rows_Err) \<Rightarrow> scan_rows C ''iterate expiring keys: '' rows rows_Err)"

end
