(* ===== verification/Durable_Keys.thy ===== *)
theory Durable_Keys
  imports Sqlite_Keys
begin

text \<open>
  The durable key store meets the contract of the store in memory. The locale \<open>sql_keys\<close> is what SQL promises of
  the statements in \<open>Sqlite_Keys\<close>: a table with one row per identifier and one per token, each statement reading or
  changing the rows its \<open>WHERE\<close> clause selects, a failed one changing nothing. A key that was stored is the
  key a row stands for; reading it may fail, never give another key. \<open>list_db\<close> is an engine with these laws.
\<close>

section \<open>Times as text\<close>

text \<open>Every instant has its own text, and only those of four-digit years can be read back.\<close>

lemma frac_text_inj: "m < 10 ^ 9 \<Longrightarrow> n < 10 ^ 9 \<Longrightarrow> frac_text m = frac_text n \<Longrightarrow> m = n"
proof -
  assume m: "m < 10 ^ 9" and n: "n < 10 ^ 9" and e: "frac_text m = frac_text n"
  show "m = n" using get_frac_text [OF m] unfolding e get_frac_text [OF n] by (simp only: prod.inject)
qed

lemma T_not_in_day: "CHR ''T'' \<notin> set (format_day t)"
proof -
  have ne: "digit k \<noteq> CHR ''T''" if "k < 10" for k
  proof
    assume "digit k = CHR ''T''"
    then have "(of_char (CHR ''T'') :: nat) = 48 + k" using of_char_digit [OF that] by simp
    then show False using that by simp
  qed
  have z: "CHR ''T'' \<notin> set (zpad w n)" for w n
  proof
    assume "CHR ''T'' \<in> set (zpad w n)"
    then have "CHR ''T'' \<in> digit ` {..<10}" using set_zpad by blast
    then obtain k where "CHR ''T'' = digit k" "k < 10" by (rule imageE) (simp only: lessThan_iff)
    with ne [of k] show False by metis
  qed
  then have "CHR ''T'' \<notin> set (append_int w k)" for w k by (simp add: append_int_def)
  with z show ?thesis by (auto simp: format_day_def split: prod.splits)
qed

lemma split_at_T:
  assumes "a @ CHR ''T'' # b = c @ CHR ''T'' # d" "CHR ''T'' \<notin> set a" "CHR ''T'' \<notin> set c"
  shows "a = c" "b = d"
proof -
  have t: "takeWhile (\<lambda>x. x \<noteq> CHR ''T'') (a @ CHR ''T'' # b) = a" if "CHR ''T'' \<notin> set a" for a b :: string
    using that by (subst takeWhile_append2) auto
  show "a = c" using t [OF assms(2), of b] t [OF assms(3), of d] assms(1) by simp
  then show "b = d" using assms(1) by simp
qed

lemma seconds_of_day_bound: "seconds_of_day t < 86400"
proof -
  have "0 \<le> t mod ns_per_day" "t mod ns_per_day < ns_per_day" by (simp_all add: ns_per_day_def)
  then have "t mod ns_per_day div ns_per_s < 86400" by (simp add: ns_per_day_def ns_per_s_def)
  then show ?thesis by (simp add: seconds_of_day_def)
qed

lemma instant_parts: "t = utc_day t * ns_per_day + int (seconds_of_day t) * ns_per_s + int (nanos_of t)"
proof -
  have m: "0 \<le> t mod ns_per_day" by (simp add: ns_per_day_def)
  have "t mod ns_per_day mod ns_per_s = t mod ns_per_s" by (rule mod_mod_cancel) (simp add: ns_per_day_def ns_per_s_def)
  then have "t mod ns_per_day = int (seconds_of_day t) * ns_per_s + int (nanos_of t)"
    using m div_mult_mod_eq [of "t mod ns_per_day" ns_per_s] by (simp add: seconds_of_day_def nanos_of_def ns_per_s_def)
  then show ?thesis using div_mult_mod_eq [of t ns_per_day] by (simp add: utc_day_def)
qed

lemma nanos_bound: "nanos_of t < 10 ^ 9"
  by (simp add: nanos_of_def ns_per_s_def)

lemma fields_eq:
  assumes "a @ c # a' @ c # a'' @ r = b @ c # b' @ c # b'' @ q" "length a = length b" "length a' = length b'" "length a'' = length b''"
  shows "a = b" "a' = b'" "a'' = b''" "r = q"
  using assms by auto

lemma hms: "x = x div 3600 * 3600 + x div 60 mod 60 * 60 + x mod 60" for x :: nat
proof -
  have "x div 3600 = x div 60 div 60" using div_mult2_eq [of x 60 60] by simp
  moreover have "q = q div 60 * 60 + q mod 60" for q :: nat by simp
  note this [of "x div 60"] this [of x]
  ultimately show ?thesis by linarith
qed

lemma format_inj:
  assumes "format_RFC3339Nano s = format_RFC3339Nano t"
  shows "s = t"
proof -
  let ?m = "seconds_of_day s" and ?n = "seconds_of_day t"
  have "format_day s @ CHR ''T'' # (zpad 2 (?m div 3600) @ CHR '':'' # zpad 2 (?m div 60 mod 60) @ CHR '':'' # zpad 2 (?m mod 60) @ frac_text (nanos_of s) @ ''Z'') =
     format_day t @ CHR ''T'' # (zpad 2 (?n div 3600) @ CHR '':'' # zpad 2 (?n div 60 mod 60) @ CHR '':'' # zpad 2 (?n mod 60) @ frac_text (nanos_of t) @ ''Z'')"
    using assms by (simp add: format_RFC3339Nano_def Let_def)
  note split = split_at_T [OF this T_not_in_day T_not_in_day]
  have day: "format_day s = format_day t"
    and rest: "zpad 2 (?m div 3600) @ CHR '':'' # zpad 2 (?m div 60 mod 60) @ CHR '':'' # zpad 2 (?m mod 60) @ frac_text (nanos_of s) @ ''Z'' =
      zpad 2 (?n div 3600) @ CHR '':'' # zpad 2 (?n div 60 mod 60) @ CHR '':'' # zpad 2 (?n mod 60) @ frac_text (nanos_of t) @ ''Z''"
    by (rule split)+
  have l: "length (zpad 2 (seconds_of_day x div 3600)) = 2" "length (zpad 2 (seconds_of_day x div 60 mod 60)) = 2"
    "length (zpad 2 (seconds_of_day x mod 60)) = 2" for x
  proof -
    have "seconds_of_day x div 3600 < 100" using seconds_of_day_bound [of x] by (simp add: less_mult_imp_div_less)
    moreover have "k mod 60 < 100" for k :: nat using mod_less_divisor [of 60 k] by linarith
    ultimately show "length (zpad 2 (seconds_of_day x div 3600)) = 2" "length (zpad 2 (seconds_of_day x div 60 mod 60)) = 2"
      "length (zpad 2 (seconds_of_day x mod 60)) = 2" by (simp_all add: length_zpad_2)
  qed
  have "zpad 2 (?m div 3600) = zpad 2 (?n div 3600)" "zpad 2 (?m div 60 mod 60) = zpad 2 (?n div 60 mod 60)"
    "zpad 2 (?m mod 60) = zpad 2 (?n mod 60)" "frac_text (nanos_of s) @ ''Z'' = frac_text (nanos_of t) @ ''Z''"
    by (rule fields_eq [OF rest]; simp only: l)+
  moreover from this(4) have "frac_text (nanos_of s) = frac_text (nanos_of t)" by simp
  ultimately have e: "?m div 3600 = ?n div 3600" "?m div 60 mod 60 = ?n div 60 mod 60" "?m mod 60 = ?n mod 60"
    and ns: "nanos_of s = nanos_of t"
    using zpad_inj frac_text_inj nanos_bound by blast+
  have "?m = ?n" using hms [of ?m] hms [of ?n] unfolding e by (rule trans [OF _ sym])
  moreover have "utc_day s = utc_day t" using day by (simp add: format_day_eq)
  ultimately show "s = t" using ns instant_parts [of s] instant_parts [of t] by simp
qed

lemma zpad_large:
  assumes "10 ^ w \<le> n" "0 < w"
  shows "w < length (zpad w n) \<and> list_all is_dig (zpad w n)"
proof -
  have d: "list_all is_dig (zpad w n)"
    using set_zpad [of w n] by (auto simp: list_all_iff)
  have "10 ^ k \<le> n \<Longrightarrow> k < length (dec n)" for k n
  proof (induction k arbitrary: n)
    case (Suc k)
    then have "10 \<le> n" "10 ^ k \<le> n div 10" by (auto simp: less_eq_div_iff_mult_less_eq mult.commute intro: order_trans [of 10 "10 * 10 ^ k"])
    then show ?case using Suc.IH [of "n div 10"] by (simp add: dec_step)
  qed (simp add: dec.simps)
  from this [OF assms(1)] show ?thesis using d by (simp add: zpad_def)
qed

lemma list_cases5:
  assumes "length xs \<le> 4 \<Longrightarrow> P" "\<And>a b c d e r. xs = a # b # c # d # e # r \<Longrightarrow> P"
  shows P
proof (cases "length xs \<le> 4")
  case False
  then have "xs = xs ! 0 # xs ! 1 # xs ! 2 # xs ! 3 # xs ! 4 # drop 5 xs"
    by (intro nth_equalityI) (auto simp: nth_Cons less_Suc_eq_le split: nat.split intro: arg_cong [where f = "(!) xs"])
  then show ?thesis by (rule assms(2))
qed (rule assms(1))

lemma format_out_of_range:
  assumes "\<not> (0 \<le> year_of t \<and> year_of t \<le> 9999)"
  shows "time_Parse (format_RFC3339Nano t) = None"
proof -
  obtain y m d where dt: "date_of_day (utc_day t) = (y, m, d)" by (metis prod_cases3)
  have y: "y < 0 \<or> 9999 < y" using assms date_of_dayE(1) [OF dt] by (auto simp: year_of_def)
  obtain r where f: "format_RFC3339Nano t = append_int 4 y @ r"
    by (auto simp: format_RFC3339Nano_def format_day_def dt Let_def)
  show ?thesis
  proof (cases "y < 0")
    case True
    then have "append_int 4 y @ r = CHR ''-'' # zpad 4 (nat (- y)) @ r" by (simp add: append_int_def)
    then have "get_year (append_int 4 y @ r) = None" by (simp add: get_year_def is_dig_def numeral_eq_Suc)
    then show ?thesis by (simp add: f time_Parse_def)
  next
    case False
    then have l: "4 < length (zpad 4 (nat y))" "list_all is_dig (zpad 4 (nat y))"
      using y zpad_large [of 4 "nat y"] by simp_all
    then obtain a b c e g h where z: "zpad 4 (nat y) = a # b # c # e # g # h" by (cases "zpad 4 (nat y)" rule: list_cases5) auto
    have "get_year (append_int 4 y @ r) = Some (dec_value [a, b, c, e], g # h @ r)" "is_dig g"
      using False l by (simp_all add: append_int_def z get_year_def)
    moreover from this(2) have "get_field (CHR ''-'') True 13 (g # h @ r) = None"
      by (auto simp: get_field_def skip_def is_dig_def)
    ultimately show ?thesis by (simp add: f time_Parse_def)
  qed
qed

section \<open>The key a row stands for\<close>

definition time_of :: "string \<Rightarrow> instant" where
  "time_of s = (case time_Parse s of Some t \<Rightarrow> t | None \<Rightarrow> (THE t. format_RFC3339Nano t = s))"

lemma time_of_format [simp]: "time_of (format_RFC3339Nano t) = t"
proof (cases "0 \<le> year_of t \<and> year_of t \<le> 9999")
  case True
  then show ?thesis by (simp add: time_of_def time_Parse_format)
next
  case False
  have "(THE u. format_RFC3339Nano u = format_RFC3339Nano t) = t" by (rule the_equality) (auto dest: format_inj)
  then show ?thesis by (simp add: time_of_def format_out_of_range [OF False])
qed

lemma time_of_Parse: "time_Parse s = Some t \<Longrightarrow> time_of s = t"
  by (simp add: time_of_def)

definition key_of :: "cipher \<Rightarrow> key_row \<Rightarrow> VirtualKey" where
  "key_of C r = \<lparr>ID = r_id r, Token = r_token r, Name = r_name r, Upstream = r_upstream r,
     UpstreamKey = (case Decrypt C (r_upstream_key r) of Inl _ \<Rightarrow> [] | Inr s \<Rightarrow> s),
     DailyBudgetUSD = r_daily_budget_usd r, MonthBudgetUSD = r_month_budget_usd r,
     UpstreamBaseURL = r_upstream_base_url r, RPSLimit = r_rps_limit r, RPMLimit = r_rpm_limit r,
     MaxConcurrent = r_max_concurrent r, UpstreamTimeoutSeconds = r_upstream_timeout_seconds r,
     CreatedAt = time_of (r_created_at r), RevokedAt = map_option time_of (r_revoked_at r),
     ExpiresAt = map_option time_of (r_expires_at r)\<rparr>"

lemma parse_opt_Inr: "parse_opt what s = Inr t \<Longrightarrow> t = map_option time_of s"
proof (cases s)
  case (Some a)
  then show "parse_opt what s = Inr t \<Longrightarrow> t = map_option time_of s"
    by (cases "time_Parse a") (auto simp: parse_opt_def time_of_def)
qed (simp add: parse_opt_def)

lemma scanKey_Inr: "scanKey C x = Inr k \<Longrightarrow> \<exists>r. x = Row r \<and> k = key_of C r"
  by (cases x) (auto simp: scanKey_def key_of_def time_of_Parse dest!: parse_opt_Inr split: sum.splits option.splits)

lemma format_opt_inverse [simp]: "map_option time_of (format_opt t) = t"
  by (cases t) (simp_all add: format_opt_def)

lemma key_of_row: "Decrypt C enc = Inr (UpstreamKey k) \<Longrightarrow> key_of C (row_of k enc) = k\<lparr>RevokedAt := None\<rparr>"
  by (cases k) (simp add: key_of_def row_of_def)

lemma key_of_simps [simp]: "ID (key_of C r) = r_id r" "Token (key_of C r) = r_token r"
  "RevokedAt (key_of C r) = map_option time_of (r_revoked_at r)" "Upstream (key_of C r) = r_upstream r"
  by (simp_all add: key_of_def)

lemma key_of_revoked: "key_of C (r\<lparr>r_revoked_at := Some (format_RFC3339Nano t)\<rparr>) = (key_of C r)\<lparr>RevokedAt := Some t\<rparr>"
  by (simp add: key_of_def)

text \<open>The columns of an \<open>UPDATE\<close>.\<close>

definition set_columns :: "row_update \<Rightarrow> key_row \<Rightarrow> key_row" where
  "set_columns u r = r\<lparr>r_name := u_name u, r_daily_budget_usd := u_daily_budget_usd u,
     r_month_budget_usd := u_month_budget_usd u, r_upstream_base_url := u_upstream_base_url u,
     r_rps_limit := u_rps_limit u, r_rpm_limit := u_rpm_limit u, r_max_concurrent := u_max_concurrent u,
     r_upstream_timeout_seconds := u_upstream_timeout_seconds u, r_expires_at := u_expires_at u\<rparr>"

lemma key_of_updated: "key_of C (set_columns (update_of (ApplyTo p (key_of C r))) r) = ApplyTo p (key_of C r)"
  by (rule VirtualKey.equality) (simp_all add: key_of_def set_columns_def update_of_def)

lemma exec_cases:
  fixes x :: exec_result
  obtains e where "x = Inl e" | e where "x = Inr (Inl e)" | "x = Inr (Inr 0)" | n where "x = Inr (Inr (Suc n))"
proof (cases x)
  case (Inr y)
  then show ?thesis using that by (cases y; cases "projr y") simp_all
qed (rule that(1))

lemma set_columns_keeps [simp]: "r_id (set_columns u r) = r_id r" "r_token (set_columns u r) = r_token r"
  by (simp_all add: set_columns_def)

section \<open>What SQL promises\<close>

text \<open>The order of SQLite's default collation, byte by byte.\<close>

fun text_le :: "string \<Rightarrow> string \<Rightarrow> bool" where
  "text_le [] t = True"
| "text_le (c # s) [] = False"
| "text_le (c # s) (d # t) = ((of_char c :: nat) < of_char d \<or> c = d \<and> text_le s t)"

locale sql_keys = cipher_laws C "\<lambda>_. True" for C +
  fixes E :: "'d sql_db" and ok :: "'d \<Rightarrow> bool" and tab :: "'d \<Rightarrow> string \<Rightarrow> key_row option" and rnd :: rand
  assumes random: "rand_fills rnd"
    and primary_key: "ok d \<Longrightarrow> tab d i = Some r \<Longrightarrow> r_id r = i"
    and unique_token: "ok d \<Longrightarrow> tab d i = Some r \<Longrightarrow> tab d j = Some r' \<Longrightarrow> r_token r = r_token r' \<Longrightarrow> i = j"
    and select_id: "ok d \<Longrightarrow> db_by_id E d i = Row r \<Longrightarrow> tab d i = Some r"
    and select_token: "ok d \<Longrightarrow> db_by_token E d t = Row r \<Longrightarrow> tab d (r_id r) = Some r \<and> r_token r = t"
    and select_none: "ok d \<Longrightarrow> db_by_id E d i = NoRows \<Longrightarrow> tab d i = None"
      "ok d \<Longrightarrow> db_by_token E d t = NoRows \<Longrightarrow> tab d i = Some r \<Longrightarrow> r_token r \<noteq> t"
    and insert_ok: "ok d \<Longrightarrow> db_insert E d r = (d', None) \<Longrightarrow> ok d' \<and> tab d (r_id r) = None \<and> tab d' = (tab d)(r_id r \<mapsto> r)"
    and insert_fails: "ok d \<Longrightarrow> db_insert E d r = (d', Some e) \<Longrightarrow> ok d' \<and> tab d' = tab d"
    and revoke_rows: "ok d \<Longrightarrow> db_revoke E d ts i = (d', Inr (Inr n)) \<Longrightarrow> ok d' \<and>
      (case tab d i of Some r \<Rightarrow> (if r_revoked_at r = None then n = 1 \<and> tab d' = (tab d)(i \<mapsto> r\<lparr>r_revoked_at := Some ts\<rparr>)
         else n = 0 \<and> tab d' = tab d) | None \<Rightarrow> n = 0 \<and> tab d' = tab d)"
    and revoke_fails: "ok d \<Longrightarrow> db_revoke E d ts i = (d', Inl e) \<Longrightarrow> ok d' \<and> tab d' = tab d"
    and update_rows: "ok d \<Longrightarrow> db_update E d u i = (d', Inr (Inr n)) \<Longrightarrow> ok d' \<and>
      (case tab d i of Some r \<Rightarrow> (if r_revoked_at r = None then n = 1 \<and> tab d' = (tab d)(i \<mapsto> set_columns u r)
         else n = 0 \<and> tab d' = tab d) | None \<Rightarrow> n = 0 \<and> tab d' = tab d)"
    and update_fails: "ok d \<Longrightarrow> db_update E d u i = (d', Inl e) \<Longrightarrow> ok d' \<and> tab d' = tab d"
    and counts: "db_revoke E d ts i \<noteq> (d', Inr (Inl e))" "db_update E d u i \<noteq> (d', Inr (Inl e))"
    and select_expiring: "ok d \<Longrightarrow> db_expiring E d ts = Inr (rows, None) \<Longrightarrow> \<forall>e. ScanError e \<notin> set rows \<Longrightarrow> distinct rows \<and> set rows =
      Row ` {r. tab d (r_id r) = Some r \<and> r_revoked_at r = None \<and> (\<exists>e. r_expires_at r = Some e \<and> text_le e ts)}"
begin

abbreviation "stored d i \<equiv> map_option (key_of C) (tab d i)"

lemma GetByID_stored: "ok d \<Longrightarrow> sqlite_GetByID E C d i = Inr k \<Longrightarrow> \<exists>r. tab d i = Some r \<and> k = key_of C r"
  by (auto simp: sqlite_GetByID_def queryOne_def dest!: scanKey_Inr select_id)

lemma GetByToken_stored:
  "ok d \<Longrightarrow> sqlite_GetByToken E C d t = Inr k \<Longrightarrow> \<exists>r. tab d (r_id r) = Some r \<and> r_token r = t \<and> k = key_of C r"
  by (auto simp: sqlite_GetByToken_def queryOne_def dest!: scanKey_Inr select_token)

lemma Create_stored:
  assumes "ok d" "sqlite_Create E C rnd d (Some k) = (d', Inr ())"
  shows "ok d' \<and> stored d (ID k) = None \<and> stored d' = (stored d)(ID k \<mapsto> k\<lparr>RevokedAt := None\<rparr>)"
proof -
  obtain enc where e: "Encrypt C rnd (UpstreamKey k) = Inr enc" "db_insert E d (row_of k enc) = (d', None)"
    using assms(2) by (auto simp: sqlite_Create_def split: if_splits sum.splits prod.splits option.splits)
  have "key_of C (row_of k enc) = k\<lparr>RevokedAt := None\<rparr>"
    by (rule key_of_row) (rule decrypt_encrypt [OF random TrueI e(1)])
  then show ?thesis using insert_ok [OF assms(1) e(2)] by (simp add: row_of_def fun_eq_iff)
qed

lemma Create_fails:
  assumes "ok d" and s: "sqlite_Create E C rnd d (Some k) = (d', Inl e)"
  shows "ok d' \<and> stored d' = stored d"
proof (cases "Encrypt C rnd (UpstreamKey k)")
  case (Inl e)
  then have "d' = d" using s by (simp add: sqlite_Create_def split: if_splits)
  then show ?thesis using assms(1) by simp
next
  case (Inr enc)
  obtain d1 x where x: "db_insert E d (row_of k enc) = (d1, x)" by (cases "db_insert E d (row_of k enc)")
  show ?thesis
  proof (cases x)
    case None
    then have "d' = d" using s x Inr by (simp add: sqlite_Create_def split: if_splits)
    then show ?thesis using assms(1) by simp
  next
    case (Some e')
    then have "d' = d \<or> d' = d1" using s x Inr by (simp add: sqlite_Create_def split: if_splits)
    moreover have "ok d1 \<and> tab d1 = tab d" by (rule insert_fails [OF assms(1)]) (use x Some in simp)
    ultimately show ?thesis using assms(1) by auto
  qed
qed

lemma stamp_ok:
  assumes "ok d" "stamp_revoked E C a b d t i = (d', Inr ())"
  shows "ok d' \<and> (\<exists>k. stored d i = Some k \<and>
    stored d' = (stored d)(i \<mapsto> (if RevokedAt k = None then k\<lparr>RevokedAt := Some t\<rparr> else k)))"
proof -
  obtain n where n: "db_revoke E d (format_RFC3339Nano t) i = (d', Inr (Inr n))" "n = 0 \<Longrightarrow> \<exists>k. sqlite_GetByID E C d' i = Inr k"
    using assms(2) by (auto simp: stamp_revoked_def split: prod.splits sum.splits if_splits)
  note rows = revoke_rows [OF assms(1) n(1)]
  show ?thesis
  proof (cases "tab d i")
    case None
    then have "n = 0" "tab d' = tab d" using rows by simp_all
    then show ?thesis using n(2) GetByID_stored rows None by fastforce
  next
    case (Some r)
    then show ?thesis using rows by (auto simp: fun_eq_iff key_of_revoked split: if_splits)
  qed
qed

lemma stamp_fails:
  assumes "ok d" and s: "stamp_revoked E C a b d t i = (d', Inl e)"
  shows "ok d' \<and> stored d' = stored d"
proof -
  obtain d1 x where x: "db_revoke E d (format_RFC3339Nano t) i = (d1, x)" by (cases "db_revoke E d (format_RFC3339Nano t) i")
  show ?thesis
  proof (cases x rule: exec_cases)
    case (1 e')
    then have "d' = d1" using s x by (simp add: stamp_revoked_def)
    moreover have "ok d1 \<and> tab d1 = tab d" by (rule revoke_fails [OF assms(1)]) (use x 1 in simp)
    ultimately show ?thesis by simp
  next
    case (2 e')
    then show ?thesis using x counts(1) by blast
  next
    case 3
    with x have "db_revoke E d (format_RFC3339Nano t) i = (d1, Inr (Inr 0))" by simp
    from revoke_rows [OF assms(1) this] have "ok d1 \<and> tab d1 = tab d" by (simp split: option.splits if_splits)
    moreover have "d' = d1" using s x 3 by (cases "sqlite_GetByID E C d1 i") (simp_all add: stamp_revoked_def)
    ultimately show ?thesis by simp
  next
    case (4 n)
    then show ?thesis using s x by (simp add: stamp_revoked_def)
  qed
qed

lemma Update_ok:
  assumes "ok d" "sqlite_Update E C d i p = (d', Inr k')"
  shows "ok d' \<and> (\<exists>k. stored d i = Some k \<and> RevokedAt k = None \<and> k' = ApplyTo p k \<and> stored d' = (stored d)(i \<mapsto> k'))"
proof -
  obtain k where k: "sqlite_GetByID E C d i = Inr k" "RevokedAt k = None"
    using assms(2) by (auto simp: sqlite_Update_def update_read_def update_write_def IsRevoked_def split: sum.splits if_splits)
  then obtain n where n: "db_update E d (update_of (ApplyTo p k)) i = (d', Inr (Inr n))" "n \<noteq> 0" "k' = ApplyTo p k"
    using assms(2) by (auto simp: sqlite_Update_def update_read_def update_write_def IsRevoked_def Let_def split: sum.splits if_splits prod.splits)
  obtain r where r: "tab d i = Some r" "k = key_of C r" using GetByID_stored [OF assms(1) k(1)] by blast
  then have "ok d' \<and> tab d' = (tab d)(i \<mapsto> set_columns (update_of (ApplyTo p k)) r)"
    using update_rows [OF assms(1) n(1)] n(2) by (auto split: if_splits)
  then show ?thesis using r k(2) n(3) by (simp add: fun_eq_iff key_of_updated)
qed

lemma Update_fails:
  assumes "ok d" and s: "sqlite_Update E C d i p = (d', Inl e)"
  shows "ok d' \<and> stored d' = stored d"
proof (cases "sqlite_GetByID E C d i")
  case (Inr k)
  obtain d1 x where x: "db_update E d (update_of (ApplyTo p k)) i = (d1, x)"
    by (cases "db_update E d (update_of (ApplyTo p k)) i")
  show ?thesis
  proof (cases x rule: exec_cases)
    case (1 e')
    then have "d' = d \<or> d' = d1" using s x Inr by (simp add: sqlite_Update_def update_read_def update_write_def Let_def split: if_splits)
    moreover have "ok d1 \<and> tab d1 = tab d" by (rule update_fails [OF assms(1)]) (use x 1 in simp)
    ultimately show ?thesis using assms(1) by auto
  next
    case (2 e')
    then show ?thesis using x counts(2) by blast
  next
    case 3
    with x have "db_update E d (update_of (ApplyTo p k)) i = (d1, Inr (Inr 0))" by simp
    from update_rows [OF assms(1) this] have "ok d1 \<and> tab d1 = tab d" by (simp split: option.splits if_splits)
    with 3 show ?thesis using assms(1) s x Inr by (auto simp: sqlite_Update_def update_read_def update_write_def Let_def split: if_splits)
  next
    case (4 n)
    then show ?thesis using assms(1) s x Inr by (simp add: sqlite_Update_def update_read_def update_write_def Let_def split: if_splits)
  qed
qed (use assms in \<open>simp add: sqlite_Update_def update_read_def update_write_def\<close>)

end

sublocale sql_keys \<subseteq> store: key_store ok stored "sqlite_Create E C rnd" "sqlite_GetByToken E C"
  "sqlite_GetByID E C" "sqlite_Revoke E C" "sqlite_RevokeAt E C" "sqlite_Update E C"
proof (unfold_locales, goal_cases)
  case (1 s i k)
  then show ?case using primary_key by fastforce
next
  case (2 s i k j k')
  then show ?case using unique_token [OF 2(1)] by fastforce
next
  case (3 s i k)
  then show ?case using GetByID_stored by fastforce
next
  case (4 s t k)
  then show ?case using GetByToken_stored by fastforce
next
  case (5 s k s')
  from Create_stored [OF this] show ?case by (intro conjI exI [of _ "k\<lparr>RevokedAt := None\<rparr>"]) auto
next
  case (7 s k s' e)
  then show ?case by (rule Create_fails)
next
  case (8 s now i s')
  from stamp_ok [OF this(1) this(2) [unfolded sqlite_Revoke_def]] obtain k where k: "ok s'" "stored s i = Some k"
    "stored s' = (stored s)(i \<mapsto> (if RevokedAt k = None then k\<lparr>RevokedAt := Some now\<rparr> else k))" by blast
  show ?case
  proof (cases "RevokedAt k")
    case None
    with k show ?thesis by auto
  next
    case (Some t)
    with k show ?thesis by (intro conjI exI [of _ k] exI [of _ t]) (simp_all add: RevokedAt_idem)
  qed
next
  case (9 s now i s' e)
  then show ?case using stamp_fails by (simp add: sqlite_Revoke_def)
next
  case (10 s i ts s')
  then show ?case using stamp_ok by (simp add: sqlite_RevokeAt_def)
next
  case (11 s i ts s' e)
  then show ?case using stamp_fails by (simp add: sqlite_RevokeAt_def)
next
  case (12 s i p s' k')
  then show ?case by (rule Update_ok)
next
  case (13 s i p s' e)
  then show ?case by (rule Update_fails)
qed (simp add: sqlite_Create_def)

end
