(* ===== verification/Time_Order.thy ===== *)
theory Time_Order
  imports Durable_Keys
begin

text \<open>
  The order of RFC 3339 texts, which the durable store compares instead of instants: it agrees with time as far as the second,
  and not within a second, where the fraction has no fixed width and \<open>.\<close> sorts before \<open>Z\<close>.
\<close>

fun text_lt :: "string \<Rightarrow> string \<Rightarrow> bool" where
  "text_lt [] t = (t \<noteq> [])"
| "text_lt (c # s) [] = False"
| "text_lt (c # s) (d # t) = ((of_char c :: nat) < of_char d \<or> c = d \<and> text_lt s t)"

lemma text_le_append:
  "length a = length b \<Longrightarrow> text_le (a @ x) (b @ y) \<longleftrightarrow> text_lt a b \<or> a = b \<and> text_le x y"
  by (induction a b rule: list_induct2) auto

lemma text_lt_snoc:
  "length a = length b \<Longrightarrow> text_lt (a @ [c]) (b @ [d]) \<longleftrightarrow> text_lt a b \<or> a = b \<and> (of_char c :: nat) < of_char d"
  by (induction a b rule: list_induct2) auto

lemma divmod_mono: "(m :: nat) < n \<Longrightarrow> m div k < n div k \<or> m div k = n div k \<and> m mod k < n mod k"
  using div_le_mono [of m n k] div_mult_mod_eq [of m k] div_mult_mod_eq [of n k] by (metis less_imp_le nat_add_left_cancel_less order_le_less)

lemma divmod_lex: "m div k < n div k \<or> m div k = n div k \<and> m mod k < n mod k \<longleftrightarrow> (m :: nat) < n"
  using divmod_mono [of m n k] divmod_mono [of n m k] by (cases m n rule: linorder_cases) auto

lemma zpad_lt:
  "0 < w \<Longrightarrow> m < 10 ^ w \<Longrightarrow> n < 10 ^ w \<Longrightarrow> text_lt (zpad w m) (zpad w n) \<longleftrightarrow> m < n"
proof (induction w arbitrary: m n)
  case (Suc w)
  show ?case
  proof (cases "w = 0")
    case True
    then show ?thesis using Suc.prems zpad_1 [of m] zpad_1 [of n] by (simp add: of_char_digit)
  next
    case False
    have d: "m div 10 < 10 ^ w" "n div 10 < 10 ^ w" using Suc.prems by (simp_all add: less_mult_imp_div_less mult.commute)
    have l: "length (zpad w (m div 10)) = length (zpad w (n div 10))"
      using zpad_length [of w "m div 10"] zpad_length [of w "n div 10"] d False by simp
    have e: "zpad w (m div 10) = zpad w (n div 10) \<longleftrightarrow> m div 10 = n div 10" by (auto dest: zpad_inj)
    have "text_lt (zpad (Suc w) m) (zpad (Suc w) n) \<longleftrightarrow> m div 10 < n div 10 \<or> m div 10 = n div 10 \<and> m mod 10 < n mod 10"
      using False Suc.prems(2,3) Suc.IH [OF _ d] by (simp add: zpad_snoc text_lt_snoc [OF l] e of_char_digit)
    also have "\<dots> \<longleftrightarrow> m < n" by (rule divmod_lex)
    finally show ?thesis .
  qed
qed simp

lemma text_le_zpad:
  assumes "0 < w" "m < 10 ^ w" "n < 10 ^ w"
  shows "text_le (zpad w m @ x) (zpad w n @ y) \<longleftrightarrow> m < n \<or> m = n \<and> text_le x y"
proof -
  have "length (zpad w m) = length (zpad w n)" using zpad_length assms by simp
  from text_le_append [OF this] show ?thesis using zpad_lt [OF assms] zpad_inj by blast
qed

section \<open>Dates and times of day, field by field\<close>

lemma month_scan_mono:
  assumes "month_scan k ls x = (m, d)" "month_scan k ls x' = (m', d')" "0 \<le> x" "x < x'" "x' < sum_list ls"
  shows "m < m' \<or> m = m' \<and> d < d'"
  using assms
proof (induction k ls x arbitrary: x' rule: month_scan.induct)
  case (2 k l ls x)
  show ?case
  proof (cases "x < l")
    case True
    then have x: "m = k" "d = nat (x + 1)" using 2 by auto
    show ?thesis
    proof (cases "x' < l")
      case False
      then have "month_scan (Suc k) ls (x' - l) = (m', d')" using 2 by simp
      then show ?thesis using month_scan_ge x by fastforce
    qed (use 2 x in auto)
  next
    case False
    then have "\<not> x' < l" using 2 by simp
    then show ?thesis using 2 False by simp
  qed
qed simp

lemma date_mono:
  assumes "date_of_day a = (y, m, d)" "date_of_day b = (y', m', d')" "a < b"
  shows "y < y' \<or> y = y' \<and> (m < m' \<or> m = m' \<and> d < d')"
proof -
  have y: "y = year_of_day a" "y' = year_of_day b" using date_of_dayE(1) assms(1,2) by blast+
  have "\<not> y' < y"
    using year_start_mono [of "y' + 1" y] year_of_day_bounds [of a] year_of_day_bounds [of b] assms(3) y by force
  moreover have "m < m' \<or> m = m' \<and> d < d'" if "y = y'"
  proof -
    have s: "month_scan 1 (month_lengths y) (a - year_start y) = (m, d)" "month_scan 1 (month_lengths y) (b - year_start y) = (m', d')"
      using assms(1,2) y that by (auto simp: date_of_day_def Let_def)
    have "0 \<le> a - year_start y" "b - year_start y < sum_list (month_lengths y)"
      using year_of_day_bounds [of a] year_of_day_bounds [of b] y that by (simp_all add: sum_month_lengths year_start_Suc)
    then show ?thesis using month_scan_mono [OF s] assms(3) by simp
  qed
  ultimately show ?thesis by auto
qed

lemma hms_mono:
  fixes m n :: nat
  assumes "m < n"
  shows "m div 3600 < n div 3600 \<or> m div 3600 = n div 3600 \<and>
    (m div 60 mod 60 < n div 60 mod 60 \<or> m div 60 mod 60 = n div 60 mod 60 \<and> m mod 60 < n mod 60)"
proof -
  have h: "x div 3600 = x div 60 div 60" for x :: nat using div_mult2_eq [of x 60 60] by simp
  show ?thesis using divmod_mono [OF assms, of 60] divmod_mono [of "m div 60" "n div 60" 60] unfolding h by auto
qed

lemma seconds_split: "t div ns_per_s = utc_day t * 86400 + int (seconds_of_day t)"
proof -
  have n: "(0 :: int) \<le> int (nanos_of t)" "int (nanos_of t) < ns_per_s" using nanos_bound [of t] by (simp_all add: ns_per_s_def)
  have "t = (utc_day t * 86400 + int (seconds_of_day t)) * ns_per_s + int (nanos_of t)"
    using instant_parts [of t] by (simp add: ns_per_day_def ns_per_s_def algebra_simps)
  then have "t div ns_per_s = ((utc_day t * 86400 + int (seconds_of_day t)) * ns_per_s + int (nanos_of t)) div ns_per_s" by simp
  also have "\<dots> = utc_day t * 86400 + int (seconds_of_day t)" using n by (simp add: ns_per_s_def)
  finally show ?thesis .
qed

lemma text_fields:
  assumes "y < 10 ^ 4" "y' < 10 ^ 4" "list_all (\<lambda>n. n < 10 ^ 2) [m, m', d, d', h, h', i, i', n, n']"
    "y < y' \<or> y = y' \<and> (m < m' \<or> m = m' \<and> (d < d' \<or> d = d' \<and> (h < h' \<or> h = h' \<and> (i < i' \<or> i = i' \<and> n < n'))))"
  shows "text_le (zpad 4 y @ a # zpad 2 m @ a # zpad 2 d @ b # zpad 2 h @ c # zpad 2 i @ c # zpad 2 n @ r)
      (zpad 4 y' @ a # zpad 2 m' @ a # zpad 2 d' @ b # zpad 2 h' @ c # zpad 2 i' @ c # zpad 2 n' @ r') \<and>
    \<not> text_le (zpad 4 y' @ a # zpad 2 m' @ a # zpad 2 d' @ b # zpad 2 h' @ c # zpad 2 i' @ c # zpad 2 n' @ r')
      (zpad 4 y @ a # zpad 2 m @ a # zpad 2 d @ b # zpad 2 h @ c # zpad 2 i @ c # zpad 2 n @ r)"
  using assms by (simp add: text_le_zpad) linarith

text \<open>A time in an earlier second has the smaller text.\<close>

lemma text_order_seconds:
  assumes "0 \<le> year_of s" "year_of s \<le> 9999" "0 \<le> year_of t" "year_of t \<le> 9999" "s div ns_per_s < t div ns_per_s"
  shows "text_le (format_RFC3339Nano s) (format_RFC3339Nano t) \<and> \<not> text_le (format_RFC3339Nano t) (format_RFC3339Nano s)"
proof -
  obtain y m d where ds: "date_of_day (utc_day s) = (y, m, d)" by (metis prod_cases3)
  obtain y' m' d' where dt: "date_of_day (utc_day t) = (y', m', d')" by (metis prod_cases3)
  let ?a = "seconds_of_day s" and ?b = "seconds_of_day t"
  have y: "0 \<le> y" "y \<le> 9999" "0 \<le> y'" "y' \<le> 9999" using assms date_of_dayE(1) [OF ds] date_of_dayE(1) [OF dt] by (simp_all add: year_of_def)
  have bounds: "nat y < 10 ^ 4" "nat y' < 10 ^ 4" "m < 10 ^ 2" "m' < 10 ^ 2" "d < 10 ^ 2" "d' < 10 ^ 2"
    using y date_of_dayE [OF ds] date_of_dayE [OF dt] by simp_all
  have f: "k div 3600 < 10 ^ 2" "k div 60 mod 60 < 10 ^ 2" "k mod 60 < 10 ^ 2" if "k < 86400" for k :: nat
    using that mod_less_divisor [of 60 k] mod_less_divisor [of 60 "k div 60"] by (simp_all add: less_mult_imp_div_less)
  have time: "format_RFC3339Nano x = zpad 4 (nat yy) @ CHR ''-'' # zpad 2 mm @ CHR ''-'' # zpad 2 dd @ CHR ''T'' #
      zpad 2 (seconds_of_day x div 3600) @ CHR '':'' # zpad 2 (seconds_of_day x div 60 mod 60) @ CHR '':'' #
      zpad 2 (seconds_of_day x mod 60) @ frac_text (nanos_of x) @ ''Z''"
    if "date_of_day (utc_day x) = (yy, mm, dd)" "0 \<le> yy" for x yy mm dd
    using that by (simp add: format_RFC3339Nano_def format_day_def append_int_def Let_def)
  have le: "utc_day s < utc_day t \<or> utc_day s = utc_day t \<and> ?a < ?b"
  proof -
    have "utc_day s * 86400 + int ?a < utc_day t * 86400 + int ?b" using assms(5) by (simp only: seconds_split)
    then show ?thesis using seconds_of_day_bound [of s] seconds_of_day_bound [of t] by linarith
  qed
  have "nat y < nat y' \<or> nat y = nat y' \<and> (m < m' \<or> m = m' \<and> (d < d' \<or> d = d' \<and> ?a < ?b))"
    using le date_mono [OF ds dt] ds dt y by auto
  then have lex: "nat y < nat y' \<or> nat y = nat y' \<and> (m < m' \<or> m = m' \<and> (d < d' \<or> d = d' \<and>
      (?a div 3600 < ?b div 3600 \<or> ?a div 3600 = ?b div 3600 \<and> (?a div 60 mod 60 < ?b div 60 mod 60 \<or>
        ?a div 60 mod 60 = ?b div 60 mod 60 \<and> ?a mod 60 < ?b mod 60))))"
    using hms_mono [of ?a ?b] by blast
  show ?thesis
    unfolding time [OF ds y(1)] time [OF dt y(3)]
    by (rule text_fields [OF bounds(1,2) _ lex]) (use bounds f [OF seconds_of_day_bound] in simp)
qed

end
