(* ===== verification/List_Engine.thy ===== *)
theory List_Engine
  imports Time_Order
begin

text \<open>
  A database engine with the laws of \<open>sql_keys\<close>: the table is the list of its rows in the order of insertion, every statement a
  list function. It shows that the laws can be met and runs the examples; the properties hold for every engine with the laws.
\<close>

record list_db =
  ld_columns :: "string list"
  ld_rows :: "key_row list"

fun insert_by :: "('a \<Rightarrow> string) \<Rightarrow> 'a \<Rightarrow> 'a list \<Rightarrow> 'a list" where
  "insert_by f x [] = [x]"
| "insert_by f x (y # ys) = (if text_le (f x) (f y) then x # y # ys else y # insert_by f x ys)"

definition order_by :: "('a \<Rightarrow> string) \<Rightarrow> 'a list \<Rightarrow> 'a list" where
  "order_by f xs = foldr (insert_by f) xs []"

definition update_where :: "(key_row \<Rightarrow> key_row) \<Rightarrow> string \<Rightarrow> list_db \<Rightarrow> list_db \<times> exec_result" where
  "update_where f i d = (let live = (\<lambda>r. r_id r = i \<and> r_revoked_at r = None) in
     (d\<lparr>ld_rows := map (\<lambda>r. if live r then f r else r) (ld_rows d)\<rparr>, Inr (Inr (length (filter live (ld_rows d))))))"

definition scan_find :: "(key_row \<Rightarrow> bool) \<Rightarrow> list_db \<Rightarrow> key_row scanned" where
  "scan_find P d = (case find P (ld_rows d) of None \<Rightarrow> NoRows | Some r \<Rightarrow> Row r)"

definition schema_columns :: "string list" where
  "schema_columns = [''id'', ''token'', ''name'', ''upstream'', ''upstream_key'', ''daily_budget_usd'', ''month_budget_usd'',
     ''upstream_base_url'', ''rps_limit'', ''rpm_limit'', ''max_concurrent'', ''upstream_timeout_seconds'', ''created_at'',
     ''revoked_at'', ''expires_at'']"

text \<open>\<open>CREATE TABLE IF NOT EXISTS\<close> and \<open>ALTER TABLE ADD COLUMN\<close>; the row list has all columns throughout.\<close>

definition exec_ddl :: "list_db \<Rightarrow> string \<Rightarrow> list_db \<times> string option" where
  "exec_ddl d sql = (if sql = sqliteSchema then (if ld_columns d = [] then d\<lparr>ld_columns := schema_columns\<rparr> else d, None)
     else case map_of (map (\<lambda>(n, ddl). (ddl, n)) sqlite_migrations) sql of
       None \<Rightarrow> (d, Some ''syntax error'') | Some n \<Rightarrow> (d\<lparr>ld_columns := ld_columns d @ [n]\<rparr>, None))"

definition list_engine :: "list_db sql_db" where
  "list_engine = \<lparr>db_Ping = (\<lambda>_. None), db_Exec = exec_ddl,
     db_table_info = (\<lambda>d _. Inr (map Row (ld_columns d), None)),
     db_insert = (\<lambda>d r. if \<exists>r' \<in> set (ld_rows d). r_id r' = r_id r \<or> r_token r' = r_token r
       then (d, Some ''UNIQUE constraint failed'') else (d\<lparr>ld_rows := ld_rows d @ [r]\<rparr>, None)),
     db_by_id = (\<lambda>d i. scan_find (\<lambda>r. r_id r = i) d), db_by_token = (\<lambda>d t. scan_find (\<lambda>r. r_token r = t) d),
     db_list = (\<lambda>d. Inr (map Row (order_by r_created_at (ld_rows d)), None)),
     db_revoke = (\<lambda>d ts i. update_where (\<lambda>r. r\<lparr>r_revoked_at := Some ts\<rparr>) i d),
     db_update = (\<lambda>d u i. update_where (set_columns u) i d),
     db_expiring = (\<lambda>d ts. Inr (map Row (order_by (\<lambda>r. the (r_expires_at r)) (filter (\<lambda>r. r_revoked_at r = None \<and>
       (case r_expires_at r of None \<Rightarrow> False | Some e \<Rightarrow> text_le e ts)) (ld_rows d))), None))\<rparr>"

definition ld_ok :: "list_db \<Rightarrow> bool" where
  "ld_ok d \<longleftrightarrow> distinct (map r_id (ld_rows d)) \<and> distinct (map r_token (ld_rows d))"

definition ld_tab :: "list_db \<Rightarrow> string \<Rightarrow> key_row option" where
  "ld_tab d = map_of (map (\<lambda>r. (r_id r, r)) (ld_rows d))"

lemma ld_tab_Some: "ld_ok d \<Longrightarrow> ld_tab d i = Some r \<longleftrightarrow> r \<in> set (ld_rows d) \<and> r_id r = i"
  by (subst ld_tab_def, subst map_of_eq_Some_iff) (auto simp: ld_ok_def comp_def)

lemma ld_tab_None: "ld_tab d i = None \<longleftrightarrow> i \<notin> r_id ` set (ld_rows d)"
  by (force simp: ld_tab_def map_of_eq_None_iff)

lemma update_where_ok:
  assumes "ld_ok d" "\<And>r. r_id (f r) = r_id r" "\<And>r. r_token (f r) = r_token r" "update_where f i d = (d', Inr (Inr n))"
  shows "ld_ok d' \<and> (case ld_tab d i of Some r \<Rightarrow> (if r_revoked_at r = None then n = 1 \<and> ld_tab d' = (ld_tab d)(i \<mapsto> f r)
      else n = 0 \<and> ld_tab d' = ld_tab d) | None \<Rightarrow> n = 0 \<and> ld_tab d' = ld_tab d)"
proof -
  let ?g = "\<lambda>r. if r_id r = i \<and> r_revoked_at r = None then f r else r"
  have d': "ld_rows d' = map ?g (ld_rows d)" and n: "n = length (filter (\<lambda>r. r_id r = i \<and> r_revoked_at r = None) (ld_rows d))"
    using assms(4) by (auto simp: update_where_def Let_def)
  have keep: "r_id \<circ> ?g = r_id" "r_token \<circ> ?g = r_token" using assms(2,3) by (simp_all add: fun_eq_iff)
  then have ok: "ld_ok d'" using assms(1) by (simp add: ld_ok_def d')
  have tab: "ld_tab d' j = map_option ?g (ld_tab d j)" for j
  proof -
    have "map_of (map (\<lambda>r. (r_id r, r)) (map ?g rs)) j = map_option ?g (map_of (map (\<lambda>r. (r_id r, r)) rs) j)" for rs
      using assms(2) by (induction rs) simp_all
    then show ?thesis by (simp add: ld_tab_def d')
  qed
  have count: "n = (case ld_tab d i of Some r \<Rightarrow> if r_revoked_at r = None then 1 else 0 | None \<Rightarrow> 0)"
  proof -
    have "distinct (map r_id rs) \<Longrightarrow> length (filter (\<lambda>r. r_id r = i \<and> r_revoked_at r = None) rs) =
        (case map_of (map (\<lambda>r. (r_id r, r)) rs) i of Some r \<Rightarrow> if r_revoked_at r = None then 1 else 0 | None \<Rightarrow> 0)" for rs
    proof (induction rs)
      case (Cons r rs)
      have "filter (\<lambda>r. r_id r = i \<and> r_revoked_at r = None) rs = []" if "r_id r = i"
      proof -
        have "r_id x \<noteq> i" if "x \<in> set rs" for x
          using Cons.prems imageI [OF that, of r_id] \<open>r_id r = i\<close> by auto
        then show ?thesis by (simp add: filter_empty_conv)
      qed
      then show ?case using Cons by auto
    qed simp
    from this [of "ld_rows d"] show ?thesis using assms(1) by (simp only: n ld_ok_def ld_tab_def)
  qed
  have other: "map_option ?g (ld_tab d j) = ld_tab d j" if "j \<noteq> i" for j
  proof (cases "ld_tab d j")
    case (Some r)
    then have "r_id r = j" using ld_tab_Some [OF assms(1)] by blast
    then show ?thesis using that Some by simp
  qed simp
  show ?thesis
  proof (cases "ld_tab d i")
    case None
    then have "map_option ?g (ld_tab d j) = ld_tab d j" for j using other by (cases "j = i") simp_all
    then show ?thesis using ok count None by (simp add: fun_eq_iff tab)
  next
    case (Some r)
    then have i: "r_id r = i" using ld_tab_Some [OF assms(1)] by blast
    have "ld_tab d' = (ld_tab d)(i \<mapsto> ?g r)"
    proof
      fix j show "ld_tab d' j = ((ld_tab d)(i \<mapsto> ?g r)) j"
        using other [of j] Some tab [of j] by (cases "j = i") simp_all
    qed
    then show ?thesis using ok count Some i by (simp add: fun_upd_idem)
  qed
qed

lemma insert_by_set: "set (insert_by f x ys) = insert x (set ys)" "distinct (insert_by f x ys) = (x \<notin> set ys \<and> distinct ys)"
proof -
  show "set (insert_by f x ys) = insert x (set ys)" by (induction ys) auto
  then show "distinct (insert_by f x ys) = (x \<notin> set ys \<and> distinct ys)"
  proof (induction ys)
    case (Cons y ys)
    have "set (insert_by f x ys) = insert x (set ys)" by (induction ys) auto
    with Cons show ?case by auto
  qed simp
qed

lemma order_by_set: "set (order_by f xs) = set xs" "distinct (order_by f xs) = distinct xs"
proof -
  have s: "set (order_by f xs) = set xs" for xs by (induction xs) (simp_all add: order_by_def insert_by_set)
  then show "set (order_by f xs) = set xs" .
  show "distinct (order_by f xs) = distinct xs"
  proof (induction xs)
    case (Cons x xs)
    then show ?case using s [of xs] by (simp add: order_by_def insert_by_set)
  qed (simp add: order_by_def)
qed

lemma scan_find_Row: "scan_find P d = Row r \<Longrightarrow> r \<in> set (ld_rows d) \<and> P r"
  by (auto simp: scan_find_def find_Some_iff split: option.splits)

interpretation list_sql: sql_keys "aesGCMCipher (NewGCM key)" list_engine ld_ok ld_tab demo_rand for key
proof (unfold_locales, goal_cases)
  case 1
  then show ?case by (simp add: rand_fills_def demo_rand_def)
next
  case (2 d i r)
  then show ?case by (simp add: ld_tab_Some)
next
  case (3 d i r j r')
  then have "r \<in> set (ld_rows d)" "r' \<in> set (ld_rows d)" "r_id r = i" "r_id r' = j" "distinct (map r_token (ld_rows d))"
    by (simp_all add: ld_tab_Some ld_ok_def)
  then show ?case using 3(4) by (metis distinct_map inj_onD)
next
  case (4 d i r)
  then show ?case using scan_find_Row by (auto simp: list_engine_def ld_tab_Some)
next
  case (5 d t r)
  then show ?case using scan_find_Row by (auto simp: list_engine_def ld_tab_Some)
next
  case (6 d i)
  then show ?case by (force simp: list_engine_def scan_find_def find_None_iff ld_tab_None split: option.splits)
next
  case (7 d t i r)
  then show ?case by (auto simp: list_engine_def scan_find_def find_None_iff ld_tab_Some split: option.splits)
next
  case (8 d r d')
  then have new: "\<not> (\<exists>r' \<in> set (ld_rows d). r_id r' = r_id r \<or> r_token r' = r_token r)" "d' = d\<lparr>ld_rows := ld_rows d @ [r]\<rparr>"
    by (auto simp: list_engine_def split: if_splits)
  then have none: "ld_tab d (r_id r) = None" by (force simp: ld_tab_None)
  moreover have "ld_tab d' = (ld_tab d)(r_id r \<mapsto> r)"
    using none new(2) by (auto simp: ld_tab_def fun_eq_iff map_add_def split: option.splits)
  moreover have "ld_ok d'" using 8(1) new by (auto simp: ld_ok_def)
  ultimately show ?case by simp
next
  case (9 d r d' e)
  then show ?case by (auto simp: list_engine_def split: if_splits)
next
  case (10 d ts i d' n)
  then show ?case by (intro update_where_ok) (simp_all add: list_engine_def)
next
  case (12 d u i d' n)
  then show ?case by (intro update_where_ok) (simp_all add: list_engine_def)
next
  case (16 d ts rows)
  let ?P = "\<lambda>r. r_revoked_at r = None \<and> (case r_expires_at r of None \<Rightarrow> False | Some e \<Rightarrow> text_le e ts)"
  have rows: "rows = map Row (order_by (\<lambda>r. the (r_expires_at r)) (filter ?P (ld_rows d)))"
    using 16(2) by (auto simp: list_engine_def)
  have "distinct (ld_rows d)" using 16(1) by (auto simp: ld_ok_def distinct_map)
  moreover have "{r. ld_tab d (r_id r) = Some r \<and> r_revoked_at r = None \<and> (\<exists>e. r_expires_at r = Some e \<and> text_le e ts)} =
      {r \<in> set (ld_rows d). ?P r}"
    using ld_tab_Some [OF 16(1)] by (auto split: option.splits)
  ultimately show ?case by (simp add: rows order_by_set distinct_map inj_on_def)
qed (auto simp: list_engine_def update_where_def Let_def)

end
