(* ===== verification/Migrations.thy ===== *)
theory Migrations
  imports List_Engine
begin

text \<open>
  Opening the durable key store on a file of any earlier schema. The locale \<open>sql_schema\<close> is what SQL promises of the statements that
  \<open>NewSQLite\<close> runs: the listing of a table gives its columns, \<open>ALTER TABLE ADD COLUMN\<close> adds one, \<open>CREATE TABLE IF NOT EXISTS\<close>
  leaves a table that is there alone, and none of them touches the rows.
\<close>

definition new_columns :: "string set" where
  "new_columns = set (map fst sqlite_migrations)"

locale sql_schema =
  fixes E :: "'d sql_db" and cols :: "'d \<Rightarrow> string set" and tab :: "'d \<Rightarrow> string \<Rightarrow> key_row option"
  assumes listing: "db_table_info E d ''virtual_keys'' = Inr (rows, None) \<Longrightarrow> \<forall>e. ScanError e \<notin> set rows \<Longrightarrow> c \<in> cols d \<longleftrightarrow> Row c \<in> set rows"
    and listing_row: "db_table_info E d ''virtual_keys'' = Inr (rows, err) \<Longrightarrow> Row c \<in> set rows \<Longrightarrow> c \<in> cols d"
    and add_col: "(c, ddl) \<in> set sqlite_migrations \<Longrightarrow> db_Exec E d ddl = (d', None) \<Longrightarrow> cols d' = insert c (cols d) \<and> tab d' = tab d"
    and create_table: "db_Exec E d sqliteSchema = (d', None) \<Longrightarrow>
      (if cols d = {} then cols d' = set schema_columns else cols d' = cols d) \<and> tab d' = tab d"
begin

lemma find_column_True: "find_column c rows err = Inr True \<Longrightarrow> Row c \<in> set rows"
  by (induction c rows err rule: find_column.induct) (auto split: if_splits option.splits)

lemma find_column_False: "find_column c rows err = Inr False \<Longrightarrow> err = None \<and> (\<forall>e. ScanError e \<notin> set rows) \<and> Row c \<notin> set rows"
  by (induction c rows err rule: find_column.induct) (auto split: if_splits option.splits)

lemma column_exists:
  assumes "sqliteColumnExists E d ''virtual_keys'' c = Inr b"
  shows "b \<longleftrightarrow> c \<in> cols d"
proof -
  obtain rows err where "db_table_info E d ''virtual_keys'' = Inr (rows, err)" "find_column c rows err = Inr b"
    using assms by (auto simp: sqliteColumnExists_def split: if_splits sum.splits)
  then show ?thesis using find_column_True [of c rows err] find_column_False [of c rows err] listing [of d rows c] listing_row [of d rows err c]
    by (cases b) auto
qed

lemma migrations_add:
  "set ms \<subseteq> set sqlite_migrations \<Longrightarrow> run_migrations E ms d = (d', None) \<Longrightarrow> cols d' = cols d \<union> set (map fst ms) \<and> tab d' = tab d"
proof (induction ms arbitrary: d)
  case (Cons m ms)
  obtain c ddl where m: "m = (c, ddl)" by (cases m)
  obtain b where b: "sqliteColumnExists E d ''virtual_keys'' c = Inr b"
    using Cons.prems(2) by (auto simp: m split: sum.splits)
  show ?case
  proof (cases b)
    case True
    then have "run_migrations E ms d = (d', None)" using Cons.prems(2) b by (simp add: m)
    from Cons.IH [OF _ this] Cons.prems(1) show ?thesis using True column_exists [OF b] by (auto simp: m)
  next
    case False
    obtain d1 x where x: "db_Exec E d ddl = (d1, x)" by (cases "db_Exec E d ddl")
    then have "x = None" "run_migrations E ms d1 = (d', None)" using Cons.prems(2) b False by (auto simp: m split: option.splits)
    with Cons.IH [of d1] add_col [of c ddl d d1] Cons.prems(1) x show ?thesis by (auto simp: m)
  qed
qed simp

text \<open>On a table that has every column already no statement runs.\<close>

lemma migrations_idle:
  "set (map fst ms) \<subseteq> cols d \<Longrightarrow> run_migrations E ms d = (d', x) \<Longrightarrow> d' = d"
proof (induction ms)
  case (Cons m ms)
  obtain c ddl where m: "m = (c, ddl)" by (cases m)
  show ?case
  proof (cases "sqliteColumnExists E d ''virtual_keys'' c")
    case (Inr b)
    then have "b" using column_exists [OF Inr] Cons.prems(1) by (simp add: m)
    then show ?thesis using Cons Inr by (simp add: m)
  qed (use Cons.prems(2) m in simp)
qed simp

lemma opened:
  assumes "sql_Open (sqlite_dsn path) = Inr d" "NewSQLite sql_Open E path (Some C) = Inr d'"
  shows "new_columns \<subseteq> cols d' \<and> cols d \<subseteq> cols d' \<and> tab d' = tab d"
proof -
  obtain d1 where d1: "db_Exec E d sqliteSchema = (d1, None)" "run_migrations E sqlite_migrations d1 = (d', None)"
    using assms by (auto simp: NewSQLite_def applySQLiteMigrations_def split: if_splits option.splits prod.splits)
  have "cols d \<subseteq> cols d1" "tab d1 = tab d" using create_table [OF d1(1)] by (auto split: if_splits)
  with migrations_add [OF order_refl d1(2)] show ?thesis by (auto simp: new_columns_def)
qed

end

lemma ddl_inj: "map_of (map (\<lambda>(n, ddl). (ddl, n)) sqlite_migrations) ddl = Some n \<longleftrightarrow> (n, ddl) \<in> set sqlite_migrations"
proof -
  have "distinct (map snd sqlite_migrations)" by (simp add: sqlite_migrations_def add_column_def)
  then have "distinct (map fst (map (\<lambda>(n, ddl). (ddl, n)) sqlite_migrations))" by (simp add: comp_def split_beta)
  from map_of_eq_Some_iff [OF this] show ?thesis by force
qed

lemma ddl_not_schema: "(n, ddl) \<in> set sqlite_migrations \<Longrightarrow> ddl \<noteq> sqliteSchema"
  by (auto simp: sqlite_migrations_def add_column_def sqliteSchema_def)

interpretation list_schema: sql_schema list_engine "\<lambda>d. set (ld_columns d)" ld_tab
proof (unfold_locales, goal_cases)
  case (3 c ddl d d')
  then have "map_of (map (\<lambda>(n, ddl). (ddl, n)) sqlite_migrations) ddl = Some c" "ddl \<noteq> sqliteSchema"
    using ddl_inj ddl_not_schema by blast+
  then show ?case using 3(2) by (auto simp: list_engine_def exec_ddl_def ld_tab_def)
qed (auto simp: list_engine_def exec_ddl_def ld_tab_def split: if_splits)

lemma list_columns: "sqliteColumnExists list_engine d ''virtual_keys'' c = Inr (c \<in> set (ld_columns d))"
proof -
  have "validBareIdent ''virtual_keys''" by code_simp
  moreover have "find_column c (map Row cs) None = Inr (c \<in> set cs)" for cs by (induction cs) auto
  ultimately show ?thesis by (simp add: sqliteColumnExists_def list_engine_def)
qed

lemma list_migrates: "set ms \<subseteq> set sqlite_migrations \<Longrightarrow> \<exists>d'. run_migrations list_engine ms d = (d', None)"
proof (induction ms arbitrary: d)
  case (Cons m ms)
  obtain c ddl where m: "m = (c, ddl)" by (cases m)
  then have "map_of (map (\<lambda>(n, ddl). (ddl, n)) sqlite_migrations) ddl = Some c" "ddl \<noteq> sqliteSchema"
    using Cons.prems ddl_inj ddl_not_schema by auto
  then have "db_Exec list_engine d ddl = (d\<lparr>ld_columns := ld_columns d @ [c]\<rparr>, None)" by (simp add: list_engine_def exec_ddl_def)
  then show ?case using Cons by (cases "c \<in> set (ld_columns d)") (simp_all add: m list_columns)
qed simp

text \<open>Opening upgrades any schema. Whatever columns the table of a file has, once \<open>NewSQLite\<close> has returned without an error the
  columns of every later version are there, none is gone and no row has changed; opening the file again changes nothing.\<close>

theorem opening_upgrades_schema:
  assumes "sql_schema E cols table" "sql_Open (sqlite_dsn path) = Inr d" "NewSQLite sql_Open E path (Some C) = Inr d'"
  shows "set (map fst sqlite_migrations) \<subseteq> cols d' \<and> cols d \<subseteq> cols d' \<and> table d' = table d \<and>
    (\<forall>d'' x. run_migrations E sqlite_migrations d' = (d'', x) \<longrightarrow> d'' = d')"
  using sql_schema.opened [OF assms] sql_schema.migrations_idle [OF assms(1), of sqlite_migrations d'] by (simp add: new_columns_def)

definition old_db :: list_db where
  "old_db = \<lparr>ld_columns = [''id'', ''token'', ''name'', ''upstream'', ''upstream_key'', ''created_at'', ''revoked_at''], ld_rows = []\<rparr>"

theorem opening_upgrades_schema_witness:
  "\<exists>d'. NewSQLite (\<lambda>_. Inr old_db) list_engine ''r'' (Some NoopCipher) = Inr d' \<and> ''expires_at'' \<in> set (ld_columns d')"
proof -
  have t: "TrimSpace ''r'' \<noteq> []" by (rule TrimSpace_visible [of "CHR ''r''"]) (simp_all add: visible_def)
  have "\<exists>d'. run_migrations list_engine sqlite_migrations old_db = (d', None)" by (rule list_migrates) simp
  then obtain d' where "NewSQLite (\<lambda>_. Inr old_db) list_engine ''r'' (Some NoopCipher) = Inr d'"
    using t by (auto simp: NewSQLite_def applySQLiteMigrations_def list_engine_def exec_ddl_def old_db_def)
  with opening_upgrades_schema [OF list_schema.sql_schema_axioms refl this] show ?thesis
    by (auto simp: sqlite_migrations_def)
qed

end
