(* ===== verification/Durable_Facts.thy ===== *)
theory Durable_Facts
  imports List_Engine
begin

text \<open>
  What the durable key store guarantees over every engine with the laws of \<open>sql_keys\<close>: what was created is read back,
  the row of a revoked key never changes, and the expiry listing is exact to the second. The first part follows the
  rows through the operations; \<open>list_engine\<close> serves the examples.
\<close>

definition readable :: "instant \<Rightarrow> bool" where
  "readable t \<longleftrightarrow> 0 \<le> year_of t \<and> year_of t \<le> 9999"

definition sqlite_apply :: "'d sql_db \<Rightarrow> cipher \<Rightarrow> rand \<Rightarrow> 'd \<Rightarrow> key_op \<Rightarrow> 'd" where
  "sqlite_apply E C rand_Read = key_effect (sqlite_Create E C rand_Read) (sqlite_Revoke E C) (sqlite_RevokeAt E C) (sqlite_Update E C)"

text \<open>What may happen to the database between two readings: a whole operation, or the writing half of an \<open>Update\<close> whose reading half
  ran at any earlier time and left it the patched key.\<close>

datatype store_write = Op key_op | LateUpdate string VirtualKey

fun sqlite_step :: "'d sql_db \<Rightarrow> cipher \<Rightarrow> rand \<Rightarrow> 'd \<Rightarrow> store_write \<Rightarrow> 'd" where
  "sqlite_step E C rand_Read d (Op op) = sqlite_apply E C rand_Read d op"
| "sqlite_step E C rand_Read d (LateUpdate kid current) = fst (update_write E d kid current)"

text \<open>A row whose times were written by this program.\<close>

definition formatted :: "key_row \<Rightarrow> bool" where
  "formatted r \<longleftrightarrow> (\<forall>e. r_expires_at r = Some e \<longrightarrow> (\<exists>t. e = format_RFC3339Nano t))"

text \<open>A row whose times cannot be parsed stays one: no lookup reads it, so no update gets past its reading half.\<close>

definition unparsable :: "key_row \<Rightarrow> bool" where
  "unparsable r \<longleftrightarrow> time_Parse (r_created_at r) = None \<or> (\<exists>e. r_expires_at r = Some e \<and> time_Parse e = None)"

lemma unparsable_scan: "unparsable r \<Longrightarrow> \<exists>e. scanKey C (Row r) = Inl e"
  by (auto simp: unparsable_def scanKey_def parse_opt_def split: sum.split option.split)

lemma parse_format: "time_Parse (format_RFC3339Nano t) = (if readable t then Some t else None)"
  using format_out_of_range [of t] by (simp add: readable_def time_Parse_format)

lemma scanKey_row: "scanKey C (Row (row_of k enc)) = (case Decrypt C enc of
    Inl err \<Rightarrow> Inl (StoreFailure ''decrypt upstream key'')
  | Inr secret \<Rightarrow> if \<not> readable (CreatedAt k) then Inl (StoreFailure ''parse created_at'')
     else if \<exists>t. ExpiresAt k = Some t \<and> \<not> readable t then Inl (StoreFailure ''parse expires_at'')
     else Inr (k\<lparr>UpstreamKey := secret, RevokedAt := None\<rparr>))"
  by (cases k) (auto simp: scanKey_def row_of_def parse_format parse_opt_def format_opt_def split: sum.split option.split)

text \<open>What an operation does to the table: nothing, or it adds a row, or it changes one that is not revoked.\<close>

definition table_step :: "(string \<Rightarrow> key_row option) \<Rightarrow> (string \<Rightarrow> key_row option) \<Rightarrow> bool" where
  "table_step T T' \<longleftrightarrow> T' = T \<or> (\<exists>r. T (r_id r) = None \<and> formatted r \<and> T' = T(r_id r \<mapsto> r)) \<or>
     (\<exists>i r r'. T i = Some r \<and> r_revoked_at r = None \<and> (formatted r \<longrightarrow> formatted r') \<and> T' = T(i \<mapsto> r'))"

lemma table_step_refl [simp]: "table_step T T"
  by (simp add: table_step_def)

lemma table_step_add: "T (r_id r) = None \<Longrightarrow> formatted r \<Longrightarrow> table_step T (T(r_id r \<mapsto> r))"
  by (auto simp: table_step_def)

lemma table_step_change: "T i = Some r \<Longrightarrow> r_revoked_at r = None \<Longrightarrow> (formatted r \<longrightarrow> formatted r') \<Longrightarrow> table_step T (T(i \<mapsto> r'))"
  by (auto simp: table_step_def)

lemma table_step_revoked: "table_step T T' \<Longrightarrow> T i = Some r \<Longrightarrow> r_revoked_at r \<noteq> None \<Longrightarrow> T' i = Some r"
  by (auto simp: table_step_def)

lemma table_step_formatted: "table_step T T' \<Longrightarrow> \<forall>r \<in> ran T. formatted r \<Longrightarrow> \<forall>r \<in> ran T'. formatted r"
  by (fastforce simp: table_step_def ran_def split: if_splits)

context sql_keys
begin

lemma Create_reads:
  assumes "ok d" "sqlite_Create E C rnd d (Some k) = (d', Inr ())" "RevokedAt k = None"
  shows "\<exists>r. tab d' (ID k) = Some r \<and> r_token r = Token k \<and> scanKey C (Row r) =
    (if \<not> readable (CreatedAt k) then Inl (StoreFailure ''parse created_at'')
     else if \<exists>t. ExpiresAt k = Some t \<and> \<not> readable t then Inl (StoreFailure ''parse expires_at'') else Inr k) \<and>
    (unparsable r \<longleftrightarrow> \<not> readable (CreatedAt k) \<or> (\<exists>t. ExpiresAt k = Some t \<and> \<not> readable t))"
proof -
  obtain enc where e: "Encrypt C rnd (UpstreamKey k) = Inr enc" "db_insert E d (row_of k enc) = (d', None)"
    using assms(2) by (auto simp: sqlite_Create_def split: if_splits sum.splits prod.splits option.splits)
  have "tab d' (ID k) = Some (row_of k enc)" using insert_ok [OF assms(1) e(2)] by (simp add: row_of_def)
  moreover have "Decrypt C enc = Inr (UpstreamKey k)" by (rule decrypt_encrypt [OF random TrueI e(1)])
  moreover have "k\<lparr>RevokedAt := None\<rparr> = k" using assms(3) by (cases k) simp
  moreover have "unparsable (row_of k enc) \<longleftrightarrow> \<not> readable (CreatedAt k) \<or> (\<exists>t. ExpiresAt k = Some t \<and> \<not> readable t)"
    by (cases "ExpiresAt k") (simp_all add: unparsable_def row_of_def format_opt_def parse_format)
  ultimately show ?thesis by (intro exI [of _ "row_of k enc"] conjI) (simp_all add: scanKey_row, auto simp: row_of_def)
qed

lemma token_row:
  assumes "ok d" "tab d i = Some r" "r_token r = t"
  shows "sqlite_GetByToken E C d t = (case db_by_token E d t of
    ScanError e \<Rightarrow> Inl (StoreFailure (''scan key: '' @ e)) | _ \<Rightarrow> scanKey C (Row r))"
proof (cases "db_by_token E d t")
  case NoRows
  then show ?thesis using select_none(2) [OF assms(1) _ assms(2)] assms(3) by blast
next
  case (Row r')
  then have r': "tab d (r_id r') = Some r'" "r_token r' = t" using select_token [OF assms(1)] by blast+
  then have "r_id r' = i" using unique_token [OF assms(1) r'(1) assms(2)] assms(3) by simp
  then have "r' = r" using r'(1) assms(2) by simp
  then show ?thesis using Row by (simp add: sqlite_GetByToken_def queryOne_def)
qed (simp add: sqlite_GetByToken_def queryOne_def scanKey_def)

lemma stamp_rows:
  assumes "ok d"
  shows "ok (fst (stamp_revoked E C a b d t i)) \<and> table_step (tab d) (tab (fst (stamp_revoked E C a b d t i)))"
proof -
  obtain d1 x where x: "db_revoke E d (format_RFC3339Nano t) i = (d1, x)" by (cases "db_revoke E d (format_RFC3339Nano t) i")
  then have d1: "fst (stamp_revoked E C a b d t i) = d1" by (auto simp: stamp_revoked_def split: sum.split)
  consider e where "x = Inl e" | n where "x = Inr (Inr n)" using x counts(1) by (cases x rule: exec_cases) blast+
  then show ?thesis
  proof cases
    case (1 e)
    then show ?thesis using revoke_fails [OF assms x [unfolded 1]] d1 by simp
  next
    case (2 n)
    note rows = revoke_rows [OF assms x [unfolded 2]]
    show ?thesis
    proof (cases "tab d i")
      case (Some r)
      have "formatted r \<longrightarrow> formatted (r\<lparr>r_revoked_at := Some ts\<rparr>)" for ts by (simp add: formatted_def)
      from table_step_change [of "tab d" i r, OF Some _ this] show ?thesis using rows Some unfolding d1 by (cases "r_revoked_at r") auto
    qed (use rows d1 in simp)
  qed
qed

lemma Create_rows:
  assumes "ok d"
  shows "ok (fst (sqlite_Create E C rnd d k)) \<and> table_step (tab d) (tab (fst (sqlite_Create E C rnd d k)))"
proof (cases k)
  case (Some v)
  show ?thesis
  proof (cases "Encrypt C rnd (UpstreamKey v)")
    case (Inr enc)
    obtain d1 x where x: "db_insert E d (row_of v enc) = (d1, x)" by (cases "db_insert E d (row_of v enc)")
    have r: "fst (sqlite_Create E C rnd d k) = d \<or> fst (sqlite_Create E C rnd d k) = d1"
      using x Inr Some by (simp add: sqlite_Create_def split: option.split)
    have "formatted (row_of v enc)" by (auto simp: formatted_def row_of_def format_opt_def)
    then have "ok d1 \<and> table_step (tab d) (tab d1)"
      using insert_ok [OF assms, of "row_of v enc" d1] insert_fails [OF assms, of "row_of v enc" d1] x
      by (cases x) (simp_all add: table_step_add)
    then show ?thesis using r assms by auto
  qed (use assms Some in \<open>simp add: sqlite_Create_def\<close>)
qed (use assms in \<open>simp add: sqlite_Create_def\<close>)

lemma update_write_rows:
  assumes "ok d"
  shows "ok (fst (update_write E d i k)) \<and> table_step (tab d) (tab (fst (update_write E d i k)))"
proof -
  let ?u = "update_of k"
  obtain d1 x where x: "db_update E d ?u i = (d1, x)" by (cases "db_update E d ?u i")
  have d1: "fst (update_write E d i k) = d1" using x by (simp add: update_write_def split: sum.split)
  consider e where "x = Inl e" | n where "x = Inr (Inr n)" using x counts(2) by (cases x rule: exec_cases) blast+
  then show ?thesis
  proof cases
    case (1 e)
    then show ?thesis using update_fails [OF assms x [unfolded 1]] d1 by simp
  next
    case (2 n)
    note rows = update_rows [OF assms x [unfolded 2]]
    show ?thesis
    proof (cases "tab d i")
      case (Some r)
      have "formatted r \<longrightarrow> formatted (set_columns ?u r)" by (auto simp: formatted_def set_columns_def update_of_def format_opt_def)
      from table_step_change [of "tab d" i r, OF Some _ this] show ?thesis using rows Some unfolding d1 by (cases "r_revoked_at r") auto
    qed (use rows d1 in simp)
  qed
qed

lemma Update_rows:
  "ok d \<Longrightarrow> ok (fst (sqlite_Update E C d i p)) \<and> table_step (tab d) (tab (fst (sqlite_Update E C d i p)))"
  using update_write_rows by (simp add: sqlite_Update_def split: sum.split)

lemma step_rows:
  assumes "ok d"
  shows "ok (sqlite_step E C rnd d w) \<and> table_step (tab d) (tab (sqlite_step E C rnd d w))"
proof (cases w)
  case (Op op)
  then show ?thesis using Create_rows [OF assms] stamp_rows [OF assms] Update_rows [OF assms]
    by (cases op) (simp_all add: sqlite_apply_def sqlite_Revoke_def sqlite_RevokeAt_def)
qed (use update_write_rows [OF assms] in simp)

text \<open>Two updates of one key that both read before either writes: the row is the one the second would have made alone.\<close>

lemma second_write_wins:
  assumes "ok d" "update_write E d i k1 = (d1, Inr v1)" "update_write E d1 i k2 = (d2, Inr v2)"
  shows "\<exists>r. tab d i = Some r \<and> tab d2 = (tab d)(i \<mapsto> set_columns (update_of k2) r)"
proof -
  have w: "\<exists>r. tab d i = Some r \<and> r_revoked_at r = None \<and> ok d' \<and> tab d' = (tab d)(i \<mapsto> set_columns (update_of k) r)"
    if o: "ok d" and u: "update_write E d i k = (d', Inr v)" for d d' k v
  proof -
    obtain n where n: "db_update E d (update_of k) i = (d', Inr (Inr n))" "n \<noteq> 0"
      using u by (auto simp: update_write_def split: prod.splits sum.splits if_splits)
    show ?thesis using update_rows [OF o n(1)] n(2) by (auto split: option.splits if_splits)
  qed
  obtain r where r: "tab d i = Some r" "ok d1" "tab d1 = (tab d)(i \<mapsto> set_columns (update_of k1) r)" using w [OF assms(1,2)] by blast
  have "set_columns (update_of k2) (set_columns (update_of k1) r) = set_columns (update_of k2) r" by (simp add: set_columns_def)
  then show ?thesis using w [OF r(2) assms(3)] r(1,3) by auto
qed

lemma id_row:
  assumes "ok d" "tab d i = Some r"
  shows "sqlite_GetByID E C d i = (case db_by_id E d i of
    ScanError e \<Rightarrow> Inl (StoreFailure (''scan key: '' @ e)) | _ \<Rightarrow> scanKey C (Row r))"
proof (cases "db_by_id E d i")
  case NoRows
  then show ?thesis using select_none(1) [OF assms(1)] assms(2) by simp
next
  case (Row r')
  then have "r' = r" using select_id [OF assms(1)] assms(2) by fastforce
  then show ?thesis using Row by (simp add: sqlite_GetByID_def queryOne_def)
qed (simp add: sqlite_GetByID_def queryOne_def scanKey_def)

lemma unparsable_unread:
  assumes "ok d" "tab d i = Some r" "unparsable r"
  shows "\<exists>e. sqlite_GetByID E C d i = Inl e" "\<exists>e. sqlite_GetByToken E C d (r_token r) = Inl e"
  using unparsable_scan [OF assms(3)] id_row [OF assms(1,2)] token_row [OF assms(1,2) refl]
  by (auto split: scanned.split)

lemma stamp_keeps:
  assumes "ok d" "tab d i = Some r" "unparsable r"
  shows "\<exists>r'. tab (fst (stamp_revoked E C a b d t j)) i = Some r' \<and> r_token r' = r_token r \<and> unparsable r'"
proof -
  obtain d1 x where x: "db_revoke E d (format_RFC3339Nano t) j = (d1, x)" by (cases "db_revoke E d (format_RFC3339Nano t) j")
  then have d1: "fst (stamp_revoked E C a b d t j) = d1" by (auto simp: stamp_revoked_def split: sum.split)
  have u: "unparsable (r\<lparr>r_revoked_at := ts\<rparr>)" for ts using assms(3) by (simp add: unparsable_def)
  consider e where "x = Inl e" | n where "x = Inr (Inr n)" using x counts(1) by (cases x rule: exec_cases) blast+
  then show ?thesis
  proof cases
    case (1 e)
    then show ?thesis using revoke_fails [OF assms(1) x [unfolded 1]] d1 assms(2,3) by simp
  next
    case (2 n)
    from revoke_rows [OF assms(1) x [unfolded 2]] have "tab d1 = tab d \<or> (\<exists>q ts. tab d j = Some q \<and> tab d1 = (tab d)(j \<mapsto> q\<lparr>r_revoked_at := ts\<rparr>))"
      by (cases "tab d j") (auto split: if_splits)
    then show ?thesis using d1 assms(2,3) u by (cases "j = i") fastforce+
  qed
qed

lemma Create_keeps:
  assumes "ok d" "tab d i = Some r"
  shows "tab (fst (sqlite_Create E C rnd d k)) i = Some r"
proof (cases k)
  case (Some v)
  show ?thesis
  proof (cases "Encrypt C rnd (UpstreamKey v)")
    case (Inr enc)
    obtain d1 x where x: "db_insert E d (row_of v enc) = (d1, x)" by (cases "db_insert E d (row_of v enc)")
    have r: "fst (sqlite_Create E C rnd d k) = d \<or> fst (sqlite_Create E C rnd d k) = d1"
      using x Inr Some by (simp add: sqlite_Create_def split: option.split)
    have "tab d1 i = Some r"
      using insert_ok [OF assms(1), of "row_of v enc" d1] insert_fails [OF assms(1), of "row_of v enc" d1] x assms(2)
      by (cases x) auto
    then show ?thesis using r assms(2) by auto
  qed (use assms Some in \<open>simp add: sqlite_Create_def\<close>)
qed (use assms in \<open>simp add: sqlite_Create_def\<close>)

lemma write_keeps:
  assumes "ok d" "i \<noteq> j"
  shows "tab (fst (update_write E d j k)) i = tab d i"
proof -
  obtain d1 x where x: "db_update E d (update_of k) j = (d1, x)" by (cases "db_update E d (update_of k) j")
  have d1: "fst (update_write E d j k) = d1" using x by (simp add: update_write_def split: sum.split)
  consider e where "x = Inl e" | n where "x = Inr (Inr n)" using x counts(2) by (cases x rule: exec_cases) blast+
  then show ?thesis
  proof cases
    case (1 e)
    then show ?thesis using update_fails [OF assms(1) x [unfolded 1]] d1 by simp
  next
    case (2 n)
    then show ?thesis using update_rows [OF assms(1) x [unfolded 2]] d1 assms(2) by (auto split: option.splits if_splits)
  qed
qed

lemma unparsable_step:
  assumes "ok d" "tab d i = Some r" "unparsable r" "\<forall>c. w \<noteq> LateUpdate i c"
  shows "\<exists>r'. tab (sqlite_step E C rnd d w) i = Some r' \<and> r_token r' = r_token r \<and> unparsable r'"
proof (cases w)
  case (Op op)
  have "tab (fst (sqlite_Update E C d j p)) i = Some r" for j p
  proof (cases "j = i")
    case True
    obtain e where "sqlite_GetByID E C d i = Inl e" using unparsable_unread(1) [OF assms(1-3)] by blast
    then show ?thesis using assms(2) True by (simp add: sqlite_Update_def update_read_def)
  next
    case False
    then show ?thesis using write_keeps [OF assms(1), of i j] assms(2) by (simp add: sqlite_Update_def split: sum.split)
  qed
  then show ?thesis using Op Create_keeps [OF assms(1,2)] stamp_keeps [OF assms(1-3)] assms(3)
    by (cases op) (simp_all add: sqlite_apply_def sqlite_Revoke_def sqlite_RevokeAt_def)
next
  case (LateUpdate j c)
  then have "i \<noteq> j" using assms(4) by auto
  then show ?thesis using write_keeps [OF assms(1)] LateUpdate assms(2,3) by simp
qed

lemma unparsable_stays:
  "ok d \<Longrightarrow> tab d i = Some r \<Longrightarrow> unparsable r \<Longrightarrow> \<forall>c. LateUpdate i c \<notin> set ws \<Longrightarrow>
    ok (foldl (sqlite_step E C rnd) d ws) \<and>
    (\<exists>r'. tab (foldl (sqlite_step E C rnd) d ws) i = Some r' \<and> r_token r' = r_token r \<and> unparsable r')"
proof (induction ws arbitrary: d r)
  case (Cons w ws)
  have "\<forall>c. w \<noteq> LateUpdate i c" using Cons.prems(4) by auto
  from unparsable_step [OF Cons.prems(1-3) this] obtain r' where
    r': "tab (sqlite_step E C rnd d w) i = Some r'" "r_token r' = r_token r" "unparsable r'" by blast
  from Cons.IH [OF conjunct1 [OF step_rows [OF Cons.prems(1)]] r'(1,3)] Cons.prems(4) r'(2) show ?case by simp
qed auto

lemma revoked_row_stays:
  "ok d \<Longrightarrow> tab d i = Some r \<Longrightarrow> r_revoked_at r \<noteq> None \<Longrightarrow>
    ok (foldl (sqlite_step E C rnd) d ops) \<and> tab (foldl (sqlite_step E C rnd) d ops) i = Some r"
proof (induction ops arbitrary: d)
  case (Cons op ops)
  note step = step_rows [OF Cons.prems(1), of op]
  have "tab (sqlite_step E C rnd d op) i = Some r" using table_step_revoked [OF conjunct2 [OF step]] Cons.prems(2,3) by blast
  from Cons.IH [OF conjunct1 [OF step] this Cons.prems(3)] show ?case by simp
qed simp

lemma rows_formatted:
  "ok d \<Longrightarrow> \<forall>r \<in> ran (tab d). formatted r \<Longrightarrow>
    ok (foldl (sqlite_step E C rnd) d ops) \<and> (\<forall>r \<in> ran (tab (foldl (sqlite_step E C rnd) d ops)). formatted r)"
proof (induction ops arbitrary: d)
  case (Cons op ops)
  note step = step_rows [OF Cons.prems(1), of op]
  from Cons.IH [OF conjunct1 [OF step] table_step_formatted [OF conjunct2 [OF step] Cons.prems(2)]] show ?case by simp
qed simp

lemma scan_rows_no_error: "scan_rows C what rows err = Inr ks \<Longrightarrow> ScanError e \<notin> set rows"
proof (induction rows arbitrary: ks)
  case (Cons r rows)
  then show ?case by (cases r; cases "scan_rows C what rows err") (auto simp: scanKey_def split: sum.splits)
qed simp

lemma scan_rows_set: "scan_rows C what rows None = Inr ks \<Longrightarrow> k \<in> set ks \<longleftrightarrow> (\<exists>r \<in> set rows. scanKey C r = Inr k)"
proof (induction rows arbitrary: ks)
  case (Cons r rows)
  then obtain k' ks' where "scanKey C r = Inr k'" "scan_rows C what rows None = Inr ks'" "ks = k' # ks'"
    by (cases "scan_rows C what rows None") (auto split: sum.splits)
  then show ?case using Cons.IH by auto
qed simp

lemma token_of_revoked:
  assumes "ok d" "sqlite_GetByToken E C d t = Inr k" "RevokedAt k \<noteq> None"
  shows "sqlite_GetByToken E C (foldl (sqlite_step E C rnd) d ops) t = (case db_by_token E (foldl (sqlite_step E C rnd) d ops) t of
    ScanError e \<Rightarrow> Inl (StoreFailure (''scan key: '' @ e)) | _ \<Rightarrow> Inr k)"
proof -
  obtain r where r: "db_by_token E d t = Row r" "k = key_of C r"
    using assms(2) by (auto simp: sqlite_GetByToken_def queryOne_def dest!: scanKey_Inr)
  then have row: "tab d (r_id r) = Some r" "r_token r = t" "scanKey C (Row r) = Inr k"
    using select_token [OF assms(1)] assms(2) by (simp_all add: sqlite_GetByToken_def queryOne_def)
  have "r_revoked_at r \<noteq> None" using assms(3) r(2) by simp
  note stays = revoked_row_stays [OF assms(1) row(1) this, of ops]
  show ?thesis unfolding token_row [OF conjunct1 [OF stays] conjunct2 [OF stays] row(2)] row(3) by (rule refl)
qed

lemma listed_keys:
  assumes "ok d" "sqlite_ListExpiring E C d asOf = Inr ks"
  shows "k \<in> set ks \<longleftrightarrow> (\<exists>r e. tab d (r_id r) = Some r \<and> r_revoked_at r = None \<and> r_expires_at r = Some e \<and>
    text_le e (format_RFC3339Nano asOf) \<and> scanKey C (Row r) = Inr k)"
proof -
  obtain rows err where rows: "db_expiring E d (format_RFC3339Nano asOf) = Inr (rows, err)"
      "scan_rows C ''iterate expiring keys: '' rows err = Inr ks"
    using assms(2) by (auto simp: sqlite_ListExpiring_def split: sum.splits)
  have "scan_rows C w xs (Some e) \<noteq> Inr ys" for w xs e ys
    by (induction xs arbitrary: ys) (auto split: sum.split simp: map_sum_def)
  then have err: "err = None" using rows(2) by (cases err) auto
  have "\<forall>e. ScanError e \<notin> set rows" using scan_rows_no_error [OF rows(2)] by blast
  from select_expiring [OF assms(1) rows(1) [unfolded err] this] show ?thesis
    unfolding scan_rows_set [OF rows(2) [unfolded err]] by auto
qed

lemma listed_within_second:
  assumes "ok d" "\<forall>r \<in> ran (tab d). formatted r" "readable asOf" "sqlite_ListExpiring E C d asOf = Inr ks"
  shows "k \<in> set ks \<Longrightarrow> RevokedAt k = None \<and> (\<exists>t. ExpiresAt k = Some t \<and> t div ns_per_s \<le> asOf div ns_per_s)"
    and "sqlite_GetByID E C d i = Inr k \<Longrightarrow> RevokedAt k = None \<Longrightarrow> ExpiresAt k = Some t \<Longrightarrow> t div ns_per_s < asOf div ns_per_s \<Longrightarrow>
      k \<in> set ks"
proof -
  have time: "\<exists>t. r_expires_at r = Some (format_RFC3339Nano t) \<and> readable t \<and> ExpiresAt k = Some t \<and> RevokedAt k = map_option time_of (r_revoked_at r)"
    if scan: "scanKey C (Row r) = Inr k" and row: "tab d i = Some r" "r_expires_at r \<noteq> None" for r k i
  proof -
    obtain t where t: "r_expires_at r = Some (format_RFC3339Nano t)"
      using assms(2) row by (fastforce simp: formatted_def ran_def)
    have "k = key_of C r" using scanKey_Inr [OF scan] by simp
    moreover have "readable t"
      using scan t format_out_of_range [of t]
      by (auto simp: scanKey_def parse_opt_def readable_def split: sum.splits option.splits)
    ultimately show ?thesis using t by (auto simp: key_of_def)
  qed
  show "RevokedAt k = None \<and> (\<exists>t. ExpiresAt k = Some t \<and> t div ns_per_s \<le> asOf div ns_per_s)" if "k \<in> set ks"
  proof -
    obtain r e where r: "tab d (r_id r) = Some r" "r_revoked_at r = None" "r_expires_at r = Some e"
        "text_le e (format_RFC3339Nano asOf)" "scanKey C (Row r) = Inr k"
      using listed_keys [OF assms(1,4)] \<open>k \<in> set ks\<close> by blast
    obtain t where t: "e = format_RFC3339Nano t" "readable t" "ExpiresAt k = Some t" "RevokedAt k = None"
      using time [OF r(5,1)] r(2,3) by auto
    have "\<not> asOf div ns_per_s < t div ns_per_s"
      using text_order_seconds [of asOf t] t(1,2) assms(3) r(4) by (auto simp: readable_def)
    then show ?thesis using t(3,4) by auto
  qed
  show "k \<in> set ks" if g: "sqlite_GetByID E C d i = Inr k" and k: "RevokedAt k = None" "ExpiresAt k = Some t"
    "t div ns_per_s < asOf div ns_per_s"
  proof -
    obtain r where r: "db_by_id E d i = Row r" "scanKey C (Row r) = Inr k"
      using g scanKey_Inr [of C "db_by_id E d i" k] by (auto simp: sqlite_GetByID_def queryOne_def)
    then have row: "tab d i = Some r" "k = key_of C r" using select_id [OF assms(1)] scanKey_Inr by blast+
    then have id: "tab d (r_id r) = Some r" using primary_key [OF assms(1)] by simp
    have x: "r_revoked_at r = None" "r_expires_at r \<noteq> None" using row(2) k(1,2) by (auto simp: key_of_def)
    obtain t' where t': "r_expires_at r = Some (format_RFC3339Nano t')" "readable t'" "ExpiresAt k = Some t'"
      using time [OF r(2) row(1) x(2)] by blast
    then have "t' = t" using k(2) by simp
    then have "text_le (format_RFC3339Nano t) (format_RFC3339Nano asOf)"
      using text_order_seconds [of t asOf] t'(2) assms(3) k(3) by (simp add: readable_def)
    then show ?thesis using listed_keys [OF assms(1,4)] id x(1) t'(1) r(2) \<open>t' = t\<close> by blast
  qed
qed

end

section \<open>The guarantees\<close>

text \<open>C18: What is stored is what is read, over any engine with the laws of \<open>sql_keys\<close>. After a key that is not revoked was created, looking it up by its token or by its id
  gives that key, its secret decrypted and its times parsed back to the nanosecond, provided its times lie in the years 0 to
  9999; apart from that only a failure of the database keeps the key from being found. A key with a later time, which
  the admin API accepts as an expiry, is stored all the same, and no lookup by its token or its id succeeds then or ever after,
  whatever creations, revocations and updates follow; updates that write late what they read earlier are included, except on
  this key, which no update can have read.\<close>

theorem durable_key_round_trip:
  assumes "sql_keys C E ok table rand_Read" "ok d" "sqlite_Create E C rand_Read d (Some k) = (d', Inr ())" "RevokedAt k = None"
    "\<forall>c. LateUpdate (ID k) c \<notin> set later"
  shows "if readable (CreatedAt k) \<and> (case ExpiresAt k of None \<Rightarrow> True | Some t \<Rightarrow> readable t)
    then sqlite_GetByToken E C d' (Token k) = (case db_by_token E d' (Token k) of
        ScanError e \<Rightarrow> Inl (StoreFailure (''scan key: '' @ e)) | _ \<Rightarrow> Inr k) \<and>
      sqlite_GetByID E C d' (ID k) = (case db_by_id E d' (ID k) of
        ScanError e \<Rightarrow> Inl (StoreFailure (''scan key: '' @ e)) | _ \<Rightarrow> Inr k)
    else let d'' = foldl (sqlite_step E C rand_Read) d' later in
      (\<exists>e. sqlite_GetByToken E C d'' (Token k) = Inl e) \<and> (\<exists>e. sqlite_GetByID E C d'' (ID k) = Inl e)"
proof -
  obtain r where r: "table d' (ID k) = Some r" "r_token r = Token k" "scanKey C (Row r) = (if \<not> readable (CreatedAt k) then Inl (StoreFailure ''parse created_at'')
      else if \<exists>t. ExpiresAt k = Some t \<and> \<not> readable t then Inl (StoreFailure ''parse expires_at'') else Inr k)"
    "unparsable r \<longleftrightarrow> \<not> readable (CreatedAt k) \<or> (\<exists>t. ExpiresAt k = Some t \<and> \<not> readable t)"
    using sql_keys.Create_reads [OF assms(1-4)] by blast
  have ok: "ok d'" using sql_keys.Create_stored [OF assms(1-3)] by blast
  show ?thesis
  proof (cases "unparsable r")
    case True
    obtain r' where r': "ok (foldl (sqlite_step E C rand_Read) d' later)"
        "table (foldl (sqlite_step E C rand_Read) d' later) (ID k) = Some r'" "r_token r' = r_token r" "unparsable r'"
      using sql_keys.unparsable_stays [OF assms(1) ok r(1) True assms(5)] by blast
    with sql_keys.unparsable_unread [OF assms(1) r'(1,2,4)] True r(2,4) show ?thesis
      by (auto simp: Let_def split: option.split)
  next
    case False
    then have "scanKey C (Row r) = Inr k" "readable (CreatedAt k) \<and> (case ExpiresAt k of None \<Rightarrow> True | Some t \<Rightarrow> readable t)"
      using r(3,4) by (auto split: option.split)
    then show ?thesis unfolding sql_keys.token_row [OF assms(1) ok r(1,2)] sql_keys.id_row [OF assms(1) ok r(1)]
      by (simp split: scanned.split)
  qed
qed

text \<open>The cipher and the key of the examples: a database with the key \<open>demo_key\<close>, and one that expires after 1 s.\<close>

definition demo_cipher :: cipher where "demo_cipher = aesGCMCipher (NewGCM (replicate 32 0))"

definition demo_db :: list_db where "demo_db = \<lparr>ld_columns = schema_columns, ld_rows = []\<rparr>"

definition created_db :: "VirtualKey \<Rightarrow> list_db" where
  "created_db k = demo_db\<lparr>ld_rows := [row_of k (projr (Encrypt demo_cipher demo_rand (UpstreamKey k)))]\<rparr>"

lemma demo_sql: "sql_keys demo_cipher list_engine ld_ok ld_tab demo_rand"
  unfolding demo_cipher_def by (rule list_sql.sql_keys_axioms)

lemma demo_ok: "ld_ok demo_db" "\<And>k. ld_ok (created_db k)"
  by (simp_all add: ld_ok_def demo_db_def created_db_def)

lemma demo_encrypts: "\<exists>c. Encrypt demo_cipher demo_rand s = Inr c \<and> Decrypt demo_cipher c = Inr s"
proof -
  have "\<exists>c. Encrypt demo_cipher demo_rand s = Inr c"
    by (simp add: demo_cipher_def aesGCMCipher_def aesGCM_Encrypt_def demo_rand_def Let_def)
  then show ?thesis using sql_keys.axioms(1) [OF demo_sql] cipher_laws.decrypt_encrypt sql_keys.random [OF demo_sql] by blast
qed

lemma demo_created:
  assumes "ID k \<noteq> []" "Token k \<noteq> []" "Upstream k = UpstreamOpenAI"
  shows "sqlite_Create list_engine demo_cipher demo_rand demo_db (Some k) = (created_db k, Inr ())"
proof -
  obtain c where "Encrypt demo_cipher demo_rand (UpstreamKey k) = Inr c" using demo_encrypts by blast
  then show ?thesis using assms by (simp add: sqlite_Create_def list_engine_def demo_db_def created_db_def)
qed

lemma demo_readable: "readable 0" "readable (10 ^ 9)" "readable (5 * 10 ^ 9)"
  by (simp_all add: readable_def year_of_def utc_day_def ns_per_day_def) (code_simp+)

lemma demo_no_scan_error: "db_by_token list_engine d t \<noteq> ScanError e"
  by (simp add: list_engine_def scan_find_def split: option.split)

lemma demo_lookup: "(case db_by_token list_engine d t of ScanError e \<Rightarrow> f e | _ \<Rightarrow> x) = x"
  using demo_no_scan_error [of d t] by (auto split: scanned.split)

definition short_key :: VirtualKey where
  "short_key = demo_key\<lparr>ExpiresAt := Some (10 ^ 9)\<rparr>"

lemma demo_CreatedAt [simp]: "CreatedAt demo_key = 0"
  by (simp add: demo_key_def)

definition late_key :: VirtualKey where
  "late_key = demo_key\<lparr>ExpiresAt := Some (10 ^ 21)\<rparr>"

lemma demo_late: "\<not> readable (10 ^ 21)"
  by (simp add: readable_def year_of_def utc_day_def ns_per_day_def) code_simp

theorem durable_key_round_trip_witness:
  "sqlite_GetByToken list_engine demo_cipher (created_db short_key) ''rein_live_0'' = Inr short_key \<and>
   (\<exists>e. sqlite_GetByID list_engine demo_cipher (foldl (sqlite_step list_engine demo_cipher demo_rand) (created_db late_key)
     [Op (OpUpdate ''key_0'' demo_patch), Op (OpRevoke 7 ''key_0'')]) ''key_0'' = Inl e)"
proof
  show "sqlite_GetByToken list_engine demo_cipher (created_db short_key) ''rein_live_0'' = Inr short_key"
    using durable_key_round_trip [OF demo_sql demo_ok(1) demo_created [of short_key], of "[]"] demo_readable
    by (simp add: demo_lookup short_key_def)
  show "\<exists>e. sqlite_GetByID list_engine demo_cipher (foldl (sqlite_step list_engine demo_cipher demo_rand) (created_db late_key)
     [Op (OpUpdate ''key_0'' demo_patch), Op (OpRevoke 7 ''key_0'')]) ''key_0'' = Inl e"
    using durable_key_round_trip [OF demo_sql demo_ok(1) demo_created [of late_key], of "[Op (OpUpdate ''key_0'' demo_patch), Op (OpRevoke 7 ''key_0'')]"]
      demo_late by (simp add: late_key_def Let_def del: foldl_Cons)
qed

text \<open>C11: Revocation survives in the database. Once a lookup has shown the key of a token revoked, every later
  lookup, whatever creations, revocations and updates ran in between and whether they failed or not, an update that had
  read the key before it was revoked and writes it back now included,
  gives that same revoked key, with the time of its first revocation, or reports that the database failed.\<close>

theorem durable_revocation_is_permanent:
  assumes "sql_keys C E ok table rand_Read" "ok d" "sqlite_GetByToken E C d t = Inr k" "RevokedAt k \<noteq> None"
    "d' = foldl (sqlite_step E C rand_Read) d later"
  shows "sqlite_GetByToken E C d' t = (case db_by_token E d' t of
    ScanError e \<Rightarrow> Inl (StoreFailure (''scan key: '' @ e)) | _ \<Rightarrow> Inr k)"
  unfolding assms(5) by (rule sql_keys.token_of_revoked [OF assms(1-4)])

definition revoked_db :: list_db where
  "revoked_db = demo_db\<lparr>ld_rows := [(hd (ld_rows (created_db demo_key)))\<lparr>r_revoked_at := Some (format_RFC3339Nano 0)\<rparr>]\<rparr>"

lemma demo_revoked: "ld_ok revoked_db"
  "sqlite_GetByToken list_engine demo_cipher revoked_db ''rein_live_0'' = Inr (demo_key\<lparr>RevokedAt := Some 0\<rparr>)"
proof -
  obtain c where c: "Encrypt demo_cipher demo_rand (UpstreamKey demo_key) = Inr c" "Decrypt demo_cipher c = Inr (UpstreamKey demo_key)"
    using demo_encrypts by blast
  have "time_Parse (format_RFC3339Nano 0) = Some 0" using demo_readable(1) by (intro time_Parse_format) (simp_all add: readable_def)
  then show "sqlite_GetByToken list_engine demo_cipher revoked_db ''rein_live_0'' = Inr (demo_key\<lparr>RevokedAt := Some 0\<rparr>)"
    using c by (simp add: sqlite_GetByToken_def queryOne_def list_engine_def scan_find_def revoked_db_def created_db_def
      row_of_def scanKey_def parse_opt_def format_opt_def)
qed (simp add: ld_ok_def revoked_db_def)

theorem durable_revocation_is_permanent_witness:
  "sqlite_GetByToken list_engine demo_cipher (foldl (sqlite_step list_engine demo_cipher demo_rand) revoked_db
     [LateUpdate ''key_0'' (ApplyTo demo_patch demo_key), Op (OpRevoke 9 ''key_0''), Op (OpCreate (Some demo_key))]) ''rein_live_0'' = Inr (demo_key\<lparr>RevokedAt := Some 0\<rparr>)"
  using durable_revocation_is_permanent [OF demo_sql demo_revoked _ refl,
      of "[LateUpdate ''key_0'' (ApplyTo demo_patch demo_key), Op (OpRevoke 9 ''key_0''), Op (OpCreate (Some demo_key))]"]
  by (simp add: demo_lookup del: foldl_Cons)

text \<open>C40: The expiry listing of the database compares texts, and is right to the second. In a database that only this
  program has written, \<open>ListExpiring\<close> gives no key that is revoked, that has no expiry, or that expires in a second later
  than the one asked for, and every live key whose expiry lies in an earlier second is in it; within one second the
  order of the texts may differ from the order of the times.\<close>

theorem durable_expiry_listing:
  assumes "sql_keys C E ok table rand_Read" "ok d0" "table d0 = (\<lambda>_. None)" "d = foldl (sqlite_step E C rand_Read) d0 ops"
    "readable asOf" "sqlite_ListExpiring E C d asOf = Inr ks"
  shows "(\<forall>k \<in> set ks. RevokedAt k = None \<and> (\<exists>t. ExpiresAt k = Some t \<and> t div ns_per_s \<le> asOf div ns_per_s)) \<and>
    (\<forall>i k t. sqlite_GetByID E C d i = Inr k \<and> RevokedAt k = None \<and> ExpiresAt k = Some t \<and> t div ns_per_s < asOf div ns_per_s \<longrightarrow>
      k \<in> set ks)"
proof -
  have r: "ok d \<and> (\<forall>r \<in> ran (table d). formatted r)"
    using sql_keys.rows_formatted [OF assms(1,2), of ops] assms(3) by (simp add: assms(4))
  note l = sql_keys.listed_within_second [OF assms(1) conjunct1 [OF r] conjunct2 [OF r] assms(5,6)]
  show ?thesis using l(1) l(2) by blast
qed

lemma short_listed: "sqlite_ListExpiring list_engine demo_cipher (created_db short_key) (5 * 10 ^ 9) = Inr [short_key]"
proof -
  obtain c where c: "Encrypt demo_cipher demo_rand (UpstreamKey short_key) = Inr c" "Decrypt demo_cipher c = Inr (UpstreamKey short_key)"
    using demo_encrypts by blast
  have "text_le (format_RFC3339Nano (10 ^ 9)) (format_RFC3339Nano (5 * 10 ^ 9))"
    using text_order_seconds [of "10 ^ 9" "5 * 10 ^ 9"] demo_readable by (simp add: readable_def ns_per_s_def)
  then have "db_expiring list_engine (created_db short_key) (format_RFC3339Nano (5 * 10 ^ 9)) = Inr ([Row (row_of short_key c)], None)"
    using c by (simp add: list_engine_def created_db_def order_by_def) (simp add: row_of_def format_opt_def short_key_def)
  moreover have "scanKey demo_cipher (Row (row_of short_key c)) = Inr short_key"
    using c demo_readable by (simp add: scanKey_row) (simp add: short_key_def demo_key_def)
  ultimately show ?thesis by (simp add: sqlite_ListExpiring_def)
qed

theorem durable_expiry_listing_witness:
  "RevokedAt short_key = None \<and> (\<exists>t. ExpiresAt short_key = Some t \<and> t div ns_per_s \<le> 5)"
proof -
  have "created_db short_key = foldl (sqlite_step list_engine demo_cipher demo_rand) demo_db [Op (OpCreate (Some short_key))]"
    using demo_created [of short_key] by (simp add: sqlite_apply_def short_key_def)
  from durable_expiry_listing [OF demo_sql demo_ok(1) _ this demo_readable(3) short_listed] show ?thesis
    by (simp add: demo_db_def ld_tab_def ns_per_s_def fun_eq_iff)
qed

end
