(* ===== verification/Rotate.thy ===== *)
theory Rotate
  imports Durable_Facts
begin

text \<open>
  \<open>internal/keys/rotate.go\<close> and \<open>cmd/rein-rotate-keys/main.go\<close>: rotation of the encryption key, a plan over all rows and then one
  transaction. The engine is a record \<open>rotate_db\<close> over the state \<open>'d\<close> of the file and the state \<open>'t\<close> of a transaction; what is not
  committed is dropped with its \<open>'t\<close>. A cancelled context is an error of the statement it interrupts. \<open>rands n\<close> is
  the random source of the \<open>n\<close>-th encryption.
\<close>

section \<open>Rotation\<close>

datatype rotate_error = PathRequired | NilOldCipher | NilNewCipher | DbError string string | ReencryptRow string cipher_error
  | NeitherKey string | IndexPanic | VerifyDecrypt string cipher_error

record RotateResult =
  Rotated :: nat
  Skipped :: nat
  Duration :: int

record rotationUpdate =
  upd_id :: string
  newCiphertext :: string

record ('d, 't) rotate_db =
  rt_Ping :: "'d \<Rightarrow> string option"
  rt_select :: "'d \<Rightarrow> (string \<times> string) result_set"
  rt_BeginTx :: "'d \<Rightarrow> string + 't"
  rt_Prepare :: "'t \<Rightarrow> string option"
  rt_update :: "'t \<Rightarrow> string \<Rightarrow> string \<Rightarrow> 't \<times> string option"
  rt_read :: "'t \<Rightarrow> string \<Rightarrow> string scanned"
  rt_Commit :: "'d \<Rightarrow> 't \<Rightarrow> 'd \<times> string option"

fun plan_rows :: "cipher \<Rightarrow> cipher \<Rightarrow> (nat \<Rightarrow> rand) \<Rightarrow> (string \<times> string) scanned list \<Rightarrow> string option \<Rightarrow>
    rotationUpdate list \<Rightarrow> nat \<Rightarrow> rotate_error + rotationUpdate list \<times> nat" where
  "plan_rows oldC newC rands [] rows_Err updates skipped =
     (case rows_Err of Some e \<Rightarrow> Inl (DbError ''iterate virtual_keys: '' e) | None \<Rightarrow> Inr (updates, skipped))"
| "plan_rows oldC newC rands (NoRows # rows) rows_Err updates skipped = plan_rows oldC newC rands rows rows_Err updates skipped"
| "plan_rows oldC newC rands (ScanError e # rows) rows_Err updates skipped = Inl (DbError ''scan virtual_keys row: '' e)"
| "plan_rows oldC newC rands (Row (i, enc) # rows) rows_Err updates skipped =
     (case Decrypt oldC enc of
        Inr secret \<Rightarrow> (case Encrypt newC (rands (length updates)) secret of
            Inl encErr \<Rightarrow> Inl (ReencryptRow i encErr)
          | Inr newCT \<Rightarrow> plan_rows oldC newC rands rows rows_Err (updates @ [\<lparr>upd_id = i, newCiphertext = newCT\<rparr>]) skipped)
      | Inl oldErr \<Rightarrow> (case Decrypt newC enc of
            Inr _ \<Rightarrow> plan_rows oldC newC rands rows rows_Err updates (skipped + 1)
          | Inl newErr \<Rightarrow> Inl (NeitherKey i)))"

definition planRotation :: "('d, 't) rotate_db \<Rightarrow> 'd \<Rightarrow> cipher \<Rightarrow> cipher \<Rightarrow> (nat \<Rightarrow> rand) \<Rightarrow> rotate_error + rotationUpdate list \<times> nat" where
  "planRotation R d oldC newC rands = (case rt_select R d of
     Inl e \<Rightarrow> Inl (DbError ''select virtual_keys: '' e)
   | Inr (rows, rows_Err) \<Rightarrow> plan_rows oldC newC rands rows rows_Err [] 0)"

fun run_updates :: "('d, 't) rotate_db \<Rightarrow> 't \<Rightarrow> rotationUpdate list \<Rightarrow> 't \<times> rotate_error option" where
  "run_updates R t [] = (t, None)"
| "run_updates R t (u # us) = (case rt_update R t (newCiphertext u) (upd_id u) of
     (t, Some e) \<Rightarrow> (t, Some (DbError (''update row '' @ upd_id u) e))
   | (t, None) \<Rightarrow> run_updates R t us)"

definition applyRotation :: "('d, 't) rotate_db \<Rightarrow> 'd \<Rightarrow> rotationUpdate list \<Rightarrow> cipher \<Rightarrow> 'd \<times> rotate_error option" where
  "applyRotation R d updates newC = (case rt_BeginTx R d of Inl e \<Rightarrow> (d, Some (DbError ''begin tx: '' e)) | Inr t \<Rightarrow>
     case rt_Prepare R t of Some e \<Rightarrow> (d, Some (DbError ''prepare update: '' e)) | None \<Rightarrow>
     case run_updates R t updates of (t, Some err) \<Rightarrow> (d, Some err) | (t, None) \<Rightarrow>
     case updates of [] \<Rightarrow> (d, Some IndexPanic) | u # us \<Rightarrow>
     let verifyID = upd_id u in
     case rt_read R t verifyID of
       NoRows \<Rightarrow> (d, Some (DbError (''verify row '' @ verifyID) ''sql: no rows in result set''))
     | ScanError e \<Rightarrow> (d, Some (DbError (''verify row '' @ verifyID) e))
     | Row stored \<Rightarrow> (case Decrypt newC stored of Inl err \<Rightarrow> (d, Some (VerifyDecrypt verifyID err)) | Inr _ \<Rightarrow>
         case rt_Commit R d t of (d, Some e) \<Rightarrow> (d, Some (DbError ''commit tx: '' e)) | (d, None) \<Rightarrow> (d, None)))"

text \<open>The state of the file after a run, \<open>None\<close> when it was not opened, and the result; \<open>elapsed\<close> is \<open>time.Since(start)\<close>.\<close>

definition RotateEncryption :: "(string \<Rightarrow> string + 'd) \<Rightarrow> ('d, 't) rotate_db \<Rightarrow> int \<Rightarrow> (nat \<Rightarrow> rand) \<Rightarrow>
    string \<Rightarrow> cipher option \<Rightarrow> cipher option \<Rightarrow> 'd option \<times> (rotate_error + RotateResult)" where
  "RotateEncryption sql_Open R elapsed rands path oldCipher newCipher =
     (if TrimSpace path = [] then (None, Inl PathRequired)
      else case oldCipher of None \<Rightarrow> (None, Inl NilOldCipher) | Some oldC \<Rightarrow>
      case newCipher of None \<Rightarrow> (None, Inl NilNewCipher) | Some newC \<Rightarrow>
      case sql_Open (sqlite_dsn path) of Inl e \<Rightarrow> (None, Inl (DbError ''open sqlite: '' e)) | Inr d \<Rightarrow>
      case rt_Ping R d of Some e \<Rightarrow> (Some d, Inl (DbError ''ping sqlite: '' e)) | None \<Rightarrow>
      case planRotation R d oldC newC rands of Inl err \<Rightarrow> (Some d, Inl err) | Inr (updates, skipped) \<Rightarrow>
      let res = \<lparr>Rotated = length updates, Skipped = skipped, Duration = elapsed\<rparr> in
      if length updates > 0 then
        (case applyRotation R d updates newC of (d, Some err) \<Rightarrow> (Some d, Inl err) | (d, None) \<Rightarrow> (Some d, Inr res))
      else (Some d, Inr res))"

section \<open>The command\<close>

text \<open>The part of the package \<open>flag\<close> the tool uses: string flags and one boolean flag, with one or two minus signs, their
  values after an equals sign or, for the strings, in the next argument. Parsing stops at the first argument that
  is not a flag.\<close>

record flags =
  dbFlag :: string
  oldKeyFlag :: string
  newKeyFlag :: string
  versionFlag :: bool

datatype flag_error = BadFlagSyntax string | FlagHelp | UndefinedFlag string | NeedsArgument string | InvalidBool string

definition ParseBool :: "string \<Rightarrow> bool option" where
  "ParseBool s = (if s \<in> set [''1'', ''t'', ''T'', ''TRUE'', ''true'', ''True''] then Some True
     else if s \<in> set [''0'', ''f'', ''F'', ''FALSE'', ''false'', ''False''] then Some False else None)"

definition set_string_flag :: "string \<Rightarrow> (string \<Rightarrow> flags \<Rightarrow> flags) option" where
  "set_string_flag name = (if name = ''db'' then Some (\<lambda>v. dbFlag_update (\<lambda>_. v))
     else if name = ''old-key'' then Some (\<lambda>v. oldKeyFlag_update (\<lambda>_. v))
     else if name = ''new-key'' then Some (\<lambda>v. newKeyFlag_update (\<lambda>_. v)) else None)"

text \<open>The name and the value of a flag, cut at the first equals sign behind its first character.\<close>

definition flag_parts :: "string \<Rightarrow> string \<times> string option" where
  "flag_parts s = (case s of [] \<Rightarrow> ([], None) | c # r \<Rightarrow>
     (c # takeWhile (\<lambda>x. x \<noteq> CHR ''='') r, case dropWhile (\<lambda>x. x \<noteq> CHR ''='') r of [] \<Rightarrow> None | _ # v \<Rightarrow> Some v))"

definition flag_name :: "string \<Rightarrow> string option" where
  "flag_name s = (if length s < 2 \<or> hd s \<noteq> CHR ''-'' then None
     else if s = ''--'' then None else Some (if s ! 1 = CHR ''-'' then drop 2 s else drop 1 s))"

fun fs_Parse :: "string list \<Rightarrow> flags \<Rightarrow> flag_error + flags" where
  "fs_Parse [] fs = Inr fs"
| "fs_Parse (s # args) fs = (case flag_name s of None \<Rightarrow> Inr fs | Some body \<Rightarrow>
     if body = [] \<or> hd body = CHR ''-'' \<or> hd body = CHR ''='' then Inl (BadFlagSyntax s)
     else let (name, v) = flag_parts body in
       if name = ''version'' then
         (case v of None \<Rightarrow> fs_Parse args (fs\<lparr>versionFlag := True\<rparr>)
          | Some v \<Rightarrow> (case ParseBool v of None \<Rightarrow> Inl (InvalidBool v) | Some b \<Rightarrow> fs_Parse args (fs\<lparr>versionFlag := b\<rparr>)))
       else (case set_string_flag name of
           None \<Rightarrow> Inl (if name = ''help'' \<or> name = ''h'' then FlagHelp else UndefinedFlag name)
         | Some set_flag \<Rightarrow> (case v of Some v \<Rightarrow> fs_Parse args (set_flag v fs)
             | None \<Rightarrow> (case args of [] \<Rightarrow> Inl (NeedsArgument name) | v # args \<Rightarrow> fs_Parse args (set_flag v fs)))))"

datatype run_error = FlagError flag_error | DbRequired | OldKeyRequired | NewKeyRequired | SameKey | UnsupportedScheme string
  | EmptyPath | InvalidOldKey cipher_error | InvalidNewKey cipher_error | RotateFailed rotate_error

datatype run_output = NoOutput | VersionLine | SummaryLine nat nat int

definition parseSQLiteURL :: "string \<Rightarrow> run_error + string" where
  "parseSQLiteURL dbURL = (let trimmed = TrimSpace dbURL in
     case CutPrefix trimmed ''sqlite:'' of None \<Rightarrow> Inl (UnsupportedScheme dbURL)
     | Some path \<Rightarrow> if TrimSpace path = [] then Inl EmptyPath else Inr path)"

definition cipherFromHex :: "string \<Rightarrow> cipher_error + cipher" where
  "cipherFromHex h = (case DecodeHexKey h of Inl err \<Rightarrow> Inl err | Inr raw \<Rightarrow> NewAESGCM raw)"

text \<open>\<open>Duration.Round(1_000_000)\<close> of a time span that is not negative: to the nearest millisecond, halves up.\<close>

definition round_ms :: "int \<Rightarrow> int" where
  "round_ms d = (let r = d mod 1000000 in if r + r < 1000000 then d - r else d + 1000000 - r)"

definition run_rotate :: "(string \<Rightarrow> string + 'd) \<Rightarrow> ('d, 't) rotate_db \<Rightarrow> int \<Rightarrow> (nat \<Rightarrow> rand) \<Rightarrow> string list \<Rightarrow>
    'd option \<times> run_output \<times> run_error option" where
  "run_rotate sql_Open R elapsed rands argv =
     (case fs_Parse argv \<lparr>dbFlag = [], oldKeyFlag = [], newKeyFlag = [], versionFlag = False\<rparr> of
        Inl err \<Rightarrow> (None, NoOutput, Some (FlagError err))
      | Inr fs \<Rightarrow>
        if versionFlag fs then (None, VersionLine, None)
        else if dbFlag fs = [] then (None, NoOutput, Some DbRequired)
        else if oldKeyFlag fs = [] then (None, NoOutput, Some OldKeyRequired)
        else if newKeyFlag fs = [] then (None, NoOutput, Some NewKeyRequired)
        else if oldKeyFlag fs = newKeyFlag fs then (None, NoOutput, Some SameKey)
        else case parseSQLiteURL (dbFlag fs) of Inl err \<Rightarrow> (None, NoOutput, Some err) | Inr path \<Rightarrow>
        case cipherFromHex (oldKeyFlag fs) of Inl err \<Rightarrow> (None, NoOutput, Some (InvalidOldKey err)) | Inr oldCipher \<Rightarrow>
        case cipherFromHex (newKeyFlag fs) of Inl err \<Rightarrow> (None, NoOutput, Some (InvalidNewKey err)) | Inr newCipher \<Rightarrow>
        case RotateEncryption sql_Open R elapsed rands path (Some oldCipher) (Some newCipher) of
          (d, Inl err) \<Rightarrow> (d, NoOutput, Some (RotateFailed err))
        | (d, Inr res) \<Rightarrow> (d, SummaryLine (Rotated res) (Skipped res) (round_ms (Duration res)), None))"

section \<open>What a run does\<close>

text \<open>The row that replaces \<open>r\<close>: under the new key, with the same secret.\<close>

definition rekeyed :: "cipher \<Rightarrow> cipher \<Rightarrow> key_row \<Rightarrow> key_row \<Rightarrow> bool" where
  "rekeyed oldC newC r r' \<longleftrightarrow> (case Decrypt oldC (r_upstream_key r) of
     Inr secret \<Rightarrow> \<exists>ct. r' = r\<lparr>r_upstream_key := ct\<rparr> \<and> Decrypt newC ct = Inr secret
   | Inl _ \<Rightarrow> r' = r \<and> (\<exists>secret. Decrypt newC (r_upstream_key r) = Inr secret))"

definition decrypts :: "cipher \<Rightarrow> key_row \<Rightarrow> bool" where
  "decrypts c r \<longleftrightarrow> (\<exists>secret. Decrypt c (r_upstream_key r) = Inr secret)"

lemma rekeyed_same_key: "rekeyed oldC newC r r' \<Longrightarrow> scanKey oldC (Row r) = Inr k \<Longrightarrow> scanKey newC (Row r') = Inr k"
  by (cases r) (auto simp: rekeyed_def scanKey_def split: sum.splits option.splits)

text \<open>What the engine promises of the statements: the selection gives every row once, a transaction starts from the
  table and sees its own updates, and only a successful commit makes them the table.\<close>

locale sql_rotation = cipher_laws newC "\<lambda>_. True" for newC +
  fixes R :: "('d, 't) rotate_db" and ok :: "'d \<Rightarrow> bool" and tab :: "'d \<Rightarrow> string \<Rightarrow> key_row option"
    and ttab :: "'t \<Rightarrow> string \<Rightarrow> key_row option" and rands :: "nat \<Rightarrow> rand"
  assumes random: "rand_fills (rands n)"
    and primary_key: "ok d \<Longrightarrow> tab d i = Some r \<Longrightarrow> r_id r = i"
    and select_all: "ok d \<Longrightarrow> rt_select R d = Inr (rows, None) \<Longrightarrow> \<forall>e. ScanError e \<notin> set rows \<Longrightarrow>
      \<exists>rs. distinct rs \<and> set rs = ran (tab d) \<and> rows = map (\<lambda>r. Row (r_id r, r_upstream_key r)) rs"
    and begin_tx: "ok d \<Longrightarrow> rt_BeginTx R d = Inr t \<Longrightarrow> ttab t = tab d"
    and update_tx: "rt_update R t ct i = (t', None) \<Longrightarrow>
      ttab t' = (case ttab t i of None \<Rightarrow> ttab t | Some r \<Rightarrow> (ttab t)(i \<mapsto> r\<lparr>r_upstream_key := ct\<rparr>))"
    and commit_ok: "ok d \<Longrightarrow> rt_Commit R d t = (d', None) \<Longrightarrow> ok d' \<and> tab d' = ttab t"
    and commit_fails: "ok d \<Longrightarrow> rt_Commit R d t = (d', Some e) \<Longrightarrow> ok d' \<and> tab d' = tab d"
begin

text \<open>The plan: one update per row that the old key opens, its new text carrying the same secret.\<close>

lemma plan_rows_ok:
  assumes "plan_rows oldC newC rands (map (\<lambda>r. Row (r_id r, r_upstream_key r)) rs) err us n = Inr (us', n')"
  shows "err = None \<and> (\<exists>vs. us' = us @ vs \<and> map upd_id vs = map r_id (filter (decrypts oldC) rs) \<and>
    list_all2 (\<lambda>v r. Decrypt newC (newCiphertext v) = Decrypt oldC (r_upstream_key r)) vs (filter (decrypts oldC) rs)) \<and>
    n' + length us' = n + length us + length rs \<and> (\<forall>r \<in> set rs. decrypts oldC r \<or> decrypts newC r)"
  using assms
proof (induction rs arbitrary: us n)
  case Nil
  then show ?case by (auto split: option.splits)
next
  case (Cons r rs)
  show ?case
  proof (cases "Decrypt oldC (r_upstream_key r)")
    case (Inr secret)
    then obtain ct where ct: "Encrypt newC (rands (length us)) secret = Inr ct"
      and next_rows: "plan_rows oldC newC rands (map (\<lambda>r. Row (r_id r, r_upstream_key r)) rs) err
        (us @ [\<lparr>upd_id = r_id r, newCiphertext = ct\<rparr>]) n = Inr (us', n')"
      using Cons.prems by (auto split: sum.splits)
    have "Decrypt newC ct = Inr secret" by (rule decrypt_encrypt [OF random TrueI ct])
    moreover have "decrypts oldC r" using Inr by (simp add: decrypts_def)
    moreover note Cons.IH [OF next_rows]
    ultimately show ?thesis using Inr by auto
  next
    case (Inl e)
    then obtain secret where "Decrypt newC (r_upstream_key r) = Inr secret"
      and next_rows: "plan_rows oldC newC rands (map (\<lambda>r. Row (r_id r, r_upstream_key r)) rs) err us (n + 1) = Inr (us', n')"
      using Cons.prems by (auto split: sum.splits)
    moreover have "\<not> decrypts oldC r" using Inl by (simp add: decrypts_def)
    moreover note Cons.IH [OF next_rows]
    ultimately show ?thesis by (auto simp: decrypts_def)
  qed
qed

lemma plan_rows_no_error: "plan_rows oldC newC rands rows err us n = Inr x \<Longrightarrow> err = None \<and> (\<forall>e. ScanError e \<notin> set rows)"
  by (induction oldC newC rands rows err us n rule: plan_rows.induct) (auto split: sum.splits option.splits)

lemma run_updates_ok:
  "run_updates R t us = (t', None) \<Longrightarrow> distinct (map upd_id us) \<Longrightarrow>
    ttab t' i = (case ttab t i of None \<Rightarrow> None | Some r \<Rightarrow> (case find (\<lambda>u. upd_id u = i) us of
      None \<Rightarrow> Some r | Some u \<Rightarrow> Some (r\<lparr>r_upstream_key := newCiphertext u\<rparr>)))"
proof (induction us arbitrary: t)
  case (Cons u us)
  then obtain t1 where t1: "rt_update R t (newCiphertext u) (upd_id u) = (t1, None)" "run_updates R t1 us = (t', None)"
    by (cases "rt_update R t (newCiphertext u) (upd_id u)"; cases "snd (rt_update R t (newCiphertext u) (upd_id u))") auto
  have "find (\<lambda>v. upd_id v = upd_id u) us = None" using Cons.prems(2) by (simp add: find_None_iff image_iff) (metis imageI)
  then show ?case using Cons.IH [OF t1(2)] Cons.prems(2) update_tx [OF t1(1)]
    by (cases "ttab t (upd_id u)") (auto split: option.split)
qed (simp split: option.split)

lemma applyRotation_cases:
  assumes "ok d" "applyRotation R d us newC = (d', x)" "us \<noteq> []"
  shows "ok d' \<and> (case x of Some e \<Rightarrow> tab d' = tab d | None \<Rightarrow> \<exists>t t'. ttab t = tab d \<and> run_updates R t us = (t', None) \<and> tab d' = ttab t')"
proof (cases "rt_BeginTx R d")
  case (Inr t)
  obtain t' y where u: "run_updates R t us = (t', y)" by (cases "run_updates R t us")
  obtain d1 z where c: "rt_Commit R d t' = (d1, z)" by (cases "rt_Commit R d t'")
  have z: "ok d1 \<and> (case z of Some e \<Rightarrow> tab d1 = tab d | None \<Rightarrow> tab d1 = ttab t')"
    using c commit_ok [OF assms(1)] commit_fails [OF assms(1)] by (cases z) auto
  have "(d' = d \<and> x \<noteq> None) \<or> (d' = d1 \<and> y = None \<and> (z = None \<longleftrightarrow> x = None))"
    using assms(2,3) Inr u c by (auto simp: applyRotation_def Let_def split: option.splits list.splits scanned.splits sum.splits)
  then show ?thesis using assms(1) z u begin_tx [OF assms(1) Inr] by (auto split: option.splits)
qed (use assms in \<open>auto simp: applyRotation_def\<close>)

lemma updated_row:
  assumes "ok d" "set rs = ran (tab d)" "tab d i = Some r" "map upd_id us = map r_id (filter (decrypts oldC) rs)"
    "list_all2 (\<lambda>v r. Decrypt newC (newCiphertext v) = Decrypt oldC (r_upstream_key r)) us (filter (decrypts oldC) rs)"
  shows "case find (\<lambda>u. upd_id u = i) us of None \<Rightarrow> \<not> decrypts oldC r
    | Some u \<Rightarrow> decrypts oldC r \<and> Decrypt newC (newCiphertext u) = Decrypt oldC (r_upstream_key r)"
proof -
  let ?f = "filter (decrypts oldC) rs"
  have r: "r \<in> set rs" "r_id r = i" using assms(1-3) primary_key by (auto simp: ran_def)
  have same: "x = r" if "x \<in> set rs" "r_id x = i" for x
  proof -
    have "x \<in> ran (tab d)" using that(1) assms(2) by simp
    then obtain j where "tab d j = Some x" by (auto simp: ran_def)
    then show ?thesis using that(2) assms(1,3) primary_key by fastforce
  qed
  have id: "upd_id (us ! n) = r_id (?f ! n)" "?f ! n \<in> set ?f"
    "Decrypt newC (newCiphertext (us ! n)) = Decrypt oldC (r_upstream_key (?f ! n))" if "n < length us" for n
  proof -
    have l: "length us = length ?f" using assms(4) map_eq_imp_length_eq by blast
    show "upd_id (us ! n) = r_id (?f ! n)" using assms(4) that l by (metis nth_map)
    show "?f ! n \<in> set ?f" by (rule nth_mem) (use that l in simp)
    show "Decrypt newC (newCiphertext (us ! n)) = Decrypt oldC (r_upstream_key (?f ! n))" using assms(5) that by (rule list_all2_nthD)
  qed
  show ?thesis
  proof (cases "find (\<lambda>u. upd_id u = i) us")
    case None
    have "i \<notin> set (map upd_id us)" using None by (auto simp: find_None_iff)
    then have "i \<notin> r_id ` set ?f" unfolding assms(4) by simp
    then show ?thesis using None r by auto
  next
    case (Some u)
    then obtain n where n: "n < length us" "upd_id (us ! n) = i" "u = us ! n" by (auto simp: find_Some_iff)
    then have "?f ! n = r" using same id(1,2) by fastforce
    then show ?thesis using Some n(3) id [OF n(1)] by auto
  qed
qed

lemma rotation_rekeys:
  assumes "ok d" "planRotation R d oldC newC rands = Inr (us, n)"
    "us = [] \<and> d' = d \<or> us \<noteq> [] \<and> applyRotation R d us newC = (d', None)"
  shows "ok d' \<and> (\<forall>i. case tab d i of None \<Rightarrow> tab d' i = None | Some r \<Rightarrow> \<exists>r'. tab d' i = Some r' \<and> rekeyed oldC newC r r') \<and>
    length us = card {r \<in> ran (tab d). decrypts oldC r} \<and> length us + n = card (dom (tab d))"
proof -
  obtain rows err where sel: "rt_select R d = Inr (rows, err)" "plan_rows oldC newC rands rows err [] 0 = Inr (us, n)"
    using assms(2) by (auto simp: planRotation_def split: sum.splits)
  have "err = None" "\<forall>e. ScanError e \<notin> set rows" using plan_rows_no_error [OF sel(2)] by blast+
  from select_all [OF assms(1) sel(1) [unfolded this(1)] this(2)]
  obtain rs where rs: "distinct rs" "set rs = ran (tab d)" "rows = map (\<lambda>r. Row (r_id r, r_upstream_key r)) rs" by blast
  have us: "map upd_id us = map r_id (filter (decrypts oldC) rs)"
    "list_all2 (\<lambda>v r. Decrypt newC (newCiphertext v) = Decrypt oldC (r_upstream_key r)) us (filter (decrypts oldC) rs)"
    "n + length us = length rs" "\<forall>r \<in> set rs. decrypts oldC r \<or> decrypts newC r"
    using plan_rows_ok [OF sel(2) [unfolded rs(3)]] by auto
  have ids: "inj_on r_id (ran (tab d))" "dom (tab d) = r_id ` ran (tab d)"
    using primary_key [OF assms(1)] by (auto simp: inj_on_def ran_def dom_def)
  have d: "distinct (map upd_id us)" using us(1) rs(1,2) inj_on_subset [OF ids(1), of "set (filter (decrypts oldC) rs)"] by (simp add: distinct_map)
  have "length us = length (filter (decrypts oldC) rs)" using us(1) map_eq_imp_length_eq by blast
  then have count: "length us = card {r \<in> ran (tab d). decrypts oldC r}"
    using distinct_card [of "filter (decrypts oldC) rs"] rs(1,2) by simp
  have total: "length us + n = card (dom (tab d))"
    using us(3) distinct_card [OF rs(1)] rs(2) card_image [OF ids(1)] ids(2) by simp
  have find: "tab d' i = (case tab d i of None \<Rightarrow> None | Some r \<Rightarrow> (case find (\<lambda>u. upd_id u = i) us of
      None \<Rightarrow> Some r | Some u \<Rightarrow> Some (r\<lparr>r_upstream_key := newCiphertext u\<rparr>)))" for i
    using assms(3)
  proof
    assume "us = [] \<and> d' = d"
    then show ?thesis by (simp split: option.split)
  next
    assume a: "us \<noteq> [] \<and> applyRotation R d us newC = (d', None)"
    then obtain t t' where "ttab t = tab d" "run_updates R t us = (t', None)" "tab d' = ttab t'"
      using applyRotation_cases [OF assms(1) conjunct2 [OF a] conjunct1 [OF a]] by auto
    then show ?thesis using run_updates_ok [OF _ d] by simp
  qed
  have ok: "ok d'" using assms(1,3) applyRotation_cases by blast
  have row: "\<exists>r'. tab d' i = Some r' \<and> rekeyed oldC newC r r'" if "tab d i = Some r" for i r
  proof -
    have mem: "r \<in> set rs" using that rs(2) by (auto simp: ran_def)
    show ?thesis using updated_row [OF assms(1) rs(2) that us(1,2)] us(4) mem find [of i] that
      by (auto simp: rekeyed_def decrypts_def split: option.splits sum.splits)
  qed
  show ?thesis using ok row find count total by (auto split: option.split)
qed

lemma RotateEncryption_cases:
  assumes "sql_Open (sqlite_dsn path) = Inr d" "ok d"
    "RotateEncryption sql_Open R elapsed rands path (Some oldC) (Some newC) = (Some d', result)"
  shows "ok d' \<and> (case result of Inl err \<Rightarrow> tab d' = tab d
    | Inr res \<Rightarrow> (\<forall>i. case tab d i of None \<Rightarrow> tab d' i = None | Some r \<Rightarrow> \<exists>r'. tab d' i = Some r' \<and> rekeyed oldC newC r r') \<and>
        Rotated res = card {r \<in> ran (tab d). decrypts oldC r} \<and> Rotated res + Skipped res = card (dom (tab d)))"
proof (cases "rt_Ping R d = None \<and> (\<exists>us n. planRotation R d oldC newC rands = Inr (us, n))")
  case True
  then obtain us n where p: "rt_Ping R d = None" "planRotation R d oldC newC rands = Inr (us, n)" by blast
  obtain d1 x where a: "applyRotation R d us newC = (d1, x)" by (cases "applyRotation R d us newC")
  have t: "TrimSpace path \<noteq> []" using assms(3) by (auto simp: RotateEncryption_def split: if_splits)
  have run: "RotateEncryption sql_Open R elapsed rands path (Some oldC) (Some newC) =
      (let res = \<lparr>Rotated = length us, Skipped = n, Duration = elapsed\<rparr> in
       if us = [] then (Some d, Inr res) else (Some d1, case x of Some err \<Rightarrow> Inl err | None \<Rightarrow> Inr res))"
    by (simp add: RotateEncryption_def Let_def p a t assms(1) split: option.split)
  show ?thesis
  proof (cases "us = [] \<or> x = None")
    case True
    then have "us = [] \<and> d' = d \<or> us \<noteq> [] \<and> applyRotation R d us newC = (d', None)"
      and "result = Inr \<lparr>Rotated = length us, Skipped = n, Duration = elapsed\<rparr>"
      using assms(3) a unfolding run by (auto simp: Let_def split: if_splits)
    with rotation_rekeys [OF assms(2) p(2), of d'] show ?thesis by simp
  next
    case False
    then obtain e where e: "us \<noteq> []" "x = Some e" by blast
    then have "d' = d1" "result = Inl e" using assms(3) unfolding run by (simp_all add: Let_def)
    with applyRotation_cases [OF assms(2) a e(1)] e(2) show ?thesis by simp
  qed
next
  case False
  have "d' = d \<and> (\<exists>err. result = Inl err)"
  proof (cases "rt_Ping R d")
    case None
    then obtain err where "planRotation R d oldC newC rands = Inl err"
      using False by (cases "planRotation R d oldC newC rands") auto
    then show ?thesis using assms(1,3) None by (auto simp: RotateEncryption_def split: if_splits)
  qed (use assms(1,3) in \<open>auto simp: RotateEncryption_def split: if_splits\<close>)
  then show ?thesis using assms(2) by auto
qed

end

text \<open>A list as the table, and another as the state of a transaction.\<close>

definition list_rotate :: "(list_db, list_db) rotate_db" where
  "list_rotate = \<lparr>rt_Ping = (\<lambda>_. None), rt_select = (\<lambda>d. Inr (map (\<lambda>r. Row (r_id r, r_upstream_key r)) (ld_rows d), None)),
     rt_BeginTx = Inr, rt_Prepare = (\<lambda>_. None),
     rt_update = (\<lambda>t ct i. (t\<lparr>ld_rows := map (\<lambda>r. if r_id r = i then r\<lparr>r_upstream_key := ct\<rparr> else r) (ld_rows t)\<rparr>, None)),
     rt_read = (\<lambda>t i. case ld_tab t i of None \<Rightarrow> NoRows | Some r \<Rightarrow> Row (r_upstream_key r)),
     rt_Commit = (\<lambda>d t. if ld_ok t then (t, None) else (d, Some ''constraint failed''))\<rparr>"

lemma list_rotate_update:
  "map_of (map (\<lambda>r. (r_id r, r)) (map (\<lambda>r. if r_id r = i then r\<lparr>r_upstream_key := ct\<rparr> else r) rs)) =
    (case map_of (map (\<lambda>r. (r_id r, r)) rs) i of None \<Rightarrow> map_of (map (\<lambda>r. (r_id r, r)) rs)
     | Some r \<Rightarrow> (map_of (map (\<lambda>r. (r_id r, r)) rs))(i \<mapsto> r\<lparr>r_upstream_key := ct\<rparr>))"
  by (induction rs) (auto simp: fun_eq_iff split: option.splits)

lemma list_rotate_tab:
  "ld_tab (t\<lparr>ld_rows := map (\<lambda>r. if r_id r = i then r\<lparr>r_upstream_key := ct\<rparr> else r) (ld_rows t)\<rparr>) =
    (case ld_tab t i of None \<Rightarrow> ld_tab t | Some r \<Rightarrow> (ld_tab t)(i \<mapsto> r\<lparr>r_upstream_key := ct\<rparr>))"
proof -
  have "ld_rows (t\<lparr>ld_rows := rs\<rparr>) = rs" for rs by simp
  then show ?thesis by (simp only: ld_tab_def list_rotate_update)
qed

interpretation list_rot: sql_rotation "aesGCMCipher (NewGCM key)" list_rotate ld_ok ld_tab ld_tab "\<lambda>_. demo_rand" for key
proof (unfold_locales, goal_cases)
  case (3 d rows)
  then show ?case
    by (intro exI [of _ "ld_rows d"]) (auto simp: list_rotate_def ld_ok_def distinct_map ran_def ld_tab_Some)
qed (auto simp: rand_fills_def demo_rand_def ld_tab_Some list_rotate_def list_rotate_tab split: if_splits)

section \<open>The guarantees\<close>

text \<open>C13: A rotation is all or nothing. Whatever step fails, a row neither key opens included, the table is as it was. When it
  succeeds no row is added or lost, every row the old key opened is now opened by the new one and gives the same secret,
  every other row is unchanged and was already under the new key, the two numbers reported add up to the rows of the table, and
  a lookup with the new key gives the key that a lookup with the old one gave.\<close>

theorem rotation_is_all_or_nothing:
  assumes "sql_rotation newC R ok table ttable rands" "ok d" "sql_Open (sqlite_dsn path) = Inr d"
    "RotateEncryption sql_Open R elapsed rands path (Some oldC) (Some newC) = (Some d', result)"
  shows "case result of Inl err \<Rightarrow> table d' = table d
    | Inr res \<Rightarrow> Rotated res + Skipped res = card (dom (table d)) \<and> dom (table d') = dom (table d) \<and>
        (\<forall>i r. table d i = Some r \<longrightarrow> (\<exists>r'. table d' i = Some r' \<and>
          (case Decrypt oldC (r_upstream_key r) of
             Inr secret \<Rightarrow> \<exists>ct. r' = r\<lparr>r_upstream_key := ct\<rparr> \<and> Decrypt newC ct = Inr secret
           | Inl _ \<Rightarrow> r' = r \<and> (\<exists>secret. Decrypt newC (r_upstream_key r) = Inr secret)) \<and>
          (\<forall>k. scanKey oldC (Row r) = Inr k \<longrightarrow> scanKey newC (Row r') = Inr k)))"
proof (cases result)
  case (Inr res)
  note R = sql_rotation.RotateEncryption_cases [OF assms(1,3,2,4)]
  then have rows: "case table d i of None \<Rightarrow> table d' i = None | Some r \<Rightarrow> \<exists>r'. table d' i = Some r' \<and> rekeyed oldC newC r r'" for i
    using Inr by simp
  have "dom (table d') = dom (table d)"
  proof -
    have "table d' i = None \<longleftrightarrow> table d i = None" for i using rows [of i] by (auto split: option.splits)
    then show ?thesis by (auto simp: dom_def)
  qed
  moreover have "\<exists>r'. table d' i = Some r' \<and> rekeyed oldC newC r r' \<and> (\<forall>k. scanKey oldC (Row r) = Inr k \<longrightarrow> scanKey newC (Row r') = Inr k)"
    if "table d i = Some r" for i r using rows [of i] that rekeyed_same_key by fastforce
  ultimately show ?thesis using R Inr by (simp add: rekeyed_def)
qed (use sql_rotation.RotateEncryption_cases [OF assms(1,3,2,4)] in simp)

text \<open>The command does nothing but one such rotation: whenever it opened the file and reports an error, the table is unchanged.\<close>

lemma run_rotate_error_changes_nothing:
  assumes "\<And>key. sql_rotation (aesGCMCipher (NewGCM key)) R ok table ttable rands" "\<And>dsn d. sql_Open dsn = Inr d \<Longrightarrow> ok d"
    "run_rotate sql_Open R elapsed rands argv = (Some d', out, Some err)"
  shows "\<exists>path d. sql_Open (sqlite_dsn path) = Inr d \<and> table d' = table d"
proof -
  obtain path oldC newC e where run: "RotateEncryption sql_Open R elapsed rands path (Some oldC) (Some newC) = (Some d', Inl e)"
      "\<exists>h. cipherFromHex h = Inr newC"
    using assms(3) by (auto simp: run_rotate_def Let_def split: sum.splits if_splits prod.splits) blast
  then obtain h where h: "cipherFromHex h = Inr newC" by blast
  then obtain key where key: "newC = aesGCMCipher (NewGCM key)"
    by (cases "DecodeHexKey h") (auto simp: cipherFromHex_def NewAESGCM_def split: if_splits)
  obtain d where d: "sql_Open (sqlite_dsn path) = Inr d"
    using run(1) by (auto simp: RotateEncryption_def split: if_splits sum.splits)
  from sql_rotation.RotateEncryption_cases [OF assms(1) d assms(2) [OF d] run(1) [unfolded key]] d show ?thesis by auto
qed

text \<open>A database of the time before encryption, with the pass-through cipher as the old one.\<close>

definition plain_db :: list_db where
  "plain_db = demo_db\<lparr>ld_rows := [row_of demo_key ''sk-1'']\<rparr>"

lemma plain_ok: "ld_ok plain_db" "ld_tab plain_db = [''key_0'' \<mapsto> row_of demo_key ''sk-1'']"
  by (auto simp: ld_ok_def ld_tab_def plain_db_def row_of_def)

lemma demo_rotation: "sql_rotation demo_cipher list_rotate ld_ok ld_tab ld_tab (\<lambda>_. demo_rand)"
  unfolding demo_cipher_def by (rule list_rot.sql_rotation_axioms)

lemma demo_rotated: "\<exists>c. Encrypt demo_cipher demo_rand ''sk-1'' = Inr c \<and>
  RotateEncryption (\<lambda>_. Inr plain_db) list_rotate 0 (\<lambda>_. demo_rand) ''r'' (Some NoopCipher) (Some demo_cipher) =
    (Some (plain_db\<lparr>ld_rows := [row_of demo_key c]\<rparr>), Inr \<lparr>Rotated = 1, Skipped = 0, Duration = 0\<rparr>)"
proof -
  obtain c where c: "Encrypt demo_cipher demo_rand ''sk-1'' = Inr c" "Decrypt demo_cipher c = Inr ''sk-1''"
    using demo_encrypts by blast
  have n: "Decrypt NoopCipher ''sk-1'' = Inr ''sk-1''" by (simp add: NoopCipher_def HasPrefix_def aesGCMTag_def)
  have t: "TrimSpace ''r'' \<noteq> []" by (rule TrimSpace_visible [of "CHR ''r''"]) (simp_all add: visible_def)
  show ?thesis
    using c n t by (intro exI [of _ c]) (simp add: RotateEncryption_def planRotation_def applyRotation_def list_rotate_def plain_db_def
      row_of_def ld_ok_def ld_tab_def Let_def)
qed

theorem rotation_is_all_or_nothing_witness:
  "\<exists>d' c. RotateEncryption (\<lambda>_. Inr plain_db) list_rotate 0 (\<lambda>_. demo_rand) ''r'' (Some NoopCipher) (Some demo_cipher) =
      (Some d', Inr \<lparr>Rotated = 1, Skipped = 0, Duration = 0\<rparr>) \<and>
    ld_tab d' ''key_0'' = Some (row_of demo_key c) \<and> Decrypt demo_cipher c = Inr ''sk-1''"
proof -
  obtain d' where d': "RotateEncryption (\<lambda>_. Inr plain_db) list_rotate 0 (\<lambda>_. demo_rand) ''r'' (Some NoopCipher) (Some demo_cipher) =
      (Some d', Inr \<lparr>Rotated = 1, Skipped = 0, Duration = 0\<rparr>)" using demo_rotated by blast
  have n: "Decrypt NoopCipher ''sk-1'' = Inr ''sk-1''" by (simp add: NoopCipher_def HasPrefix_def aesGCMTag_def)
  have row: "ld_tab plain_db ''key_0'' = Some (row_of demo_key ''sk-1'')" "r_upstream_key (row_of demo_key ''sk-1'') = ''sk-1''"
    by (simp_all add: plain_ok(2)) (simp add: row_of_def)
  obtain r' where r': "ld_tab d' ''key_0'' = Some r'" "case Decrypt NoopCipher (r_upstream_key (row_of demo_key ''sk-1'')) of
      Inr secret \<Rightarrow> \<exists>ct. r' = (row_of demo_key ''sk-1'')\<lparr>r_upstream_key := ct\<rparr> \<and> Decrypt demo_cipher ct = Inr secret
    | Inl _ \<Rightarrow> r' = row_of demo_key ''sk-1'' \<and> (\<exists>secret. Decrypt demo_cipher (r_upstream_key (row_of demo_key ''sk-1'')) = Inr secret)"
    using rotation_is_all_or_nothing [OF demo_rotation plain_ok(1) refl d'] row(1) unfolding sum.case by blast
  then obtain ct where "r' = (row_of demo_key ''sk-1'')\<lparr>r_upstream_key := ct\<rparr>" "Decrypt demo_cipher ct = Inr ''sk-1''"
    unfolding row(2) n by auto
  then show ?thesis using d' r'(1) by (intro exI [of _ d'] exI [of _ ct]) (simp add: row_of_def)
qed









end
