(* ===== verification/Sqlite_Meter.thy ===== *)
theory Sqlite_Meter
  imports Meter Sqlite_Keys
begin

text \<open>
  \<open>internal/meter/sqlite.go\<close>: the durable spend meter. The engine is a record \<open>spend_db\<close> over the state \<open>'d\<close> of the
  database and the state \<open>'t\<close> of a transaction, with the laws of \<open>sql_spend\<close>; the pool of one connection makes every statement
  and transaction atomic. The meter then meets the contract \<open>spend_meter\<close> of the one in memory, over what was recorded without
  an error.
\<close>

record ('d, 't) spend_db =
  sp_Ping :: "'d \<Rightarrow> string option"
  sp_Exec :: "'d \<Rightarrow> string \<Rightarrow> 'd \<times> string option"
  sp_select :: "'d \<Rightarrow> string \<Rightarrow> string \<Rightarrow> string \<Rightarrow> (string \<times> f64) result_set"
  sp_BeginTx :: "'d \<Rightarrow> string + 't"
  sp_upsert :: "'t \<Rightarrow> string \<Rightarrow> string \<Rightarrow> f64 \<Rightarrow> 't \<times> string option"
  sp_Commit :: "'d \<Rightarrow> 't \<Rightarrow> 'd \<times> string option"

definition sqliteMeterSchema :: string where
  "sqliteMeterSchema = join_lines
     [[],
      ''CREATE TABLE IF NOT EXISTS spend ('',
      tab # ''key_id  TEXT NOT NULL,'',
      tab # ''period  TEXT NOT NULL,'',
      tab # ''amount  REAL NOT NULL,'',
      tab # ''PRIMARY KEY (key_id, period)'',
      '') WITHOUT ROWID;'']"

definition sqliteMeter_New :: "(string \<Rightarrow> string + 'd) \<Rightarrow> ('d, 't) spend_db \<Rightarrow> string \<Rightarrow> string + 'd" where
  "sqliteMeter_New sql_Open E path =
     (if TrimSpace path = [] then Inl ''sqlite path is required''
      else case sql_Open (sqlite_dsn path) of Inl e \<Rightarrow> Inl (''open sqlite: '' @ e) | Inr d \<Rightarrow>
        case sp_Ping E d of Some e \<Rightarrow> Inl (''ping sqlite: '' @ e) | None \<Rightarrow>
        case sp_Exec E d sqliteMeterSchema of (d, Some e) \<Rightarrow> Inl (''apply meter schema: '' @ e) | (d, None) \<Rightarrow> Inr d)"

text \<open>The loop over the result set, with the two totals it sets.\<close>

fun read_spend :: "string \<Rightarrow> string \<Rightarrow> (string \<times> f64) scanned list \<Rightarrow> string option \<Rightarrow> f64 \<Rightarrow> f64 \<Rightarrow> string + f64 \<times> f64" where
  "read_spend dayKey monthKey [] rows_Err daySpend monthSpend =
     (case rows_Err of Some e \<Rightarrow> Inl (''iterate spend: '' @ e) | None \<Rightarrow> Inr (daySpend, monthSpend))"
| "read_spend dayKey monthKey (NoRows # rows) rows_Err daySpend monthSpend = read_spend dayKey monthKey rows rows_Err daySpend monthSpend"
| "read_spend dayKey monthKey (ScanError e # rows) rows_Err daySpend monthSpend = Inl (''scan spend: '' @ e)"
| "read_spend dayKey monthKey (Row (period, amount) # rows) rows_Err daySpend monthSpend =
     (if period = dayKey then read_spend dayKey monthKey rows rows_Err amount monthSpend
      else if period = monthKey then read_spend dayKey monthKey rows rows_Err daySpend amount
      else read_spend dayKey monthKey rows rows_Err daySpend monthSpend)"

definition sqliteMeter_Check :: "('d, 't) spend_db \<Rightarrow> 'd \<Rightarrow> instant \<Rightarrow> string \<Rightarrow> f64 \<Rightarrow> f64 \<Rightarrow> meter_error option" where
  "sqliteMeter_Check E d now keyID dailyCap monthCap =
     (if f64_le dailyCap (Fin 0) \<and> f64_le monthCap (Fin 0) then None
      else let dayKey = dayPeriodKey now; monthKey = monthPeriodKey now in
        case sp_select E d keyID dayKey monthKey of Inl e \<Rightarrow> Some (MeterFailure (''query spend: '' @ e)) | Inr (rows, rows_Err) \<Rightarrow>
        case read_spend dayKey monthKey rows rows_Err (Fin 0) (Fin 0) of Inl e \<Rightarrow> Some (MeterFailure e) | Inr (daySpend, monthSpend) \<Rightarrow>
        if f64_lt (Fin 0) dailyCap \<and> f64_le dailyCap daySpend then Some ErrBudgetExceeded
        else if f64_lt (Fin 0) monthCap \<and> f64_le monthCap monthSpend then Some ErrBudgetExceeded
        else None)"

definition sqliteMeter_Record :: "('d, 't) spend_db \<Rightarrow> 'd \<Rightarrow> instant \<Rightarrow> string \<Rightarrow> f64 \<Rightarrow> 'd \<times> meter_error option" where
  "sqliteMeter_Record E d now keyID cost =
     (if f64_le cost (Fin 0) then (d, None)
      else let dayKey = dayPeriodKey now; monthKey = monthPeriodKey now in
        case sp_BeginTx E d of Inl e \<Rightarrow> (d, Some (MeterFailure (''begin tx: '' @ e))) | Inr t \<Rightarrow>
        case sp_upsert E t keyID dayKey cost of (t, Some e) \<Rightarrow> (d, Some (MeterFailure (''upsert day spend: '' @ e))) | (t, None) \<Rightarrow>
        case sp_upsert E t keyID monthKey cost of (t, Some e) \<Rightarrow> (d, Some (MeterFailure (''upsert month spend: '' @ e))) | (t, None) \<Rightarrow>
        case sp_Commit E d t of (d, Some e) \<Rightarrow> (d, Some (MeterFailure (''commit tx: '' @ e))) | (d, None) \<Rightarrow> (d, None))"

section \<open>What SQL promises\<close>

text \<open>The table has one amount per key and period. A transaction starts from it, an upsert adds in IEEE arithmetic to the
  amount it finds, or to zero, and only a successful commit makes the result the table.\<close>

locale sql_spend =
  fixes E :: "('d, 't) spend_db" and init :: 'd
    and spend :: "'d \<Rightarrow> string \<Rightarrow> string \<Rightarrow> f64 option" and tspend :: "'t \<Rightarrow> string \<Rightarrow> string \<Rightarrow> f64 option"
  assumes init_empty: "spend init k p = None"
    and select_in: "sp_select E d k p q = Inr (rows, None) \<Longrightarrow> \<forall>e. ScanError e \<notin> set rows \<Longrightarrow> p \<noteq> q \<Longrightarrow>
      distinct rows \<and> set rows = {Row (x, a) |x a. x \<in> {p, q} \<and> spend d k x = Some a}"
    and begin_tx: "sp_BeginTx E d = Inr t \<Longrightarrow> tspend t = spend d"
    and upsert_tx: "sp_upsert E t k p c = (t', None) \<Longrightarrow>
      tspend t' = (tspend t)(k := (tspend t k)(p \<mapsto> f64_add (lookup_or (Fin 0) (tspend t k) p) c))"
    and commit_ok: "sp_Commit E d t = (d', None) \<Longrightarrow> spend d' = tspend t"
    and commit_fails: "sp_Commit E d t = (d', Some e) \<Longrightarrow> spend d' = spend d"
begin

definition day :: "'d \<Rightarrow> string \<Rightarrow> instant \<Rightarrow> f64" where
  "day d k t = lookup_or (Fin 0) (spend d k) (dayPeriodKey t)"

definition month :: "'d \<Rightarrow> string \<Rightarrow> instant \<Rightarrow> f64" where
  "month d k t = lookup_or (Fin 0) (spend d k) (monthPeriodKey t)"

lemma period_keys: "dayPeriodKey t \<noteq> monthPeriodKey t'" "dayPeriodKey t = dayPeriodKey t' \<longleftrightarrow> utc_day t = utc_day t'"
  "monthPeriodKey t = monthPeriodKey t' \<longleftrightarrow> utc_month t = utc_month t'"
  by (simp_all add: dayPeriodKey_def monthPeriodKey_def format_day_eq format_month_eq)

lemma read_spend_no_error: "read_spend p q rows err x y = Inr z \<Longrightarrow> err = None \<and> (\<forall>e. ScanError e \<notin> set rows)"
  by (induction p q rows err x y rule: read_spend.induct) (auto split: option.splits if_splits)

text \<open>The loop finds the amounts, in whichever order the rows come.\<close>

lemma read_spend_rows:
  "p \<noteq> q \<Longrightarrow> distinct rows \<Longrightarrow> \<forall>r \<in> set rows. \<exists>x a. r = Row (x, a) \<and> x \<in> {p, q} \<and> m x = Some a \<Longrightarrow>
    read_spend p q rows None x y = Inr
      ((case m p of Some a \<Rightarrow> if Row (p, a) \<in> set rows then a else x | None \<Rightarrow> x),
       (case m q of Some a \<Rightarrow> if Row (q, a) \<in> set rows then a else y | None \<Rightarrow> y))"
proof (induction rows arbitrary: x y)
  case (Cons r rows)
  then obtain z a where r: "r = Row (z, a)" "z \<in> {p, q}" "m z = Some a" by auto
  have IH: "read_spend p q rows None x y = Inr
      ((case m p of Some a \<Rightarrow> if Row (p, a) \<in> set rows then a else x | None \<Rightarrow> x),
       (case m q of Some a \<Rightarrow> if Row (q, a) \<in> set rows then a else y | None \<Rightarrow> y))" for x y
    using Cons.IH [of x y] Cons.prems by simp
  show ?case using r Cons.prems(1,2) by (auto simp: IH split: option.split)
qed (simp split: option.split)

lemma check_totals:
  assumes "sp_select E d k (dayPeriodKey t) (monthPeriodKey t) = Inr (rows, err)"
    "read_spend (dayPeriodKey t) (monthPeriodKey t) rows err (Fin 0) (Fin 0) = Inr (x, y)"
  shows "x = day d k t \<and> y = month d k t"
proof -
  have e: "err = None" "\<forall>e. ScanError e \<notin> set rows" using read_spend_no_error [OF assms(2)] by blast+
  note rows = select_in [OF assms(1) [unfolded e(1)] e(2) period_keys(1)]
  then show ?thesis
    using read_spend_rows [OF period_keys(1), of rows t t "spend d k" "Fin 0" "Fin 0"] assms(2) e(1)
    by (auto simp: day_def month_def lookup_or_def split: option.splits)
qed

lemma Check_cases:
  "sqliteMeter_Check E d now k dc mc =
     (if f64_lt (Fin 0) dc \<and> f64_le dc (day d k now) \<or> f64_lt (Fin 0) mc \<and> f64_le mc (month d k now)
      then Some ErrBudgetExceeded else None) \<or> (\<exists>e. sqliteMeter_Check E d now k dc mc = Some (MeterFailure e))"
proof (cases "f64_le dc (Fin 0) \<and> f64_le mc (Fin 0)")
  case True
  then have "\<not> f64_lt (Fin 0) dc" "\<not> f64_lt (Fin 0) mc" by (cases dc; cases mc; simp)+
  then show ?thesis using True by (simp add: sqliteMeter_Check_def)
next
  case False
  show ?thesis
  proof (cases "sp_select E d k (dayPeriodKey now) (monthPeriodKey now)")
    case (Inr x)
    obtain rows err where x: "x = (rows, err)" by (cases x)
    show ?thesis
    proof (cases "read_spend (dayPeriodKey now) (monthPeriodKey now) rows err (Fin 0) (Fin 0)")
      case y: (Inr y)
      then have "y = (day d k now, month d k now)" using check_totals [OF Inr [unfolded x]] by (cases y) blast
      then show ?thesis using False Inr x y by (simp add: sqliteMeter_Check_def)
    qed (use False Inr x in \<open>auto simp: sqliteMeter_Check_def\<close>)
  qed (use False in \<open>auto simp: sqliteMeter_Check_def\<close>)
qed

lemma Record_cases:
  assumes "sqliteMeter_Record E d now k c = (d', e)"
  shows "if f64_le c (Fin 0) \<or> e \<noteq> None then spend d' = spend d
    else spend d' = (spend d)(k := (spend d k)(dayPeriodKey now \<mapsto> f64_add (day d k now) c, monthPeriodKey now \<mapsto> f64_add (month d k now) c))"
proof (cases "f64_le c (Fin 0)")
  case True
  then show ?thesis using assms by (simp add: sqliteMeter_Record_def)
next
  case False
  show ?thesis
  proof (cases e)
    case None
    then obtain t t1 t2 where t: "sp_BeginTx E d = Inr t" "sp_upsert E t k (dayPeriodKey now) c = (t1, None)"
        "sp_upsert E t1 k (monthPeriodKey now) c = (t2, None)" "sp_Commit E d t2 = (d', None)"
      using assms False by (auto simp: sqliteMeter_Record_def Let_def split: sum.splits prod.splits option.splits)
    have "dayPeriodKey now \<noteq> monthPeriodKey now" by (rule period_keys(1))
    then have "spend d' = (spend d)(k := (spend d k)(dayPeriodKey now \<mapsto> f64_add (day d k now) c, monthPeriodKey now \<mapsto> f64_add (month d k now) c))"
      unfolding commit_ok [OF t(4)] upsert_tx [OF t(3)] upsert_tx [OF t(2)] begin_tx [OF t(1)]
      by (simp add: day_def month_def lookup_or_def)
    then show ?thesis using False None by simp
  next
    case (Some x)
    then have "d' = d \<or> (\<exists>t y. sp_Commit E d t = (d', Some y))"
      using assms False by (auto simp: sqliteMeter_Record_def Let_def split: sum.splits prod.splits option.splits)
    then show ?thesis using Some commit_fails by auto
  qed
qed

end

sublocale sql_spend \<subseteq> meter: spend_meter init "sqliteMeter_Check E" "sqliteMeter_Record E" day month
proof (unfold_locales, goal_cases)
  case (3 s now k dc mc)
  then show ?case using Check_cases [of s now k dc mc] by (auto split: if_splits)
next
  case (4 s now k dc mc)
  then show ?case using Check_cases [of s now k dc mc] by (auto split: if_splits)
next
  case (5 s now k c s' k' t)
  have "spend s' = (spend s)(k := (spend s k)(dayPeriodKey now \<mapsto> f64_add (day s k now) c, monthPeriodKey now \<mapsto> f64_add (month s k now) c))"
    using Record_cases [OF 5(1)] 5(2) by simp
  then show ?case by (simp add: day_def month_def period_keys(1) period_keys(1) [symmetric] flip: period_keys(2,3))
next
  case (6 s now k c s' e k' t)
  then show ?case using Record_cases [OF 6(1)] by (simp add: day_def month_def)
next
  case (7 t t' s k)
  then show ?case using period_keys(2) [of t t'] by (simp add: day_def)
next
  case (8 t t' s k)
  then show ?case using period_keys(3) [of t t'] by (simp add: month_def)
qed (simp_all add: day_def month_def init_empty lookup_or_def)

section \<open>The durable meter decides as the one in memory\<close>

text \<open>A run of recordings from the state \<open>s\<close>, with those that returned no error.\<close>

definition record_all :: "('s \<Rightarrow> instant \<Rightarrow> string \<Rightarrow> f64 \<Rightarrow> 's \<times> meter_error option) \<Rightarrow> 's \<Rightarrow> spend_history \<Rightarrow> 's \<times> spend_history" where
  "record_all rec s h = foldl (\<lambda>(s, kept) (now, k, c). case rec s now k c of
     (s', None) \<Rightarrow> (s', kept @ [(now, k, c)]) | (s', Some e) \<Rightarrow> (s', kept)) (s, []) h"

context spend_meter
begin

lemma record_all_totals:
  "day (fst (record_all rec init h)) k t = spent (\<lambda>t'. utc_day t' = utc_day t) k (snd (record_all rec init h)) \<and>
   month (fst (record_all rec init h)) k t = spent (\<lambda>t'. utc_month t' = utc_month t) k (snd (record_all rec init h))"
proof (induction h rule: rev_induct)
  case (snoc r h)
  obtain now k' c where r: "r = (now, k', c)" by (cases r)
  obtain s kept where s: "record_all rec init h = (s, kept)" by (cases "record_all rec init h")
  obtain s' e where e: "rec s now k' c = (s', e)" by (cases "rec s now k' c")
  have step: "record_all rec init (h @ [r]) = (s', if e = None then kept @ [(now, k', c)] else kept)"
    using s e by (simp add: record_all_def r split: option.split)
  show ?case
  proof (cases "f64_le c (Fin 0) \<or> e \<noteq> None")
    case True
    then show ?thesis using snoc record_skips [OF e, of k t] s by (auto simp: step spent_snoc)
  next
    case False
    then have "rec s now k' c = (s', None)" "\<not> f64_le c (Fin 0)" using e by auto
    from record_ok [OF this, of k t] show ?thesis using snoc s False by (auto simp: step spent_snoc)
  qed
qed (simp add: record_all_def init_zero spent_def)

end

context sql_spend
begin

lemma durable_totals:
  assumes "record_all (sqliteMeter_Record E) init h = (d, kept)"
  shows "day d k t = spent (\<lambda>t'. utc_day t' = utc_day t) k kept" "month d k t = spent (\<lambda>t'. utc_month t' = utc_month t) k kept"
  using meter.record_all_totals [of h k t] assms by simp_all

end

text \<open>C12: The durable meter is a meter. After any run of recordings, some of which may have failed, a budget check on the
  database answers exactly as the meter in memory that took the recordings which returned no error, or reports a
  failure of the database: a failed recording leaves neither bucket changed, a successful one changes both.\<close>

theorem durable_meter_decides_as_memory:
  assumes "sql_spend E init spend tspend" "record_all (sqliteMeter_Record E) init h = (d, kept)"
  shows "sqliteMeter_Check E d now k dailyCap monthCap = meter_Check (meter_after kept) now k dailyCap monthCap \<or>
    (\<exists>e. sqliteMeter_Check E d now k dailyCap monthCap = Some (MeterFailure e))"
proof -
  note totals = sql_spend.durable_totals [OF assms]
  show ?thesis
    using sql_spend.Check_cases [OF assms(1), of d now k dailyCap monthCap]
    by (simp add: meter_Check_alt meter_after_totals totals)
qed

text \<open>An engine over maps, for which no statement fails.\<close>

definition map_engine :: "(string \<Rightarrow> string \<Rightarrow> f64 option, string \<Rightarrow> string \<Rightarrow> f64 option) spend_db" where
  "map_engine = \<lparr>sp_Ping = (\<lambda>_. None), sp_Exec = (\<lambda>d _. (d, None)),
     sp_select = (\<lambda>d k p q. Inr (concat (map (\<lambda>x. case d k x of None \<Rightarrow> [] | Some a \<Rightarrow> [Row (x, a)]) [p, q]), None)),
     sp_BeginTx = Inr, sp_upsert = (\<lambda>t k p c. (t(k := (t k)(p \<mapsto> f64_add (lookup_or (Fin 0) (t k) p) c)), None)),
     sp_Commit = (\<lambda>d t. (t, None))\<rparr>"

interpretation map_spend: sql_spend map_engine "\<lambda>_ _. None" "\<lambda>d. d" "\<lambda>t. t"
  by unfold_locales (auto simp: map_engine_def split: option.splits)

theorem durable_meter_decides_as_memory_witness:
  "sqliteMeter_Check map_engine (fst (record_all (sqliteMeter_Record map_engine) (\<lambda>_ _. None) [(5, ''k'', Fin 2), (6, ''k'', Fin 1)])) 9
     ''k'' (Fin 3) (Fin 0) = Some ErrBudgetExceeded"
proof -
  let ?h = "[(5, ''k'', Fin 2), (6, ''k'', Fin 1)] :: spend_history"
  have kept: "snd (record_all (sqliteMeter_Record map_engine) (\<lambda>_ _. None) ?h) = ?h"
    by (simp add: record_all_def sqliteMeter_Record_def map_engine_def Let_def)
  have "meter_Check (meter_after ?h) 9 ''k'' (Fin 3) (Fin 0) = Some ErrBudgetExceeded"
    by (simp add: meter_Check_alt meter_after_totals spent_def utc_day_def ns_per_day_def)
  moreover have "sqliteMeter_Check map_engine d t k a b \<noteq> Some (MeterFailure e)" for d t k a b e
    by (simp add: sqliteMeter_Check_def map_engine_def Let_def split: option.split)
  ultimately show ?thesis
    using durable_meter_decides_as_memory [OF map_spend.sql_spend_axioms, of ?h _ ?h 9 "''k''" "Fin 3" "Fin 0"] kept
    by (metis prod.collapse)
qed

end
