(* ===== verification/Config.thy ===== *)
theory Config
  imports Timestamps
begin

text \<open>
  \<open>internal/config/config.go\<close>: the settings, read from the environment. \<open>time.ParseDuration\<close> is modelled in full, with its
  arithmetic on \<open>uint64\<close> and the fraction of a term through \<open>float64\<close>; a duration is the \<open>int\<close> of its nanoseconds. The texts of the
  errors are values of \<open>config_error\<close>.
\<close>

section \<open>Durations\<close>

definition digit_value :: "char \<Rightarrow> nat" where
  "digit_value c = of_char c - 48"

fun leadingInt :: "nat \<Rightarrow> string \<Rightarrow> (nat \<times> string) option" where
  "leadingInt x [] = Some (x, [])"
| "leadingInt x (c # s) =
     (if \<not> is_dig c then Some (x, c # s)
      else if 2 ^ 63 div 10 < x then None
      else let y = x * 10 + digit_value c in if 2 ^ 63 < y then None else leadingInt y s)"

fun leadingFraction :: "nat \<Rightarrow> f64 \<Rightarrow> bool \<Rightarrow> string \<Rightarrow> nat \<times> f64 \<times> string" where
  "leadingFraction x scale overflow [] = (x, scale, [])"
| "leadingFraction x scale overflow (c # s) =
     (if \<not> is_dig c then (x, scale, c # s)
      else if overflow then leadingFraction x scale overflow s
      else if (2 ^ 63 - 1) div 10 < x then leadingFraction x scale True s
      else let y = x * 10 + digit_value c in
        if 2 ^ 63 < y then leadingFraction x scale True s
        else leadingFraction y (f64_mul scale (Fin 10)) overflow s)"

definition unitMap :: "string \<Rightarrow> nat option" where
  "unitMap = map_of [(''ns'', 1), (''us'', 1000), (map char_of [0xC2, 0xB5, 0x73 :: nat], 1000),
     (map char_of [0xCE, 0xBC, 0x73 :: nat], 1000), (''ms'', 1000000), (''s'', 1000000000),
     (''m'', 60000000000), (''h'', 3600000000000)]"

text \<open>\<open>uint64(float64(f) * (float64(unit) / scale))\<close>.\<close>

definition fraction_ns :: "nat \<Rightarrow> nat \<Rightarrow> f64 \<Rightarrow> nat" where
  "fraction_ns f unit scale = (case scale of
     Fin q \<Rightarrow> (case f64_mul (round64 (of_nat f)) (f64_div_const (round64 (of_nat unit)) q) of Fin r \<Rightarrow> nat \<lfloor>r\<rfloor> | _ \<Rightarrow> 0)
   | _ \<Rightarrow> 0)"

definition in_unit :: "char \<Rightarrow> bool" where
  "in_unit c \<longleftrightarrow> c \<noteq> CHR ''.'' \<and> \<not> is_dig c"

text \<open>One term of a duration, a number and its unit: its nanoseconds and what follows it.\<close>

definition parse_term :: "string \<Rightarrow> (nat \<times> string) option" where
  "parse_term s =
     (if \<not> (hd s = CHR ''.'' \<or> is_dig (hd s)) then None
      else case leadingInt 0 s of None \<Rightarrow> None | Some (v, s1) \<Rightarrow>
        let pre = (length s1 \<noteq> length s);
            point = (s1 \<noteq> [] \<and> hd s1 = CHR ''.'');
            (f, scale, s2) = (if point then leadingFraction 0 (Fin 1) False (tl s1) else (0, Fin 1, s1));
            post = (point \<and> length s2 \<noteq> length (tl s1));
            u = takeWhile in_unit s2
        in if \<not> pre \<and> \<not> post then None
           else if u = [] then None
           else case unitMap u of None \<Rightarrow> None | Some unit \<Rightarrow>
             if 2 ^ 63 div unit < v then None
             else let v = v * unit + (if 0 < f then fraction_ns f unit scale else 0) in
               if 2 ^ 63 < v then None else Some (v, dropWhile in_unit s2))"

lemma leadingInt_length: "leadingInt x s = Some (v, r) \<Longrightarrow> length r \<le> length s"
  by (induction x s rule: leadingInt.induct) (auto simp: Let_def split: if_splits)

lemma leadingFraction_length: "length (snd (snd (leadingFraction x scale ov s))) \<le> length s"
  by (induction x scale ov s rule: leadingFraction.induct) (auto simp: Let_def intro: le_SucI)

lemma parse_term_shorter: "parse_term s = Some (v, r) \<Longrightarrow> length r < length s"
proof -
  assume p: "parse_term s = Some (v, r)"
  then obtain w s1 where s1: "leadingInt 0 s = Some (w, s1)" by (auto simp: parse_term_def split: if_splits option.splits)
  obtain f sc s2 where s2: "(if s1 \<noteq> [] \<and> hd s1 = CHR ''.'' then leadingFraction 0 (Fin 1) False (tl s1) else (0, Fin 1, s1)) = (f, sc, s2)"
    by (metis prod_cases3)
  have "takeWhile in_unit s2 \<noteq> []" "r = dropWhile in_unit s2"
    using p s1 s2 by (auto simp: parse_term_def Let_def split: if_splits option.splits)
  then have "length r < length s2"
    by (metis append_Nil length_append length_greater_0_conv less_add_same_cancel2 takeWhile_dropWhile_id)
  also have "length s2 \<le> length s1" using s2 leadingFraction_length [of 0 "Fin 1" False "tl s1"] by (auto split: if_splits)
  also have "length s1 \<le> length s" by (rule leadingInt_length [OF s1])
  finally show ?thesis .
qed

function parse_terms :: "nat \<Rightarrow> string \<Rightarrow> nat option" where
  "parse_terms d s = (if s = [] then Some d
     else case parse_term s of None \<Rightarrow> None | Some (v, r) \<Rightarrow>
       let d = (d + v) mod 2 ^ 64 in if 2 ^ 63 < d then None else parse_terms d r)"
  by pat_completeness auto

termination
  by (relation "measure (length \<circ> snd)") (auto dest: parse_term_shorter)

declare parse_terms.simps [simp del]

definition ParseDuration :: "string \<Rightarrow> int option" where
  "ParseDuration s =
     (let neg = (s \<noteq> [] \<and> hd s = CHR ''-'');
          s = (if s \<noteq> [] \<and> (hd s = CHR ''-'' \<or> hd s = CHR ''+'') then tl s else s)
      in if s = ''0'' then Some 0
         else if s = [] then None
         else case parse_terms 0 s of None \<Rightarrow> None | Some d \<Rightarrow>
           if neg then Some (- int d) else if 2 ^ 63 - 1 < d then None else Some (int d))"

section \<open>Settings\<close>

definition second :: int where "second = 1000000000"

definition ConfigPollIntervalMin :: int where "ConfigPollIntervalMin = 1 * second"
definition ConfigPollIntervalMax :: int where "ConfigPollIntervalMax = 3600 * second"
definition ExpirySweepIntervalMin :: int where "ExpirySweepIntervalMin = 10 * second"
definition ExpirySweepIntervalMax :: int where "ExpirySweepIntervalMax = 3600 * second"
definition ExpirySweepIntervalDefault :: int where "ExpirySweepIntervalDefault = 60 * second"
definition ShutdownGraceMin :: int where "ShutdownGraceMin = 1 * second"
definition ShutdownGraceMax :: int where "ShutdownGraceMax = 5 * 60 * second"
definition ShutdownGraceDefault :: int where "ShutdownGraceDefault = 30 * second"
definition DefaultConfigFilePath :: string where "DefaultConfigFilePath = ''/etc/rein/rein.json''"

lemmas config_bounds = second_def ConfigPollIntervalMin_def ConfigPollIntervalMax_def ExpirySweepIntervalMin_def
  ExpirySweepIntervalMax_def ExpirySweepIntervalDefault_def ShutdownGraceMin_def ShutdownGraceMax_def ShutdownGraceDefault_def

datatype config_source = ConfigSourceEnvVar | ConfigSourceDefaultPath | ConfigSourceEmbedded

record Config =
  cfg_Port :: string
  cfg_AdminToken :: string
  cfg_DatabaseURL :: string
  cfg_EncryptionKey :: string
  cfg_OpenAIBase :: string
  cfg_AnthropicBase :: string
  cfg_ConfigFile :: string
  cfg_ConfigFileSource :: config_source
  cfg_ConfigPollInterval :: int
  cfg_ExpirySweepInterval :: int
  cfg_ShutdownGrace :: int

datatype config_error = AdminTokenRequired | BadDuration string | OutOfRange string int

definition os_Getenv :: "(string \<Rightarrow> string option) \<Rightarrow> string \<Rightarrow> string" where
  "os_Getenv env key = (case env key of None \<Rightarrow> [] | Some v \<Rightarrow> v)"

definition getenv :: "(string \<Rightarrow> string option) \<Rightarrow> string \<Rightarrow> string \<Rightarrow> string" where
  "getenv env key dflt = (let v = os_Getenv env key in if v \<noteq> [] then v else dflt)"

text \<open>\<open>stat\<close> is what \<open>os.Stat(DefaultConfigFilePath)\<close> gives: an error, or whether it is a directory.\<close>

definition defaultConfigFileExists :: "string + bool \<Rightarrow> bool" where
  "defaultConfigFileExists stat = (case stat of Inl err \<Rightarrow> False | Inr isDir \<Rightarrow> \<not> isDir)"

text \<open>An optional duration with its bounds, as \<open>Load\<close> reads three of them.\<close>

definition load_duration :: "(string \<Rightarrow> string option) \<Rightarrow> string \<Rightarrow> int \<Rightarrow> int \<Rightarrow> int \<Rightarrow> config_error + int" where
  "load_duration env key dflt lo hi = (let raw = os_Getenv env key in
     if raw = [] then Inr dflt
     else case ParseDuration raw of None \<Rightarrow> Inl (BadDuration key)
       | Some d \<Rightarrow> if d < lo \<or> hi < d then Inl (OutOfRange key d) else Inr d)"

text \<open>The configuration file and where its name came from.\<close>

definition resolve_config_file :: "string \<Rightarrow> string + bool \<Rightarrow> string \<times> config_source" where
  "resolve_config_file configFile stat =
     (if configFile \<noteq> [] then (configFile, ConfigSourceEnvVar)
      else if defaultConfigFileExists stat then (DefaultConfigFilePath, ConfigSourceDefaultPath)
      else (configFile, ConfigSourceEmbedded))"

definition config_Load :: "(string \<Rightarrow> string option) \<Rightarrow> string + bool \<Rightarrow> config_error + Config" where
  "config_Load env stat =
     (if os_Getenv env ''REIN_ADMIN_TOKEN'' = [] then Inl AdminTokenRequired
      else case load_duration env ''REIN_CONFIG_POLL_INTERVAL'' 0 ConfigPollIntervalMin ConfigPollIntervalMax of Inl err \<Rightarrow> Inl err | Inr poll \<Rightarrow>
        case load_duration env ''REIN_EXPIRY_SWEEP_INTERVAL'' ExpirySweepIntervalDefault ExpirySweepIntervalMin ExpirySweepIntervalMax of
          Inl err \<Rightarrow> Inl err | Inr sweep \<Rightarrow>
        case load_duration env ''REIN_SHUTDOWN_GRACE'' ShutdownGraceDefault ShutdownGraceMin ShutdownGraceMax of Inl err \<Rightarrow> Inl err | Inr grace \<Rightarrow>
        Inr \<lparr>cfg_Port = getenv env ''REIN_PORT'' ''8080'', cfg_AdminToken = os_Getenv env ''REIN_ADMIN_TOKEN'',
          cfg_DatabaseURL = getenv env ''REIN_DB_URL'' ''sqlite:./rein.db'', cfg_EncryptionKey = os_Getenv env ''REIN_ENCRYPTION_KEY'',
          cfg_OpenAIBase = getenv env ''REIN_OPENAI_BASE'' ''https://api.openai.com'',
          cfg_AnthropicBase = getenv env ''REIN_ANTHROPIC_BASE'' ''https://api.anthropic.com'',
          cfg_ConfigFile = fst (resolve_config_file (os_Getenv env ''REIN_CONFIG_FILE'') stat),
          cfg_ConfigFileSource = snd (resolve_config_file (os_Getenv env ''REIN_CONFIG_FILE'') stat),
          cfg_ConfigPollInterval = poll, cfg_ExpirySweepInterval = sweep, cfg_ShutdownGrace = grace\<rparr>)"

section \<open>Whole seconds\<close>

lemma digits_grow: "x \<le> foldl (\<lambda>a c. 10 * a + (of_char c - 48)) x ds" for x :: nat
proof (induction ds arbitrary: x)
  case (Cons c ds)
  have "x \<le> 10 * x + (of_char c - 48)" by simp
  also have "\<dots> \<le> foldl (\<lambda>a c. 10 * a + (of_char c - 48)) (10 * x + (of_char c - 48)) ds" by (rule Cons.IH)
  finally show ?case by simp
qed simp

lemma leadingInt_digits:
  assumes "r = [] \<or> \<not> is_dig (hd r)"
  shows "list_all is_dig ds \<Longrightarrow> x \<le> 2 ^ 63 \<Longrightarrow> leadingInt x (ds @ r) =
    (if foldl (\<lambda>a c. 10 * a + (of_char c - 48)) x ds \<le> 2 ^ 63 then Some (foldl (\<lambda>a c. 10 * a + (of_char c - 48)) x ds, r) else None)"
proof (induction ds arbitrary: x)
  case Nil
  then show ?case using assms by (cases r) auto
next
  case (Cons c ds)
  define y where "y = 10 * x + (of_char c - 48)"
  have y: "x * 10 + digit_value c = y" by (simp add: digit_value_def y_def)
  note g = digits_grow [of y ds]
  have fold: "foldl (\<lambda>a c. 10 * a + (of_char c - 48)) x (c # ds) = foldl (\<lambda>a c. 10 * a + (of_char c - 48)) y ds" by (simp add: y_def)
  show ?case
  proof (cases "y \<le> 2 ^ 63")
    case True
    then have "\<not> 2 ^ 63 div 10 < x" by (simp add: y_def)
    then show ?thesis using Cons True unfolding fold by (simp add: y)
  next
    case False
    then have "\<not> foldl (\<lambda>a c. 10 * a + (of_char c - 48)) y ds \<le> 2 ^ 63" using g by linarith
    then show ?thesis using Cons.prems False unfolding fold by (simp add: y)
  qed
qed

lemma dec_is_digits: "list_all is_dig (dec n)" "dec n \<noteq> []"
proof -
  show "list_all is_dig (dec n)" using set_zpad [of 0 n] by (auto simp: list_all_iff zpad_def)
  show "dec n \<noteq> []" by (simp add: dec.simps)
qed

lemma parse_term_seconds:
  "parse_term (dec n @ ''s'') = (if n \<le> 2 ^ 63 div 1000000000 then Some (n * 1000000000, []) else None)"
proof -
  have ns: "\<not> is_dig (CHR ''s'')" "in_unit (CHR ''s'')" by (simp_all add: is_dig_def in_unit_def)
  have l: "leadingInt 0 (dec n @ ''s'') = (if n \<le> 2 ^ 63 then Some (n, ''s'') else None)"
    using leadingInt_digits [of "''s''" "dec n" 0] dec_is_digits(1) dec_value_dec [of n] ns(1) by (simp add: dec_value_def)
  have h: "is_dig (hd (dec n @ ''s''))" using dec_is_digits [of n] by (cases "dec n") simp_all
  have u: "unitMap ''s'' = Some 1000000000" by (simp add: unitMap_def)
  show ?thesis
  proof (cases "n \<le> 2 ^ 63 div 1000000000")
    case True
    then have "n \<le> 2 ^ 63" "n * 1000000000 \<le> 2 ^ 63" by simp_all
    then show ?thesis using True l h u ns dec_is_digits(2) [of n] by (simp add: parse_term_def)
  next
    case False
    then show ?thesis using l h u ns dec_is_digits(2) [of n] by (simp add: parse_term_def)
  qed
qed

lemma ParseDuration_seconds:
  "ParseDuration (dec n @ ''s'') = (if n \<le> 9223372036 then Some (int n * second) else None)"
proof -
  have d: "is_dig (hd (dec n @ ''s''))" using dec_is_digits [of n] by (cases "dec n") simp_all
  then have sign: "hd (dec n @ ''s'') \<noteq> CHR ''-''" "hd (dec n @ ''s'') \<noteq> CHR ''+''" by (auto simp: is_dig_def)
  have "dec n @ ''s'' \<noteq> ''0''" by (metis append_eq_Cons_conv append_is_Nil_conv dec_is_digits(2) list.distinct(1) list.inject)
  then have "ParseDuration (dec n @ ''s'') = (case parse_terms 0 (dec n @ ''s'') of None \<Rightarrow> None | Some d \<Rightarrow>
      if 2 ^ 63 - 1 < d then None else Some (int d))"
    using sign by (simp add: ParseDuration_def Let_def split: option.split)
  also have "parse_terms 0 (dec n @ ''s'') = (if n \<le> 9223372036 then Some (n * 1000000000) else None)"
    by (simp add: parse_terms.simps [of 0 "dec n @ ''s''"] parse_term_seconds parse_terms.simps [of _ "[]"])
  finally show ?thesis by (simp add: second_def)
qed

lemma load_duration_unset [simp]: "os_Getenv env key = [] \<Longrightarrow> load_duration env key dflt lo hi = Inr dflt"
  by (simp add: load_duration_def)

lemma load_duration_bounds: "load_duration env key dflt lo hi = Inr d \<Longrightarrow> d = dflt \<or> lo \<le> d \<and> d \<le> hi"
  by (auto simp: load_duration_def Let_def split: if_splits option.splits)

lemma load_duration_seconds:
  assumes "os_Getenv env key = dec n @ ''s''" "hi < 9223372036 * second"
  shows "load_duration env key dflt lo hi = (if n \<le> 9223372036 then if lo \<le> int n * second \<and> int n * second \<le> hi
    then Inr (int n * second) else Inl (OutOfRange key (int n * second)) else Inl (BadDuration key))"
  using assms by (auto simp: load_duration_def Let_def ParseDuration_seconds)

text \<open>The settings a process starts with are usable. When \<open>Load\<close> succeeds there is an admin token, a port and a
  database URL, the sweep interval and the drain window lie within their bounds, so that no ticker is made with an interval that
  is not positive and no drain is unbounded, polling is off or within its bounds, and a configuration file is named exactly when
  the source says so.\<close>

theorem loaded_config_is_usable:
  assumes "config_Load env stat = Inr cfg"
  shows "cfg_AdminToken cfg \<noteq> [] \<and> cfg_Port cfg \<noteq> [] \<and> cfg_DatabaseURL cfg \<noteq> [] \<and> cfg_OpenAIBase cfg \<noteq> [] \<and> cfg_AnthropicBase cfg \<noteq> [] \<and>
    10 * second \<le> cfg_ExpirySweepInterval cfg \<and> cfg_ExpirySweepInterval cfg \<le> 3600 * second \<and>
    1 * second \<le> cfg_ShutdownGrace cfg \<and> cfg_ShutdownGrace cfg \<le> 300 * second \<and>
    (cfg_ConfigPollInterval cfg = 0 \<or> 1 * second \<le> cfg_ConfigPollInterval cfg \<and> cfg_ConfigPollInterval cfg \<le> 3600 * second) \<and>
    (cfg_ConfigFile cfg = [] \<longleftrightarrow> cfg_ConfigFileSource cfg = ConfigSourceEmbedded)"
proof -
  let ?poll = "load_duration env ''REIN_CONFIG_POLL_INTERVAL'' 0 ConfigPollIntervalMin ConfigPollIntervalMax"
  let ?sweep = "load_duration env ''REIN_EXPIRY_SWEEP_INTERVAL'' ExpirySweepIntervalDefault ExpirySweepIntervalMin ExpirySweepIntervalMax"
  let ?grace = "load_duration env ''REIN_SHUTDOWN_GRACE'' ShutdownGraceDefault ShutdownGraceMin ShutdownGraceMax"
  have token: "os_Getenv env ''REIN_ADMIN_TOKEN'' \<noteq> []" using assms by (auto simp: config_Load_def)
  then obtain poll sweep grace where d: "?poll = Inr poll" "?sweep = Inr sweep" "?grace = Inr grace"
    using assms by (cases ?poll; cases ?sweep; cases ?grace) (simp_all add: config_Load_def)
  note b = d [THEN load_duration_bounds]
  have "10 * second \<le> sweep \<and> sweep \<le> 3600 * second" "1 * second \<le> grace \<and> grace \<le> 300 * second"
    "poll = 0 \<or> 1 * second \<le> poll \<and> poll \<le> 3600 * second"
    using b by (auto simp: config_bounds)
  moreover have "getenv env key dflt \<noteq> []" if "dflt \<noteq> []" for key dflt using that by (simp add: getenv_def Let_def)
  moreover have "fst (resolve_config_file f stat) = [] \<longleftrightarrow> snd (resolve_config_file f stat) = ConfigSourceEmbedded" for f
    by (simp add: resolve_config_file_def DefaultConfigFilePath_def)
  ultimately show ?thesis using assms token d by (auto simp: config_Load_def)
qed

theorem loaded_config_is_usable_witness:
  "\<exists>cfg. config_Load [''REIN_ADMIN_TOKEN'' \<mapsto> ''t''] (Inr False) = Inr cfg \<and> cfg_ConfigFile cfg = DefaultConfigFilePath \<and>
    cfg_ConfigFileSource cfg \<noteq> ConfigSourceEmbedded"
proof -
  obtain cfg where cfg: "config_Load [''REIN_ADMIN_TOKEN'' \<mapsto> ''t''] (Inr False) = Inr cfg" "cfg_ConfigFile cfg = DefaultConfigFilePath"
    by (simp add: config_Load_def os_Getenv_def load_duration_def resolve_config_file_def defaultConfigFileExists_def)
  then show ?thesis using loaded_config_is_usable [OF cfg(1)] by (simp add: DefaultConfigFilePath_def)
qed

definition demo_settings :: "string \<Rightarrow> string option" where
  "demo_settings = [''REIN_ADMIN_TOKEN'' \<mapsto> ''t'', ''REIN_EXPIRY_SWEEP_INTERVAL'' \<mapsto> dec 15 @ ''s'', ''REIN_SHUTDOWN_GRACE'' \<mapsto> dec 40 @ ''s'',
     ''REIN_CONFIG_POLL_INTERVAL'' \<mapsto> dec 2 @ ''s'']"

text \<open>Whole seconds mean what they say. With an admin token and the three durations given as decimal numbers of seconds,
  loading succeeds exactly when the numbers lie in 1 to 3600 for polling, 10 to 3600 for the sweep
  and 1 to 300 for the drain window, whatever their size, and the settings are then these times.\<close>

theorem whole_seconds_are_exact:
  assumes "os_Getenv env ''REIN_ADMIN_TOKEN'' \<noteq> []" "os_Getenv env ''REIN_CONFIG_POLL_INTERVAL'' = dec p @ ''s''"
    "os_Getenv env ''REIN_EXPIRY_SWEEP_INTERVAL'' = dec n @ ''s''" "os_Getenv env ''REIN_SHUTDOWN_GRACE'' = dec g @ ''s''"
  shows "case config_Load env stat of
      Inr cfg \<Rightarrow> (1 \<le> p \<and> p \<le> 3600 \<and> 10 \<le> n \<and> n \<le> 3600 \<and> 1 \<le> g \<and> g \<le> 300) \<and> cfg_ConfigPollInterval cfg = int p * second \<and>
        cfg_ExpirySweepInterval cfg = int n * second \<and> cfg_ShutdownGrace cfg = int g * second
    | Inl err \<Rightarrow> \<not> (1 \<le> p \<and> p \<le> 3600 \<and> 10 \<le> n \<and> n \<le> 3600 \<and> 1 \<le> g \<and> g \<le> 300)"
proof -
  have d: "load_duration env ''REIN_CONFIG_POLL_INTERVAL'' 0 ConfigPollIntervalMin ConfigPollIntervalMax =
      (if p \<le> 9223372036 then if 1 \<le> p \<and> p \<le> 3600 then Inr (int p * second) else Inl (OutOfRange ''REIN_CONFIG_POLL_INTERVAL'' (int p * second))
       else Inl (BadDuration ''REIN_CONFIG_POLL_INTERVAL''))"
    "load_duration env ''REIN_EXPIRY_SWEEP_INTERVAL'' ExpirySweepIntervalDefault ExpirySweepIntervalMin ExpirySweepIntervalMax =
      (if n \<le> 9223372036 then if 10 \<le> n \<and> n \<le> 3600 then Inr (int n * second) else Inl (OutOfRange ''REIN_EXPIRY_SWEEP_INTERVAL'' (int n * second))
       else Inl (BadDuration ''REIN_EXPIRY_SWEEP_INTERVAL''))"
    "load_duration env ''REIN_SHUTDOWN_GRACE'' ShutdownGraceDefault ShutdownGraceMin ShutdownGraceMax =
      (if g \<le> 9223372036 then if 1 \<le> g \<and> g \<le> 300 then Inr (int g * second) else Inl (OutOfRange ''REIN_SHUTDOWN_GRACE'' (int g * second))
       else Inl (BadDuration ''REIN_SHUTDOWN_GRACE''))"
    using load_duration_seconds [OF assms(2)] load_duration_seconds [OF assms(3)] load_duration_seconds [OF assms(4)]
    by (simp_all add: config_bounds)
  show ?thesis using assms(1) by (auto simp: config_Load_def d)
qed

theorem whole_seconds_are_exact_witness:
  "\<exists>cfg. config_Load demo_settings (Inl ''not found'') = Inr cfg \<and> cfg_ExpirySweepInterval cfg = 15 * second \<and> cfg_ShutdownGrace cfg = 40 * second"
  using whole_seconds_are_exact [of demo_settings 2 15 40 "Inl ''not found''"]
  by (cases "config_Load demo_settings (Inl ''not found'')") (simp_all add: os_Getenv_def demo_settings_def)

end
