(* ===== verification/Server_Main.thy ===== *)
theory Server_Main
  imports Config Sqlite_Meter Adapters
begin

text \<open>
  \<open>cmd/rein/main.go\<close>: the process. \<open>main_start\<close> is the way from the environment to a server, with every exit; the readiness probe and the
  connection tracker follow; the last part is the process after start as a state that moves with every event of its environment
  and every turn of its goroutines: a signal, the end of the drain window, a connection, the main goroutine and the one that runs
  \<open>srv.Shutdown\<close>. Log lines are not modelled, but for the number of connections a forced exit reports.
\<close>

section \<open>Choosing the stores\<close>

datatype open_error = UnsupportedDBScheme string | EncryptionKeyRequired | InvalidEncryptionKey cipher_error
  | BuildCipher cipher_error | SqliteOpenFailed string

datatype 'd keystore = MemoryStore | SqliteStore 'd cipher
datatype 'm spend_store = MemoryMeter | SqliteMeter 'm

definition memory_url :: "string \<Rightarrow> bool" where
  "memory_url trimmed \<longleftrightarrow> trimmed = [] \<or> trimmed = ''memory'' \<or> trimmed = ''memory:''"

definition openKeystore :: "(string \<Rightarrow> string + 'd) \<Rightarrow> 'd sql_db \<Rightarrow> string \<Rightarrow> string \<Rightarrow> open_error + 'd keystore" where
  "openKeystore sql_Open E dbURL encryptionKeyHex = (let trimmed = TrimSpace dbURL in
     if memory_url trimmed then Inr MemoryStore
     else case CutPrefix trimmed ''sqlite:'' of None \<Rightarrow> Inl (UnsupportedDBScheme dbURL) | Some path \<Rightarrow>
       if TrimSpace encryptionKeyHex = [] then Inl EncryptionKeyRequired
       else case DecodeHexKey encryptionKeyHex of Inl err \<Rightarrow> Inl (InvalidEncryptionKey err) | Inr rawKey \<Rightarrow>
         case NewAESGCM rawKey of Inl err \<Rightarrow> Inl (BuildCipher err) | Inr c \<Rightarrow>
         case NewSQLite sql_Open E path (Some c) of Inl e \<Rightarrow> Inl (SqliteOpenFailed e) | Inr d \<Rightarrow> Inr (SqliteStore d c))"

definition openSpendMeter :: "(string \<Rightarrow> string + 'm) \<Rightarrow> ('m, 't) spend_db \<Rightarrow> string \<Rightarrow> open_error + 'm spend_store" where
  "openSpendMeter sql_Open M dbURL = (let trimmed = TrimSpace dbURL in
     if memory_url trimmed then Inr MemoryMeter
     else case CutPrefix trimmed ''sqlite:'' of None \<Rightarrow> Inl (UnsupportedDBScheme dbURL) | Some path \<Rightarrow>
       case sqliteMeter_New sql_Open M path of Inl e \<Rightarrow> Inl (SqliteOpenFailed e) | Inr m \<Rightarrow> Inr (SqliteMeter m))"

section \<open>Startup\<close>

text \<open>\<open>proxy.New\<close>: the handlers of both providers, or the error of the first base URL that does not parse.\<close>

definition proxy_New :: "('s \<Rightarrow> string \<Rightarrow> keys_error + VirtualKey) option \<Rightarrow> ('s \<Rightarrow> string + bool) option \<Rightarrow>
    ('s \<Rightarrow> instant \<Rightarrow> string \<Rightarrow> f64 \<Rightarrow> f64 \<Rightarrow> meter_error option) option \<Rightarrow> ('s \<Rightarrow> instant \<Rightarrow> string \<Rightarrow> f64 \<Rightarrow> 's \<times> meter_error option) option \<Rightarrow>
    ('s \<Rightarrow> i64 \<Rightarrow> string \<Rightarrow> i64 \<Rightarrow> i64 \<Rightarrow> 's \<times> rates_error option) option \<Rightarrow>
    (('s \<Rightarrow> string \<Rightarrow> i64 \<Rightarrow> 's \<times> bool) \<times> ('s \<Rightarrow> string \<Rightarrow> i64 \<Rightarrow> 's)) option \<Rightarrow> string \<Rightarrow> string \<Rightarrow>
    ('s Proxy \<times> 's adapter_config \<times> 's adapter_config) option" where
  "proxy_New store killSwitch check rec rates concurrency openaiBase anthropicBase =
     (case NewOpenAI openaiBase rec of None \<Rightarrow> None | Some oai \<Rightarrow>
      case NewAnthropic anthropicBase rec of None \<Rightarrow> None | Some ant \<Rightarrow>
      Some (\<lparr>px_store = store, px_killSwitch = killSwitch, px_meter = check, px_rates = rates,
        px_concurrency = concurrency, px_draining = False\<rparr>, oai, ant))"

datatype exit_reason = ConfigExit config_error | KeystoreExit open_error | PricingExit load_error | OverridesExit load_error
  | MeterExit open_error | ProxyExit

record ('d, 'm) server =
  sv_cfg :: Config
  sv_keystore :: "'d keystore"
  sv_meter :: "'m spend_store"
  sv_pricer :: PricerHolder

text \<open>The operations of the stores that were opened, over the state \<open>'s\<close> of all of them.\<close>

record ('d, 'm, 's) wiring =
  wi_GetByToken :: "'d keystore \<Rightarrow> 's \<Rightarrow> string \<Rightarrow> keys_error + VirtualKey"
  wi_IsFrozen :: "'s \<Rightarrow> string + bool"
  wi_Check :: "'m spend_store \<Rightarrow> 's \<Rightarrow> instant \<Rightarrow> string \<Rightarrow> f64 \<Rightarrow> f64 \<Rightarrow> meter_error option"
  wi_Record :: "'m spend_store \<Rightarrow> 's \<Rightarrow> instant \<Rightarrow> string \<Rightarrow> f64 \<Rightarrow> 's \<times> meter_error option"
  wi_Allow :: "'s \<Rightarrow> i64 \<Rightarrow> string \<Rightarrow> i64 \<Rightarrow> i64 \<Rightarrow> 's \<times> rates_error option"
  wi_Slots :: "('s \<Rightarrow> string \<Rightarrow> i64 \<Rightarrow> 's \<times> bool) \<times> ('s \<Rightarrow> string \<Rightarrow> i64 \<Rightarrow> 's)"

definition main_start :: "(string \<Rightarrow> string option) \<Rightarrow> string + bool \<Rightarrow> (string \<Rightarrow> string + 'd) \<Rightarrow> 'd sql_db \<Rightarrow> (string \<Rightarrow> string + 'm) \<Rightarrow>
    ('m, 't) spend_db \<Rightarrow> string + Pricer \<Rightarrow> (string \<Rightarrow> string + string) \<Rightarrow> (string \<Rightarrow> string + configFile) \<Rightarrow> ('d, 'm, 's) wiring \<Rightarrow>
    exit_reason + ('d, 'm) server \<times> 's Proxy \<times> 's adapter_config \<times> 's adapter_config" where
  "main_start env stat sql_Open E sql_OpenM M embedded readFile unmarshal w =
     (case config_Load env stat of Inl err \<Rightarrow> Inl (ConfigExit err) | Inr cfg \<Rightarrow>
      case openKeystore sql_Open E (cfg_DatabaseURL cfg) (cfg_EncryptionKey cfg) of Inl err \<Rightarrow> Inl (KeystoreExit err) | Inr keystore \<Rightarrow>
      case LoadPricer embedded of Inl err \<Rightarrow> Inl (PricingExit err) | Inr basePricer \<Rightarrow>
      case LoadConfigFile readFile unmarshal (cfg_ConfigFile cfg) (Some basePricer) of Inl err \<Rightarrow> Inl (OverridesExit err) | Inr initialPricer \<Rightarrow>
      let pricerHolder = NewPricerHolder initialPricer in
      case openSpendMeter sql_OpenM M (cfg_DatabaseURL cfg) of Inl err \<Rightarrow> Inl (MeterExit err) | Inr spendMeter \<Rightarrow>
      case proxy_New (Some (wi_GetByToken w keystore)) (Some (wi_IsFrozen w)) (Some (wi_Check w spendMeter)) (Some (wi_Record w spendMeter))
          (Some (wi_Allow w)) (Some (wi_Slots w)) (cfg_OpenAIBase cfg) (cfg_AnthropicBase cfg) of None \<Rightarrow> Inl ProxyExit | Some p \<Rightarrow>
      Inr (\<lparr>sv_cfg = cfg, sv_keystore = keystore, sv_meter = spendMeter, sv_pricer = pricerHolder\<rparr>, p))"

lemma openKeystore_cases:
  assumes "openKeystore sql_Open E url key = Inr ks"
  shows "case ks of MemoryStore \<Rightarrow> memory_url (TrimSpace url)
    | SqliteStore d c \<Rightarrow> \<not> memory_url (TrimSpace url) \<and> HasPrefix (TrimSpace url) ''sqlite:'' \<and>
        (\<exists>raw. DecodeHexKey key = Inr raw \<and> length raw = 32 \<and> c = aesGCMCipher (NewGCM raw))"
  using assms
  by (auto simp: openKeystore_def Let_def CutPrefix_def NewAESGCM_def AESKeySize_def split: if_splits option.splits sum.splits)

lemma openSpendMeter_cases:
  assumes "openSpendMeter sql_Open M url = Inr m"
  shows "m = MemoryMeter \<longleftrightarrow> memory_url (TrimSpace url)"
  using assms by (auto simp: openSpendMeter_def Let_def split: if_splits option.splits sum.splits)

lemma LoadConfigFile_path: "LoadConfigFile readFile unmarshal path (Some base) = Inr x \<Longrightarrow> x \<noteq> None \<and> (path = [] \<longrightarrow> x = Some base)"
  by (auto simp: LoadConfigFile_def blank_def Let_def split: if_splits option.splits sum.splits)

text \<open>C37: A process that starts is the one that was asked for. Its settings are those of the environment; totals and keys are both in
  memory, which only an empty URL, \<open>memory\<close> or \<open>memory:\<close> select, or both in SQLite, with keys encrypted under the 32 bytes of the
  configured key; a pricing table is in place, the embedded one when no file is named; and the dispatcher has every one of
  its checks, is not draining, and has a base URL with scheme and host for either provider.\<close>

theorem startup_is_what_was_asked:
  assumes "main_start env stat sql_Open E sql_OpenM M embedded readFile unmarshal w = Inr (srv, p, oai, ant)"
  shows "config_Load env stat = Inr (sv_cfg srv) \<and>
    (case sv_keystore srv of
       MemoryStore \<Rightarrow> TrimSpace (cfg_DatabaseURL (sv_cfg srv)) \<in> {[], ''memory'', ''memory:''} \<and> sv_meter srv = MemoryMeter
     | SqliteStore d c \<Rightarrow> HasPrefix (TrimSpace (cfg_DatabaseURL (sv_cfg srv))) ''sqlite:'' \<and> sv_meter srv \<noteq> MemoryMeter \<and>
         (\<exists>raw. DecodeHexKey (cfg_EncryptionKey (sv_cfg srv)) = Inr raw \<and> length raw = 32 \<and> c = aesGCMCipher (NewGCM raw))) \<and>
    holder_Load (sv_pricer srv) \<noteq> None \<and> (cfg_ConfigFile (sv_cfg srv) = [] \<longrightarrow> (\<exists>base. embedded = Inr base \<and> holder_Load (sv_pricer srv) = Some base)) \<and>
    px_store p \<noteq> None \<and> px_killSwitch p \<noteq> None \<and> px_meter p \<noteq> None \<and> px_rates p \<noteq> None \<and> px_concurrency p \<noteq> None \<and> \<not> px_draining p \<and>
    Scheme (ad_base oai) \<noteq> [] \<and> Host (ad_base oai) \<noteq> [] \<and> Scheme (ad_base ant) \<noteq> [] \<and> Host (ad_base ant) \<noteq> []"
proof -
  obtain cfg where cfg: "config_Load env stat = Inr cfg" using assms by (cases "config_Load env stat") (auto simp: main_start_def)
  obtain ks where ks: "openKeystore sql_Open E (cfg_DatabaseURL cfg) (cfg_EncryptionKey cfg) = Inr ks"
    using assms cfg by (cases "openKeystore sql_Open E (cfg_DatabaseURL cfg) (cfg_EncryptionKey cfg)") (auto simp: main_start_def)
  obtain base where base: "LoadPricer embedded = Inr base" using assms cfg ks by (cases "LoadPricer embedded") (auto simp: main_start_def)
  obtain ip where ip: "LoadConfigFile readFile unmarshal (cfg_ConfigFile cfg) (Some base) = Inr ip"
    using assms cfg ks base by (cases "LoadConfigFile readFile unmarshal (cfg_ConfigFile cfg) (Some base)") (auto simp: main_start_def)
  obtain m where m: "openSpendMeter sql_OpenM M (cfg_DatabaseURL cfg) = Inr m"
    using assms cfg ks base ip by (cases "openSpendMeter sql_OpenM M (cfg_DatabaseURL cfg)") (auto simp: main_start_def)
  have srv: "srv = \<lparr>sv_cfg = cfg, sv_keystore = ks, sv_meter = m, sv_pricer = NewPricerHolder ip\<rparr>"
    and px: "proxy_New (Some (wi_GetByToken w ks)) (Some (wi_IsFrozen w)) (Some (wi_Check w m)) (Some (wi_Record w m))
      (Some (wi_Allow w)) (Some (wi_Slots w)) (cfg_OpenAIBase cfg) (cfg_AnthropicBase cfg) = Some (p, oai, ant)"
    using assms cfg ks base ip m by (auto simp: main_start_def Let_def split: option.splits)
  have "embedded = Inr base" using base by (auto simp: LoadPricer_def split: sum.splits if_splits)
  moreover have "px_store p \<noteq> None \<and> px_killSwitch p \<noteq> None \<and> px_meter p \<noteq> None \<and> px_rates p \<noteq> None \<and> px_concurrency p \<noteq> None \<and>
      \<not> px_draining p \<and> Scheme (ad_base oai) \<noteq> [] \<and> Host (ad_base oai) \<noteq> [] \<and> Scheme (ad_base ant) \<noteq> [] \<and> Host (ad_base ant) \<noteq> []"
    using px by (auto simp: proxy_New_def NewOpenAI_def NewAnthropic_def adapter_base_def split: option.splits if_splits)
  ultimately show ?thesis
    using openKeystore_cases [OF ks] openSpendMeter_cases [OF m] LoadConfigFile_path [OF ip] cfg
    by (cases ks) (auto simp: srv holder_Load_def NewPricerHolder_def memory_url_def)
qed

definition demo_wiring :: "(unit, unit, unit) wiring" where
  "demo_wiring = \<lparr>wi_GetByToken = (\<lambda>_ _ _. Inl ErrNotFound), wi_IsFrozen = (\<lambda>_. Inr False), wi_Check = (\<lambda>_ _ _ _ _ _. None),
     wi_Record = (\<lambda>_ s _ _ _. (s, None)), wi_Allow = (\<lambda>s _ _ _ _. (s, None)), wi_Slots = (\<lambda>s _ _. (s, True), \<lambda>s _ _. s)\<rparr>"

definition demo_start where
  "demo_start = main_start [''REIN_ADMIN_TOKEN'' \<mapsto> ''t'', ''REIN_DB_URL'' \<mapsto> ''memory''] (Inl ''no such file'') (\<lambda>_. Inl ''unused'')
     (undefined :: unit sql_db) (\<lambda>_. Inl ''unused'') (undefined :: (unit, unit) spend_db) (Inr [(''openai'', [])]) (\<lambda>_. Inl ''unused'')
     (\<lambda>_. Inl ''unused'') demo_wiring"

lemma demo_started: "\<exists>srv p oai ant. demo_start = Inr (srv, p, oai, ant) \<and> sv_keystore srv = MemoryStore"
proof -
  have base: "adapter_base ''https://api.openai.com'' \<noteq> None" "adapter_base ''https://api.anthropic.com'' \<noteq> None" by code_simp+
  have url: "TrimSpace ''memory'' = ''memory''" by (rule TrimSpace_id) (simp_all add: visible_def)
  show ?thesis using base
    by (auto simp: demo_start_def main_start_def config_Load_def os_Getenv_def getenv_def load_duration_def resolve_config_file_def
      defaultConfigFileExists_def openKeystore_def openSpendMeter_def memory_url_def url LoadPricer_def LoadConfigFile_def blank_def
      proxy_New_def NewOpenAI_def NewAnthropic_def)
qed

theorem startup_is_what_was_asked_witness:
  "\<exists>srv p oai ant. demo_start = Inr (srv, p, oai, ant) \<and> sv_meter srv = MemoryMeter \<and> \<not> px_draining p \<and> Host (ad_base oai) \<noteq> []"
proof -
  obtain srv p oai ant where s: "demo_start = Inr (srv, p, oai, ant)" "sv_keystore srv = MemoryStore" using demo_started by blast
  from startup_is_what_was_asked [OF s(1) [unfolded demo_start_def]] s show ?thesis by auto
qed

section \<open>Reloading\<close>

text \<open>Both reload goroutines on one holder: a \<open>SIGHUP\<close> with what a load gives at that moment, a tick of the poller with what
  \<open>os.Stat\<close> and a load give, and the cancelled context that stops them. The poller runs only when an interval is set.\<close>

datatype reload_event = ReloadCancelled | Hup "load_error + Pricer option" | Poll "string + instant" "load_error + Pricer option"

fun reload_loops :: "bool \<Rightarrow> instant \<Rightarrow> PricerHolder \<Rightarrow> reload_event list \<Rightarrow> PricerHolder" where
  "reload_loops polling lastModTime holder [] = holder"
| "reload_loops polling lastModTime holder (ReloadCancelled # evs) = holder"
| "reload_loops polling lastModTime holder (Hup load # evs) = reload_loops polling lastModTime (fst (TryReload load holder)) evs"
| "reload_loops polling lastModTime holder (Poll (Inl err) load # evs) = reload_loops polling lastModTime holder evs"
| "reload_loops polling lastModTime holder (Poll (Inr modTime) load # evs) =
     (if \<not> polling \<or> modTime = lastModTime then reload_loops polling lastModTime holder evs
      else reload_loops polling modTime (fst (TryReload load holder)) evs)"

definition startReloadHandlers :: "Config \<Rightarrow> string + instant \<Rightarrow> PricerHolder \<Rightarrow> reload_event list \<Rightarrow> PricerHolder" where
  "startReloadHandlers cfg stat0 holder evs = (if cfg_ConfigFile cfg = [] then holder
     else reload_loops (0 < cfg_ConfigPollInterval cfg) (case stat0 of Inl _ \<Rightarrow> zero_time | Inr modTime \<Rightarrow> modTime) holder evs)"

lemma reload_loops_poll: "reload_loops True t h (map (\<lambda>e. case e of PollDone \<Rightarrow> ReloadCancelled | PollTick st load \<Rightarrow> Poll st load) evs) = poll_loop t h evs"
  by (induction t h evs rule: poll_loop.induct) simp_all

text \<open>Whatever triggers a reload and however it ends, the pricing table in place is one a load gave, or the first one.\<close>

lemma reload_handlers_invariant:
  assumes "\<And>p. Hup (Inr p) \<in> set evs \<or> (\<exists>st. Poll st (Inr p) \<in> set evs) \<Longrightarrow> P p" "P holder"
  shows "P (startReloadHandlers cfg stat0 holder evs)"
proof -
  have "P (reload_loops polling t h evs)" if "P h" for polling t h
    using assms(1) that
  proof (induction polling t h evs rule: reload_loops.induct)
    case (3 polling t h load evs)
    then show ?case by (cases load) (auto simp: TryReload_def holder_Swap_def)
  next
    case (5 polling t h modTime load evs)
    then show ?case by (cases load) (auto simp: TryReload_def holder_Swap_def)
  qed auto
  then show ?thesis using assms(2) by (simp add: startReloadHandlers_def)
qed

section \<open>Probes and connections\<close>

definition handleHealthz :: "nat \<times> string" where
  "handleHealthz = (200, ''{\"status\":\"ok\"}'')"

definition readyzHandler :: "'s Proxy \<Rightarrow> nat \<times> string" where
  "readyzHandler p = (if IsDraining p then (503, ''{\"status\":\"draining\"}'') else (200, ''{\"status\":\"ready\"}''))"

datatype conn_state = StateNew | StateActive | StateIdle | StateHijacked | StateClosed

record 'c inflightConnTracker =
  tk_active :: "'c set"
  tk_count :: i64

definition newInflightConnTracker :: "'c inflightConnTracker" where
  "newInflightConnTracker = \<lparr>tk_active = {}, tk_count = 0\<rparr>"

definition observe :: "'c inflightConnTracker \<Rightarrow> 'c \<Rightarrow> conn_state \<Rightarrow> 'c inflightConnTracker" where
  "observe t c state = (case state of
     StateActive \<Rightarrow> if c \<in> tk_active t then t else t\<lparr>tk_active := insert c (tk_active t), tk_count := tk_count t + 1\<rparr>
   | StateNew \<Rightarrow> t
   | _ \<Rightarrow> if c \<in> tk_active t then t\<lparr>tk_active := tk_active t - {c}, tk_count := tk_count t - 1\<rparr> else t)"

definition inflight :: "'c inflightConnTracker \<Rightarrow> i64" where
  "inflight t = tk_count t"

lemma observe_count:
  "finite (tk_active t) \<and> tk_count t = of_nat (card (tk_active t)) \<Longrightarrow>
    finite (tk_active (observe t c st)) \<and> tk_count (observe t c st) = of_nat (card (tk_active (observe t c st)))"
proof (cases "c \<in> tk_active t")
  case True
  assume t: "finite (tk_active t) \<and> tk_count t = of_nat (card (tk_active t))"
  then have "card (tk_active t) = Suc (card (tk_active t - {c}))" using True by (metis card_Suc_Diff1)
  then show ?thesis using t True by (cases st) (simp_all add: observe_def)
next
  case False
  assume "finite (tk_active t) \<and> tk_count t = of_nat (card (tk_active t))"
  then show ?thesis using False by (cases st) (simp_all add: observe_def add.commute)
qed

section \<open>The process\<close>

text \<open>The phases of the main goroutine: waiting for a signal, in the \<open>select\<close> of the drain, waiting for \<open>Shutdown\<close> after a forced
  close, about to close the meter, and returned. \<open>pr_stop\<close> counts the signals in the channel of capacity 2.\<close>

datatype phase = Serving | DrainSelect | ForceClosing | ClosingMeter | Exited

datatype shutdown_result = ShutdownOk | DeadlineExceeded

record 'c process =
  pr_phase :: phase
  pr_draining :: bool
  pr_cancelled :: bool
  pr_stop :: nat
  pr_expired :: bool
  pr_closed :: bool
  pr_shutdown :: "shutdown_result option"
  pr_tracker :: "'c inflightConnTracker"
  pr_conns :: "'c \<Rightarrow> conn_state option"
  pr_force_closed :: "i64 option"

definition started :: "'c process" where
  "started = \<lparr>pr_phase = Serving, pr_draining = False, pr_cancelled = False, pr_stop = 0, pr_expired = False, pr_closed = False,
     pr_shutdown = None, pr_tracker = newInflightConnTracker, pr_conns = (\<lambda>_. None), pr_force_closed = None\<rparr>"

text \<open>The events: a signal, the end of the drain window, a transition of a connection, a turn of the main goroutine, with
  the choice its \<open>select\<close> makes when both cases are ready, and one round of the loop of \<open>Shutdown\<close>. A connection begins in
  \<open>StateNew\<close> and does not return to it; that \<open>Shutdown\<close> takes one idle for five seconds in \<open>StateNew\<close> as idle is
  the event \<open>ConnState c StateIdle\<close>.\<close>

datatype 'c event = Signal | GraceEnds | ConnState 'c conn_state | RunMain bool | RunShutdown

definition busy :: "'c process \<Rightarrow> bool" where
  "busy s \<longleftrightarrow> \<not> pr_closed s \<and> (\<exists>c. pr_conns s c = Some StateActive \<or> pr_conns s c = Some StateNew)"

definition shutdown_returned :: "shutdown_result \<Rightarrow> 'c process \<Rightarrow> 'c process" where
  "shutdown_returned r s = s\<lparr>pr_phase := ClosingMeter,
     pr_force_closed := (if r = DeadlineExceeded then Some (inflight (pr_tracker s)) else pr_force_closed s)\<rparr>"

definition main_turn :: "bool \<Rightarrow> 'c process \<Rightarrow> 'c process" where
  "main_turn first s = (case pr_phase s of
     Serving \<Rightarrow> if pr_stop s = 0 then s
       else s\<lparr>pr_stop := pr_stop s - 1, pr_draining := True, pr_cancelled := True, pr_phase := DrainSelect\<rparr>
   | DrainSelect \<Rightarrow> (case pr_shutdown s of
         Some r \<Rightarrow> if first \<or> pr_stop s = 0 then shutdown_returned r s
           else s\<lparr>pr_stop := pr_stop s - 1, pr_force_closed := Some (inflight (pr_tracker s)), pr_closed := True, pr_phase := ForceClosing\<rparr>
       | None \<Rightarrow> if pr_stop s = 0 then s
           else s\<lparr>pr_stop := pr_stop s - 1, pr_force_closed := Some (inflight (pr_tracker s)), pr_closed := True, pr_phase := ForceClosing\<rparr>)
   | ForceClosing \<Rightarrow> (case pr_shutdown s of None \<Rightarrow> s | Some _ \<Rightarrow> s\<lparr>pr_phase := ClosingMeter\<rparr>)
   | ClosingMeter \<Rightarrow> s\<lparr>pr_phase := Exited\<rparr>
   | Exited \<Rightarrow> s)"

text \<open>One round of \<open>http.Server.Shutdown\<close>: it returns when no connection is in use, else when its context is done.\<close>

definition shutdown_turn :: "'c process \<Rightarrow> 'c process" where
  "shutdown_turn s = (if pr_phase s = Serving \<or> pr_shutdown s \<noteq> None then s
     else if \<not> busy s then s\<lparr>pr_shutdown := Some ShutdownOk\<rparr>
     else if pr_expired s then s\<lparr>pr_shutdown := Some DeadlineExceeded\<rparr> else s)"

fun process_step :: "'c process \<Rightarrow> 'c event \<Rightarrow> 'c process" where
  "process_step s Signal = s\<lparr>pr_stop := min 2 (pr_stop s + 1)\<rparr>"
| "process_step s GraceEnds = (if pr_phase s = Serving then s else s\<lparr>pr_expired := True\<rparr>)"
| "process_step s (ConnState c st) = (if st = StateNew \<and> pr_conns s c \<noteq> None then s
     else s\<lparr>pr_conns := (pr_conns s)(c := (if st = StateClosed \<or> st = StateHijacked then None else Some st)),
       pr_tracker := observe (pr_tracker s) c st\<rparr>)"
| "process_step s (RunMain first) = main_turn first s"
| "process_step s RunShutdown = shutdown_turn s"

abbreviation process_run :: "'c event list \<Rightarrow> 'c process" where
  "process_run evs \<equiv> foldl process_step started evs"

fun rank :: "phase \<Rightarrow> nat" where
  "rank Serving = 0" | "rank DrainSelect = 1" | "rank ForceClosing = 2" | "rank ClosingMeter = 3" | "rank Exited = 4"

lemma rank_simps [simp]: "rank p = 0 \<longleftrightarrow> p = Serving" "rank p \<le> 4" "4 \<le> rank p \<longleftrightarrow> p = Exited"
  by (cases p; simp)+

lemmas turn_defs = main_turn_def shutdown_turn_def shutdown_returned_def

lemma main_turn_grows: "rank (pr_phase s) \<le> rank (pr_phase (main_turn b s))"
  by (cases "pr_phase s"; cases "pr_shutdown s") (simp_all add: main_turn_def shutdown_returned_def)

lemma main_turn_keeps: "pr_expired (main_turn b s) = pr_expired s" "pr_shutdown (main_turn b s) = pr_shutdown s"
  "pr_closed s \<Longrightarrow> pr_closed (main_turn b s)"
  by (cases "pr_phase s"; cases "pr_shutdown s"; simp add: main_turn_def shutdown_returned_def)+

lemma shutdown_turn_keeps [simp]: "pr_phase (shutdown_turn s) = pr_phase s" "pr_expired (shutdown_turn s) = pr_expired s"
  "pr_closed (shutdown_turn s) = pr_closed s" "pr_stop (shutdown_turn s) = pr_stop s"
  by (simp_all add: shutdown_turn_def)

lemma phase_grows: "rank (pr_phase s) \<le> rank (pr_phase (process_step s e))"
  by (cases e) (simp_all add: main_turn_grows)

lemma stays:
  "pr_phase s \<noteq> Serving \<Longrightarrow> pr_phase (process_step s e) \<noteq> Serving"
  "pr_phase s = Exited \<Longrightarrow> pr_phase (process_step s e) = Exited"
  "pr_expired s \<Longrightarrow> pr_expired (process_step s e)"
  "pr_shutdown s = Some r \<Longrightarrow> pr_shutdown (process_step s e) = Some r"
  "pr_closed s \<Longrightarrow> pr_closed (process_step s e)"
proof -
  show "pr_phase s \<noteq> Serving \<Longrightarrow> pr_phase (process_step s e) \<noteq> Serving"
    using phase_grows [of s e] by (metis le_zero_eq rank_simps(1))
  show "pr_phase s = Exited \<Longrightarrow> pr_phase (process_step s e) = Exited"
    using phase_grows [of s e] by simp
  show "pr_expired s \<Longrightarrow> pr_expired (process_step s e)" by (cases e) (simp_all add: main_turn_keeps)
  show "pr_shutdown s = Some r \<Longrightarrow> pr_shutdown (process_step s e) = Some r"
    by (cases e) (simp_all add: main_turn_keeps shutdown_turn_def)
  show "pr_closed s \<Longrightarrow> pr_closed (process_step s e)" by (cases e) (simp_all add: main_turn_keeps)
qed

lemma signal_stays: "pr_phase s = Serving \<Longrightarrow> 0 < pr_stop s \<Longrightarrow> pr_phase (process_step s e) \<noteq> Serving \<or> 0 < pr_stop (process_step s e)"
  by (cases e) (simp_all add: main_turn_def)

text \<open>The turns that make progress.\<close>

lemma main_leaves_serving: "pr_phase s = Serving \<Longrightarrow> 0 < pr_stop s \<Longrightarrow> pr_phase (main_turn b s) = DrainSelect"
  by (simp add: main_turn_def)

lemma main_advances: "pr_phase s \<noteq> Serving \<Longrightarrow> pr_phase s \<noteq> Exited \<Longrightarrow> pr_shutdown s \<noteq> None \<Longrightarrow> rank (pr_phase s) < rank (pr_phase (main_turn b s))"
  by (cases "pr_phase s") (auto simp: main_turn_def shutdown_returned_def)

lemma shutdown_ends: "pr_phase s \<noteq> Serving \<Longrightarrow> pr_expired s \<or> pr_closed s \<Longrightarrow> pr_shutdown (shutdown_turn s) \<noteq> None"
  by (auto simp: shutdown_turn_def busy_def)

text \<open>The tracker counts the connections whose last transition was to \<open>StateActive\<close>.\<close>

definition tracks :: "'c inflightConnTracker \<Rightarrow> ('c \<Rightarrow> conn_state option) \<Rightarrow> bool" where
  "tracks t conns \<longleftrightarrow> finite (tk_active t) \<and> tk_count t = of_nat (card (tk_active t)) \<and> (\<forall>c. c \<in> tk_active t \<longleftrightarrow> conns c = Some StateActive)"

lemma tracks_observe:
  assumes "tracks t conns" "st \<noteq> StateNew \<or> conns c = None"
  shows "tracks (observe t c st) (conns(c := (if st = StateClosed \<or> st = StateHijacked then None else Some st)))"
proof -
  have "x \<in> tk_active (observe t c st) \<longleftrightarrow>
      (conns(c := (if st = StateClosed \<or> st = StateHijacked then None else Some st))) x = Some StateActive" for x
    using assms by (cases st; cases "x = c") (auto simp: tracks_def observe_def)
  then show ?thesis using assms(1) observe_count [of t c st] by (simp add: tracks_def)
qed

definition drain_inv :: "'c process \<Rightarrow> bool" where
  "drain_inv s \<longleftrightarrow> (pr_draining s \<longleftrightarrow> pr_phase s \<noteq> Serving) \<and> (pr_cancelled s \<longleftrightarrow> pr_phase s \<noteq> Serving) \<and>
     tracks (pr_tracker s) (pr_conns s)"

lemma main_turn_tracker: "pr_tracker (main_turn b s) = pr_tracker s" "pr_conns (main_turn b s) = pr_conns s"
  "pr_tracker (shutdown_turn s) = pr_tracker s" "pr_conns (shutdown_turn s) = pr_conns s"
  by (cases "pr_phase s"; cases "pr_shutdown s"; simp add: turn_defs)+

lemma main_turn_flags:
  assumes "pr_draining s \<longleftrightarrow> pr_phase s \<noteq> Serving" "pr_cancelled s \<longleftrightarrow> pr_phase s \<noteq> Serving"
  shows "(pr_draining (main_turn b s) \<longleftrightarrow> pr_phase (main_turn b s) \<noteq> Serving) \<and> (pr_cancelled (main_turn b s) \<longleftrightarrow> pr_phase (main_turn b s) \<noteq> Serving)"
  using assms by (cases "pr_phase s"; cases "pr_shutdown s"; simp add: main_turn_def shutdown_returned_def)

lemma drain_inv_step: "drain_inv s \<Longrightarrow> drain_inv (process_step s e)"
proof (cases e)
  case (RunMain b)
  assume "drain_inv s"
  then show ?thesis using RunMain main_turn_flags [of s b] by (simp add: drain_inv_def main_turn_tracker)
next
  case (ConnState c st)
  assume "drain_inv s"
  then show ?thesis using ConnState tracks_observe [of "pr_tracker s" "pr_conns s" st c] by (simp add: drain_inv_def)
qed (simp_all add: drain_inv_def main_turn_tracker, simp add: shutdown_turn_def)

lemma drain_inv_run: "drain_inv (process_run evs)"
proof (induction evs rule: rev_induct)
  case Nil
  then show ?case by (simp add: drain_inv_def started_def newInflightConnTracker_def tracks_def)
qed (simp add: drain_inv_step)

lemma run_stays: "(\<And>s e. P s \<Longrightarrow> P (process_step s e)) \<Longrightarrow> P s \<Longrightarrow> P (foldl process_step s evs)"
  by (induction evs arbitrary: s) auto

text \<open>Before \<open>Shutdown\<close> is waited for, the server has been closed.\<close>

definition closing_ok :: "'c process \<Rightarrow> bool" where
  "closing_ok s \<longleftrightarrow> (pr_phase s = ForceClosing \<longrightarrow> pr_closed s)"

lemma closing_ok_step: "closing_ok s \<Longrightarrow> closing_ok (process_step s e)"
proof (cases e)
  case (RunMain b)
  then show "closing_ok s \<Longrightarrow> closing_ok (process_step s e)"
    by (cases "pr_phase s"; cases "pr_shutdown s") (simp_all add: closing_ok_def main_turn_def shutdown_returned_def)
qed (simp_all add: closing_ok_def)

lemma closing_ok_run: "closing_ok (process_run evs)"
  by (rule run_stays [where P = closing_ok]) (simp_all add: closing_ok_step, simp add: closing_ok_def started_def)

text \<open>A signal is there for the \<open>select\<close> of the drain, or it is over; the server is closed, or \<open>Shutdown\<close> need not be waited
  for; \<open>Shutdown\<close> has returned, or need not be waited for.\<close>

definition force_ready :: "'c process \<Rightarrow> bool" where
  "force_ready s \<longleftrightarrow> pr_phase s \<noteq> Serving \<and> (pr_phase s = DrainSelect \<longrightarrow> 0 < pr_stop s) \<and> closing_ok s"

definition forced :: "'c process \<Rightarrow> bool" where
  "forced s \<longleftrightarrow> 2 \<le> rank (pr_phase s) \<and> closing_ok s"

definition released :: "'c process \<Rightarrow> bool" where
  "released s \<longleftrightarrow> 2 \<le> rank (pr_phase s) \<and> (pr_phase s = ForceClosing \<longrightarrow> pr_shutdown s \<noteq> None)"

lemma force_ready_step: "force_ready s \<Longrightarrow> force_ready (process_step s e)"
proof -
  assume r: "force_ready s"
  have "pr_phase (process_step s e) = DrainSelect \<longrightarrow> 0 < pr_stop (process_step s e)"
  proof (cases e)
    case (RunMain b)
    then show ?thesis using r
      by (cases "pr_phase s"; cases "pr_shutdown s") (simp_all add: force_ready_def main_turn_def shutdown_returned_def)
  qed (use r in \<open>simp_all add: force_ready_def\<close>)
  then show ?thesis using r stays(1) [of s e] closing_ok_step [of s e] by (simp add: force_ready_def)
qed

lemma force_ready_main: "force_ready s \<Longrightarrow> forced (process_step s (RunMain b))"
  by (cases "pr_phase s"; cases "pr_shutdown s") (simp_all add: force_ready_def forced_def closing_ok_def main_turn_def shutdown_returned_def)

lemma forced_step: "forced s \<Longrightarrow> forced (process_step s e)"
  using phase_grows [of s e] closing_ok_step [of s e] by (auto simp: forced_def)

lemma forced_shutdown: "forced s \<Longrightarrow> released (process_step s RunShutdown)"
  by (cases "pr_shutdown s") (auto simp: forced_def released_def closing_ok_def shutdown_turn_def busy_def)

lemma released_step: "released s \<Longrightarrow> released (process_step s e)"
proof -
  assume r: "released s"
  have "pr_phase (process_step s e) = ForceClosing \<Longrightarrow> pr_phase s = ForceClosing"
    using r phase_grows [of s e] by (cases "pr_phase s") (simp_all add: released_def)
  then show ?thesis using r phase_grows [of s e] stays(4) [of s _ e] by (auto simp: released_def)
qed

lemma released_main: "released s \<Longrightarrow> 3 \<le> rank (pr_phase (process_step s (RunMain b)))"
  by (cases "pr_phase s"; cases "pr_shutdown s") (simp_all add: released_def main_turn_def shutdown_returned_def)

section \<open>What a stop signal does\<close>

definition signalled :: "'c process \<Rightarrow> bool" where
  "signalled s \<longleftrightarrow> pr_phase s \<noteq> Serving \<or> 0 < pr_stop s"

lemma signalled_step: "signalled s \<Longrightarrow> signalled (process_step s e)"
  using signal_stays [of s e] stays(1) [of s e] by (auto simp: signalled_def)

lemma signalled_main: "signalled s \<Longrightarrow> pr_phase (process_step s (RunMain b)) \<noteq> Serving"
proof (cases "pr_phase s = Serving")
  case True
  then show "signalled s \<Longrightarrow> ?thesis" by (simp add: signalled_def main_leaves_serving)
next
  case False
  then show ?thesis by (rule stays(1))
qed

lemma signal_taken:
  assumes "evs = e1 @ Signal # e2 @ RunMain b # e3"
  shows "pr_phase (process_run evs) \<noteq> Serving"
proof -
  define s1 where "s1 = process_run e1"
  define s2 where "s2 = foldl process_step (process_step s1 Signal) e2"
  have run: "process_run evs = foldl process_step (process_step s2 (RunMain b)) e3"
    unfolding s1_def s2_def assms by (simp only: foldl_append foldl_Cons)
  have "signalled (process_step s1 Signal)" by (simp add: signalled_def)
  then have "signalled s2" unfolding s2_def by (rule run_stays [where P = signalled, rotated]) (rule signalled_step)
  then have "pr_phase (process_step s2 (RunMain b)) \<noteq> Serving" by (rule signalled_main)
  then show ?thesis unfolding run by (rule run_stays [where P = "\<lambda>s. pr_phase s \<noteq> Serving", rotated]) (rule stays(1))
qed

lemma draining_rejects:
  "px_draining q \<Longrightarrow> \<exists>err. ServeHTTP q openai anthropic s clk r = (s, Rejected err) \<and>
    (status err = 503 \<and> err_code err = CodeDraining \<or> status err = 404 \<and> err_code err = CodeUnknownRoute)"
  by (cases "expectedUpstreamForPath (URL_Path r) = []") (simp_all add: ServeHTTP_def authenticate_def WriteError_def)

lemma serving_until_signal: "Signal \<notin> set evs \<Longrightarrow> pr_phase (process_run evs) = Serving \<and> pr_stop (process_run evs) = 0"
proof (induction evs rule: rev_induct)
  case (snoc e es)
  then show ?case by (cases e) (simp_all add: main_turn_def)
qed (simp add: started_def)

text \<open>C17: A draining replica takes no work. From the turn of the main goroutine that receives the stop signal on, whatever
  happens, the readiness probe answers 503, the context of the background loops is cancelled, and every request to the
  dispatcher is rejected with 503, or 404 for a path that is no route, before it reaches a store, a limit or an upstream; before a
  signal arrives the replica reports ready.\<close>

theorem draining_replica_takes_no_work:
  assumes "evs = e1 @ Signal # e2 @ RunMain b # e3" "q = SetDraining p (pr_draining (process_run evs))" "Signal \<notin> set e0"
  shows "readyzHandler q = (503, ''{\"status\":\"draining\"}'') \<and> pr_cancelled (process_run evs) \<and>
    (\<exists>err. ServeHTTP q openai anthropic s clk r = (s, Rejected err) \<and>
       (status err = 503 \<and> err_code err = CodeDraining \<or> status err = 404 \<and> err_code err = CodeUnknownRoute)) \<and>
    readyzHandler (SetDraining p (pr_draining (process_run e0))) = (200, ''{\"status\":\"ready\"}'')"
proof -
  have d: "pr_draining (process_run evs)" "pr_cancelled (process_run evs)"
    using signal_taken [OF assms(1)] drain_inv_run [of evs] by (simp_all add: drain_inv_def)
  have "\<not> pr_draining (process_run e0)" using serving_until_signal [OF assms(3)] drain_inv_run [of e0] by (simp add: drain_inv_def)
  then show ?thesis
    using d draining_rejects [of q] by (simp add: assms(2) readyzHandler_def IsDraining_def SetDraining_def)
qed

definition idle_proxy :: "unit Proxy" where
  "idle_proxy = \<lparr>px_store = None, px_killSwitch = None, px_meter = None, px_rates = None, px_concurrency = None, px_draining = False\<rparr>"

theorem draining_replica_takes_no_work_witness:
  "readyzHandler (SetDraining idle_proxy (pr_draining (process_run
     [ConnState (1::nat) StateNew, Signal, ConnState 1 StateActive, RunMain True, RunMain True]))) = (503, ''{\"status\":\"draining\"}'')"
proof -
  let ?evs = "[ConnState (1::nat) StateNew, Signal, ConnState 1 StateActive, RunMain True, RunMain True]"
  have e: "?evs = [ConnState 1 StateNew] @ Signal # [ConnState 1 StateActive] @ RunMain True # [RunMain True]" by simp
  have n: "Signal \<notin> set ([] :: nat event list)" by simp
  show ?thesis by (rule draining_replica_takes_no_work [OF e refl n, THEN conjunct1])
qed

text \<open>Two signals that are there, or were: both in the channel, or one there and one received, or both received.\<close>

definition twice_signalled :: "'c process \<Rightarrow> bool" where
  "twice_signalled s \<longleftrightarrow> closing_ok s \<and>
     (pr_phase s = Serving \<and> 2 \<le> pr_stop s \<or> pr_phase s = DrainSelect \<and> 1 \<le> pr_stop s \<or> 2 \<le> rank (pr_phase s))"

lemma twice_signalled_second: "signalled s \<Longrightarrow> closing_ok s \<Longrightarrow> twice_signalled (process_step s Signal)"
  by (cases "pr_phase s") (auto simp: twice_signalled_def signalled_def closing_ok_def)

lemma twice_signalled_step: "twice_signalled s \<Longrightarrow> twice_signalled (process_step s e)"
proof -
  assume t: "twice_signalled s"
  have "twice_signalled (process_step s e)" if "2 \<le> rank (pr_phase s)"
    using t that phase_grows [of s e] closing_ok_step [of s e] by (auto simp: twice_signalled_def)
  moreover have "twice_signalled (process_step s e)" if "\<not> 2 \<le> rank (pr_phase s)"
    using t that closing_ok_step [of s e]
    by (cases e; cases "pr_phase s"; cases "pr_shutdown s")
      (auto simp: twice_signalled_def main_turn_def shutdown_returned_def)
  ultimately show ?thesis by blast
qed

lemma twice_signalled_main: "twice_signalled s \<Longrightarrow> force_ready (process_step s (RunMain b))"
  using closing_ok_step [of s "RunMain b"]
  by (cases "pr_phase s"; cases "pr_shutdown s")
    (auto simp: twice_signalled_def force_ready_def main_turn_def shutdown_returned_def)

text \<open>C38: A second signal ends the drain at once. Once two stop signals have arrived, even both before the main goroutine has
  received the first, two turns of the main goroutine, one of \<open>Shutdown\<close> and two more of the main goroutine end the process, whatever
  connections are still in use and whether or not the drain window is over, and whatever else happens before,
  between and after.\<close>

theorem second_signal_ends_drain:
  assumes "evs = e0 @ Signal # e1 @ Signal # e2 @ RunMain a # e3 @ RunMain b # e4 @ RunShutdown # e5 @ RunMain c # e6 @ RunMain d # e7"
  shows "pr_phase (process_run evs) = Exited"
proof -
  define s0 where "s0 = process_run e0"
  define s1 where "s1 = foldl process_step (process_step s0 Signal) e1"
  define s2 where "s2 = foldl process_step (process_step s1 Signal) e2"
  define s3 where "s3 = foldl process_step (process_step s2 (RunMain a)) e3"
  define s4 where "s4 = foldl process_step (process_step s3 (RunMain b)) e4"
  define s5 where "s5 = foldl process_step (process_step s4 RunShutdown) e5"
  define s6 where "s6 = foldl process_step (process_step s5 (RunMain c)) e6"
  have run: "process_run evs = foldl process_step (process_step s6 (RunMain d)) e7"
    unfolding s0_def s1_def s2_def s3_def s4_def s5_def s6_def assms by (simp only: foldl_append foldl_Cons)
  have "s1 = process_run (e0 @ Signal # e1)" unfolding s1_def s0_def by (simp only: foldl_append foldl_Cons)
  then have ok: "closing_ok s1" by (simp only: closing_ok_run)
  have "signalled (process_step s0 Signal)" by (simp add: signalled_def)
  then have "signalled s1" unfolding s1_def by (rule run_stays [where P = signalled, rotated]) (rule signalled_step)
  then have "twice_signalled (process_step s1 Signal)" using ok by (rule twice_signalled_second)
  then have "twice_signalled s2" unfolding s2_def by (rule run_stays [where P = twice_signalled, rotated]) (rule twice_signalled_step)
  then have "force_ready (process_step s2 (RunMain a))" by (rule twice_signalled_main)
  then have "force_ready s3" unfolding s3_def by (rule run_stays [where P = force_ready, rotated]) (rule force_ready_step)
  then have "forced (process_step s3 (RunMain b))" by (rule force_ready_main)
  then have "forced s4" unfolding s4_def by (rule run_stays [where P = forced, rotated]) (rule forced_step)
  then have "released (process_step s4 RunShutdown)" by (rule forced_shutdown)
  then have "released s5" unfolding s5_def by (rule run_stays [where P = released, rotated]) (rule released_step)
  then have "3 \<le> rank (pr_phase (process_step s5 (RunMain c)))" by (rule released_main)
  then have "3 \<le> rank (pr_phase s6)" unfolding s6_def
    by (rule run_stays [where P = "\<lambda>s. 3 \<le> rank (pr_phase s)", rotated]) (rule order_trans [OF _ phase_grows])
  then have "pr_phase (process_step s6 (RunMain d)) = Exited" by (cases "pr_phase s6") (simp_all add: main_turn_def)
  then show ?thesis unfolding run by (rule run_stays [where P = "\<lambda>s. pr_phase s = Exited", rotated]) (rule stays(2))
qed

definition four_turns :: "nat event list" where
  "four_turns = [ConnState 1 StateActive, Signal, Signal, RunMain True, RunMain False, ConnState 2 StateActive, RunShutdown, RunMain True, RunMain True]"

theorem second_signal_ends_drain_witness: "pr_phase (process_run four_turns) = Exited"
proof -
  have "four_turns = [ConnState 1 StateActive] @ Signal # [] @ Signal # [] @ RunMain True # [] @ RunMain False # [ConnState 2 StateActive] @
    RunShutdown # [] @ RunMain True # [] @ RunMain True # []" by (simp add: four_turns_def)
  from second_signal_ends_drain [OF this] show ?thesis .
qed

section \<open>Every drain ends\<close>

text \<open>An infinite schedule of events, and the process after its first \<open>n\<close> events. It is fair when both goroutines keep getting
  turns and a drain window that was opened comes to its end, as \<open>context.WithTimeout\<close> promises.\<close>

definition after :: "(nat \<Rightarrow> 'c event) \<Rightarrow> nat \<Rightarrow> 'c process" where
  "after e n = process_run (map e [0..<n])"

definition fair :: "(nat \<Rightarrow> 'c event) \<Rightarrow> bool" where
  "fair e \<longleftrightarrow> (\<forall>n. \<exists>m \<ge> n. \<exists>b. e m = RunMain b) \<and> (\<forall>n. \<exists>m \<ge> n. e m = RunShutdown) \<and>
     (\<forall>n. pr_phase (after e n) \<noteq> Serving \<longrightarrow> (\<exists>m \<ge> n. e m = GraceEnds))"

lemma after_Suc [simp]: "after e (Suc n) = process_step (after e n) (e n)"
  by (simp add: after_def)

lemma after_stays: "(\<And>s ev. P s \<Longrightarrow> P (process_step s ev)) \<Longrightarrow> P (after e n) \<Longrightarrow> n \<le> m \<Longrightarrow> P (after e m)"
  by (rule dec_induct [of n m "\<lambda>m. P (after e m)"]) simp_all

text \<open>A helpful event that keeps coming leads from what it keeps waiting for to its goal.\<close>

lemma leads_to:
  assumes "\<And>s ev. P s \<Longrightarrow> P (process_step s ev)" "\<And>s ev. P s \<Longrightarrow> helpful ev \<Longrightarrow> Q (process_step s ev)"
    "\<exists>m \<ge> n. helpful (e m)" "P (after e n)"
  shows "\<exists>m > n. P (after e m) \<and> Q (after e m)"
proof -
  obtain m where m: "n \<le> m" "helpful (e m)" using assms(3) by blast
  have "P (after e m)" by (rule after_stays [OF assms(1) assms(4) m(1)])
  then have "P (after e (Suc m)) \<and> Q (after e (Suc m))" using assms(1,2) m(2) by simp
  then show ?thesis using m(1) by (intro exI [of _ "Suc m"]) simp
qed

definition shutting_down :: "'c process \<Rightarrow> bool" where
  "shutting_down s \<longleftrightarrow> pr_phase s \<noteq> Serving"

lemma shutting_down_step: "shutting_down s \<Longrightarrow> shutting_down (process_step s ev)"
  using stays(1) by (simp add: shutting_down_def)

lemma drain_expires: "fair e \<Longrightarrow> shutting_down (after e n) \<Longrightarrow> \<exists>m > n. shutting_down (after e m) \<and> pr_expired (after e m)"
  by (rule leads_to [where helpful = "\<lambda>ev. ev = GraceEnds"]) (auto simp: shutting_down_step, auto simp: shutting_down_def fair_def)

lemma shutdown_returns:
  assumes "fair e" "shutting_down (after e n)" "pr_expired (after e n)"
  shows "\<exists>m > n. shutting_down (after e m) \<and> pr_shutdown (after e m) \<noteq> None"
proof -
  have "\<exists>m \<ge> n. e m = RunShutdown" using assms(1) by (simp add: fair_def)
  moreover have "shutting_down (process_step s ev) \<and> pr_expired (process_step s ev)" if "shutting_down s \<and> pr_expired s" for s ev
    using that shutting_down_step [of s ev] stays(3) [of s ev] by blast
  moreover have "pr_shutdown (process_step s ev) \<noteq> None" if "shutting_down s \<and> pr_expired s" "ev = RunShutdown" for s ev
    using that shutdown_ends [of s] by (simp add: shutting_down_def)
  ultimately have "\<exists>m > n. (shutting_down (after e m) \<and> pr_expired (after e m)) \<and> pr_shutdown (after e m) \<noteq> None"
    using assms(2,3) by (intro leads_to [where helpful = "\<lambda>ev. ev = RunShutdown"]) blast+
  then show ?thesis by blast
qed

lemma main_returns:
  assumes "fair e" "shutting_down (after e n)" "pr_shutdown (after e n) \<noteq> None"
  shows "\<exists>m. pr_phase (after e m) = Exited"
  using assms(2,3)
proof (induction "4 - rank (pr_phase (after e n))" arbitrary: n rule: less_induct)
  case less
  show ?case
  proof (cases "pr_phase (after e n) = Exited")
    case False
    let ?P = "\<lambda>s. shutting_down s \<and> pr_shutdown s \<noteq> None \<and> rank (pr_phase (after e n)) \<le> rank (pr_phase s)"
    let ?Q = "\<lambda>s. rank (pr_phase (after e n)) < rank (pr_phase s) \<or> pr_phase s = Exited"
    have step: "?P (process_step s ev)" if "?P s" for s ev
      using that shutting_down_step [of s ev] stays(4) [of s _ ev] phase_grows [of s ev] by auto
    have turn: "?Q (process_step s ev)" if P: "?P s" and ev: "\<exists>b. ev = RunMain b" for s ev
    proof -
      obtain b where "ev = RunMain b" using ev by blast
      then show ?thesis using P main_advances [of s b] stays(2) [of s ev] by (cases "pr_phase s = Exited") (auto simp: shutting_down_def)
    qed
    have "\<exists>m \<ge> n. \<exists>b. e m = RunMain b" using assms(1) by (simp add: fair_def)
    from leads_to [where P = ?P and Q = ?Q and helpful = "\<lambda>ev. \<exists>b. ev = RunMain b", OF step turn this] less.prems
    obtain m where m: "?P (after e m)" "?Q (after e m)" by blast
    show ?thesis
    proof (cases "pr_phase (after e m) = Exited")
      case False
      then have "rank (pr_phase (after e n)) < rank (pr_phase (after e m))" "rank (pr_phase (after e m)) < 4" using m(2) rank_simps(2,3) [of "pr_phase (after e m)"] by linarith+
      then show ?thesis using less.hyps [of m] m(1) by simp
    qed blast
  qed blast
qed

text \<open>C16: Every drain ends. In every fair schedule in which a stop signal arrives the process reaches its end and stays there,
  however many connections stay in use, and by then the drain flag is set and the background loops' context is cancelled.\<close>

theorem shutdown_completes:
  assumes "fair e" "e n = Signal"
  shows "\<exists>m. \<forall>k \<ge> m. pr_phase (after e k) = Exited \<and> pr_draining (after e k) \<and> pr_cancelled (after e k)"
proof -
  have "signalled (after e (Suc n))" using assms(2) by (simp add: signalled_def)
  moreover have "\<exists>m \<ge> Suc n. \<exists>b. e m = RunMain b" using assms(1) by (simp add: fair_def)
  ultimately obtain m1 where "shutting_down (after e m1)"
    using leads_to [where P = signalled and helpful = "\<lambda>ev. \<exists>b. ev = RunMain b" and Q = shutting_down, OF signalled_step]
      signalled_main by (metis shutting_down_def)
  then obtain m2 where "shutting_down (after e m2)" "pr_expired (after e m2)" using drain_expires [OF assms(1)] by blast
  then obtain m3 where "shutting_down (after e m3)" "pr_shutdown (after e m3) \<noteq> None" using shutdown_returns [OF assms(1)] by blast
  then obtain m where m: "pr_phase (after e m) = Exited" using main_returns [OF assms(1)] by blast
  have "pr_phase (after e k) = Exited" if "m \<le> k" for k
    by (rule after_stays [where P = "\<lambda>s. pr_phase s = Exited", OF stays(2) m that])
  then show ?thesis using drain_inv_run unfolding after_def drain_inv_def by (metis phase.distinct(7))
qed

definition demo_schedule :: "nat \<Rightarrow> nat event" where
  "demo_schedule n = (if n = 0 then ConnState 1 StateActive else if n = 1 then Signal
     else if n mod 3 = 0 then RunMain True else if n mod 3 = 1 then GraceEnds else RunShutdown)"

lemma demo_fair: "fair demo_schedule"
proof -
  have "\<exists>m \<ge> n. demo_schedule m = RunMain True" for n by (rule exI [of _ "3 * (n + 1)"]) (simp add: demo_schedule_def)
  moreover have "\<exists>m \<ge> n. demo_schedule m = GraceEnds" for n by (rule exI [of _ "3 * (n + 1) + 1"]) (simp add: demo_schedule_def)
  moreover have "\<exists>m \<ge> n. demo_schedule m = RunShutdown" for n by (rule exI [of _ "3 * (n + 1) + 2"]) (simp add: demo_schedule_def)
  ultimately show ?thesis unfolding fair_def by blast
qed

theorem shutdown_completes_witness: "\<exists>m. \<forall>k \<ge> m. pr_phase (after demo_schedule k) = Exited"
proof -
  have "demo_schedule 1 = Signal" by (simp add: demo_schedule_def)
  from shutdown_completes [OF demo_fair this] show ?thesis by blast
qed

end
