(* ===== verification/Main_Mux.thy ===== *)
theory Main_Mux
  imports Server_Main Replica
begin

text \<open>
  The routing table of \<open>cmd/rein/main.go\<close>: the probes, the version, the dispatcher under \<open>/v1/\<close> and the admin endpoints, on one
  \<open>http.ServeMux\<close>. Of the multiplexer the model has the choice of the handler; its own answers (a redirect of an unclean path or of a
  subtree without its slash, 404 and 405) are \<open>MuxAnswer\<close>. Paths are without percent escapes.
\<close>

datatype main_route = ToHealthz | ToReadyz | ToVersion | ToProxy | ToAdmin admin_route

text \<open>Whether \<open>cleanPath\<close> of \<open>net/http\<close> leaves a path as it is; otherwise the multiplexer redirects, unless the method is \<open>CONNECT\<close>.\<close>

definition clean_path :: "string \<Rightarrow> bool" where
  "clean_path path \<longleftrightarrow> (case split_char (CHR ''/'') path of
     [] # segments \<Rightarrow> segments \<noteq> [] \<and> list_all (\<lambda>x. x \<noteq> ''.'' \<and> x \<noteq> ''..'') segments \<and> list_all (\<lambda>x. x \<noteq> []) (butlast segments)
   | _ \<Rightarrow> False)"

definition main_mux :: "string \<Rightarrow> string \<Rightarrow> main_route option" where
  "main_mux verb path =
     (let get = (verb = ''GET'' \<or> verb = ''HEAD'') in
      if verb \<noteq> ''CONNECT'' \<and> \<not> clean_path path then None
      else if path = ''/healthz'' \<and> get then Some ToHealthz
      else if path = ''/readyz'' \<and> get then Some ToReadyz
      else if path = ''/version'' \<and> get then Some ToVersion
      else if HasPrefix path ''/v1/'' then Some ToProxy
      else map_option ToAdmin (route_of verb path))"

definition version_handler :: "string \<Rightarrow> nat \<times> string" where
  "version_handler version = (200, ''{\"name\":\"rein\",\"version\":\"'' @ version @ ''\"}'')"

datatype 'r answer = ProbeAnswer nat string | ProxyAnswer "'r outcome" | AdminAnswer admin_response | MuxAnswer

definition main_ServeHTTP :: "string \<Rightarrow> 's Proxy \<Rightarrow> ('s, 'r) adapter \<Rightarrow> ('s, 'r) adapter \<Rightarrow> 's admin_server \<Rightarrow>
    admin_env \<Rightarrow> 's \<Rightarrow> clock \<Rightarrow> admin_request \<Rightarrow> 's \<times> 'r answer" where
  "main_ServeHTTP version p openai anthropic srv env s clk r = (case main_mux (rq_Method r) (rq_Path r) of
     None \<Rightarrow> (s, MuxAnswer)
   | Some ToHealthz \<Rightarrow> (s, case_prod ProbeAnswer handleHealthz)
   | Some ToReadyz \<Rightarrow> (s, case_prod ProbeAnswer (readyzHandler p))
   | Some ToVersion \<Rightarrow> (s, case_prod ProbeAnswer (version_handler version))
   | Some ToProxy \<Rightarrow> apsnd ProxyAnswer (ServeHTTP p openai anthropic s clk \<lparr>URL_Path = rq_Path r, Authorization = rq_Authorization r\<rparr>)
   | Some (ToAdmin route) \<Rightarrow> apsnd AdminAnswer (admin_ServeHTTP srv env s r))"

lemma no_key_rejected:
  assumes "\<And>t. Authorization r = ''Bearer '' @ t \<Longrightarrow> \<exists>e. keys_GetByToken (w_keys w) t = Inl e"
  shows "\<exists>e. ServeHTTP (rein d) oai ant w clk r = (w, Rejected e) \<and> status e \<in> {401, 404, 503}"
proof (cases "authenticate (rein d) w clk r")
  case (Inl e)
  moreover have "resolveKey (rein d) w r \<noteq> Inr vk" for vk using assms by (fastforce simp: resolveKey_rein)
  then obtain x where "resolveKey (rein d) w r = Inl x" by (cases "resolveKey (rein d) w r") auto
  moreover have "x \<noteq> OtherResolveError" using calculation(2) by (auto simp: resolveKey_def rein_def Let_def split: if_splits sum.splits)
  ultimately show ?thesis
    by (cases "ks_frozen (w_switch w)"; cases x) (auto simp: ServeHTTP_def authenticate_def WriteError_def rein_def ks_IsFrozen_def Let_def split: if_splits)
next
  case (Inr a)
  obtain want vk where "a = (want, vk)" by (cases a)
  then obtain k t where "Authorization r = ''Bearer '' @ t" "keys_GetByToken (w_keys w) t = Inr k"
    using Inr by (auto simp: authenticate_rein resolveKey_rein)
  then show ?thesis using assms by fastforce
qed

lemma main_answers:
  assumes "main_ServeHTTP version p openai anthropic srv env s clk r = (s', ans)"
  shows "s' = s \<and> (ans = MuxAnswer \<or> (\<exists>code body. ans = ProbeAnswer code body \<and> rq_Path r \<in> {''/healthz'', ''/readyz'', ''/version''})) \<or>
    (\<exists>out. ServeHTTP p openai anthropic s clk \<lparr>URL_Path = rq_Path r, Authorization = rq_Authorization r\<rparr> = (s', out) \<and> ans = ProxyAnswer out) \<or>
    (\<exists>a. route_of (rq_Method r) (rq_Path r) \<noteq> None \<and> admin_ServeHTTP srv env s r = (s', a) \<and> ans = AdminAnswer a)"
proof (cases "main_mux (rq_Method r) (rq_Path r)")
  case (Some route)
  have admin: "route = ToAdmin a \<Longrightarrow> route_of (rq_Method r) (rq_Path r) = Some a" for a
    using Some by (auto simp: main_mux_def Let_def split: if_splits)
  have probe: "route \<in> {ToHealthz, ToReadyz, ToVersion} \<Longrightarrow> rq_Path r \<in> {''/healthz'', ''/readyz'', ''/version''}"
    using Some by (auto simp: main_mux_def Let_def split: if_splits)
  show ?thesis
  proof (cases route)
    case ToReadyz
    then show ?thesis using assms Some probe by (cases "readyzHandler p") (auto simp: main_ServeHTTP_def)
  qed (use assms Some probe admin in \<open>auto simp: main_ServeHTTP_def handleHealthz_def version_handler_def apsnd_def map_prod_def split: prod.splits\<close>)
qed (use assms in \<open>simp add: main_ServeHTTP_def\<close>)

lemma refused_answers:
  assumes "main_ServeHTTP version p openai anthropic srv env s clk r = (s', ans)"
    "ServeHTTP p openai anthropic s clk \<lparr>URL_Path = rq_Path r, Authorization = rq_Authorization r\<rparr> = (s, Rejected e)" "Q e"
    "route_of (rq_Method r) (rq_Path r) \<noteq> None \<Longrightarrow> admin_ServeHTTP srv env s r = (s, a) \<and> R a"
  shows "s' = s \<and> (case ans of ProbeAnswer code body \<Rightarrow> rq_Path r \<in> {''/healthz'', ''/readyz'', ''/version''} | MuxAnswer \<Rightarrow> True
    | ProxyAnswer out \<Rightarrow> \<exists>e. out = Rejected e \<and> Q e | AdminAnswer a \<Rightarrow> R a)"
  using main_answers [OF assms(1)] assms(2-4) by (cases ans) auto

lemma bad_token_refused:
  assumes "rq_Authorization r \<noteq> ''Bearer '' @ token" "route_of (rq_Method r) (rq_Path r) \<noteq> None"
  shows "admin_ServeHTTP (rein_admin token order) env s r = (s, TextError 401 ''unauthorized'')"
proof -
  obtain route h where "route_of (rq_Method r) (rq_Path r) = Some route" "Mount (rein_admin token order) env route = Some h"
    using assms(2) rein_mounts by blast
  then show ?thesis using assms(1)
    by (simp add: admin_ServeHTTP_defs withAuth_def ConstantTimeCompare_def list.rel_eq rein_admin_def NewServer_def)
qed

text \<open>C10: Strangers change nothing and reach nobody. Whatever its method, path and body, a request whose bearer token is
  neither the admin token nor the token of a stored key leaves the whole replica as it is, the rate and concurrency counters
  included; no upstream sees it; and it is answered by a probe, by the multiplexer, with 401, 404 or 503 by the
  dispatcher, or with 401 by the admin server.\<close>

theorem strangers_change_nothing:
  assumes "rq_Authorization r \<noteq> ''Bearer '' @ token"
    "\<And>t. rq_Authorization r = ''Bearer '' @ t \<Longrightarrow> \<exists>e. keys_GetByToken (w_keys w) t = Inl e"
    "main_ServeHTTP version (rein d) oai ant (rein_admin token order) env w clk r = (w', ans)"
  shows "w' = w \<and> (case ans of ProbeAnswer code body \<Rightarrow> rq_Path r \<in> {''/healthz'', ''/readyz'', ''/version''} | MuxAnswer \<Rightarrow> True
    | ProxyAnswer out \<Rightarrow> \<exists>e. out = Rejected e \<and> status e \<in> {401, 404, 503}
    | AdminAnswer a \<Rightarrow> a = TextError 401 ''unauthorized'')"
proof -
  let ?r = "\<lparr>URL_Path = rq_Path r, Authorization = rq_Authorization r\<rparr>"
  obtain e where e: "ServeHTTP (rein d) oai ant w clk ?r = (w, Rejected e)" "status e \<in> {401, 404, 503}"
    using no_key_rejected [of ?r w d oai ant clk] assms(2) by auto
  have "admin_ServeHTTP (rein_admin token order) env w r = (w, TextError 401 ''unauthorized'') \<and>
      TextError 401 ''unauthorized'' = TextError 401 ''unauthorized''" if "route_of (rq_Method r) (rq_Path r) \<noteq> None"
    using bad_token_refused [OF assms(1) that] by simp
  from refused_answers [where Q = "\<lambda>e. status e \<in> {401, 404, 503}" and R = "\<lambda>a. a = TextError 401 ''unauthorized''", OF assms(3) e this]
  show ?thesis .
qed

definition stranger :: admin_request where
  "stranger = \<lparr>rq_Method = ''POST'', rq_Path = ''/v1/chat/completions'', rq_Authorization = ''Bearer rein_live_9'', rq_Body = []\<rparr>"

lemma stranger_route: "main_mux (rq_Method stranger) (rq_Path stranger) = Some ToProxy"
  by (simp add: stranger_def main_mux_def clean_path_def HasPrefix_def Let_def)

theorem strangers_change_nothing_witness:
  "\<exists>e. main_ServeHTTP ''dev'' (rein False) (\<lambda>w r vk t. (w, ())) (\<lambda>w r vk t. (w, ())) (rein_admin ''secret'' (\<lambda>m. [])) demo_env
     demo_world demo_clock stranger = (demo_world, ProxyAnswer (Rejected e)) \<and> status e \<in> {401, 404, 503}"
proof -
  let ?s = "main_ServeHTTP ''dev'' (rein False) (\<lambda>w r vk t. (w, ())) (\<lambda>w r vk t. (w, ())) (rein_admin ''secret'' (\<lambda>m. [])) demo_env demo_world demo_clock stranger"
  have no_key: "\<exists>e. keys_GetByToken (w_keys demo_world) t = Inl e" if "rq_Authorization stranger = ''Bearer '' @ t" for t
  proof -
    have "t = ''rein_live_9''" using that by (simp add: stranger_def)
    then show ?thesis by (simp add: demo_world_def keys_apply_def keys_Create_def keys_NewMemory_def keys_GetByToken_def deref_def Let_def)
  qed
  have token: "rq_Authorization stranger \<noteq> ''Bearer '' @ ''secret''" by (simp add: stranger_def)
  obtain w' ans where s: "?s = (w', ans)" by (cases ?s)
  then obtain out where out: "ans = ProxyAnswer out" unfolding main_ServeHTTP_def stranger_route by (auto simp: apsnd_def map_prod_def split: prod.splits)
  from strangers_change_nothing [OF token no_key s] out s show ?thesis by simp
qed

end
