(* ===== verification/Spec2Isabelle.thy ===== *)
theory Spec2Isabelle
  imports Killswitch Concurrency Rates Keys Sweeper Meter Pricing Proxy Admission Budget Unknown_Model
    Json Json_Print Json_Any Stream Url Adapters Adapter_Facts Base_URL
    Timestamps Admin Admin_Facts Replica Secrets
    Migrations Durable_Facts Rotate Sqlite_Meter Config Server_Main Main_Mux
begin

text \<open>
  Rein is a reverse proxy in front of LLM providers. A client holds a virtual key and sends its request with the key's token;
  the proxy authenticates it, enforces the kill switch, the budgets, the rate limits and the concurrency cap of the key,
  replaces the token by the provider's secret, forwards the request and records what the response cost. An operator creates,
  patches and revokes keys and throws the kill switch through an admin API. Keys and spend live in memory or in SQLite, where the
  provider secrets are encrypted; a second binary rotates the encryption key.

  The parts and how they meet. \<open>cmd/rein\<close> reads the settings (\<open>internal/config\<close>), opens the key store (\<open>internal/keys\<close>) and the spend
  meter (\<open>internal/meter\<close>), loads the prices, and wires them with the kill switch (\<open>internal/killswitch\<close>), the rate limiter
  (\<open>internal/rates\<close>) and the concurrency limiter (\<open>internal/concurrency\<close>) into the dispatcher and its two upstream adapters
  (\<open>internal/proxy\<close>) and into the admin server (\<open>internal/admin\<close>). The dispatcher and the admin server share the stores; the expiry
  sweeper writes to the key store and the reload goroutines to the holder of the price table; the stop signal ends all of them.
  Every component reaches the stores through an interface of Go, which is here the \<open>fixes\<close> of a locale or, in a
  definition, its arguments.

  Conventions. A Go string is the list of its bytes (\<open>string\<close>), an \<open>int\<close> or \<open>int64\<close> is a \<open>64 word\<close> read with \<open>sint\<close>, a \<open>float64\<close> is the
  type \<open>f64\<close> of \<open>Float64\<close>, a \<open>time.Time\<close> the \<open>int\<close> of its nanoseconds since 1970, a pointer that may be nil an \<open>option\<close>, an error the left
  side of a sum. The clock, the random source, the resolver and every file is an argument. A goroutine is a sequence of steps, several of them an
  interleaving of their steps; what a mutex or a connection pool of size one makes atomic is one step.

  \<^bold>\<open>Foundations.\<close> \<open>Prelude\<close>: machine integers, strings, maps. \<open>Civil_Time\<close> and \<open>Timestamps\<close>: calendar, and RFC 3339 formatting and parsing with
  their round trip. \<open>Time_Order\<close>: the order of such texts. \<open>Float64\<close>: IEEE binary64 with round-to-nearest-even on rationals. \<open>Json\<close>, \<open>Json_Print\<close>,
  \<open>Json_Any\<close>: \<open>encoding/json\<close> as the program uses it (the scanner with its nesting limit, decoding into structs and into \<open>any\<close>, printing), with the
  round trip of printing and parsing. \<open>Url\<close>: \<open>net/url\<close>. \<open>AES_GCM\<close>: AES-256 and Galois counter mode; opening what was sealed gives it back.

  \<^bold>\<open>Stores in memory.\<close> \<open>Killswitch\<close> (\<open>killswitch.go\<close>, locale \<open>kill_switch\<close>). \<open>Concurrency\<close> (\<open>memory.go\<close>): \<open>conc_Acquire\<close>, \<open>conc_Release\<close> and,
  split at its atomic accesses, \<open>conc_step\<close>; the number of holders never exceeds the limit in any interleaving. \<open>Rates\<close> (\<open>memory.go\<close>,
  \<open>rates.go\<close>): \<open>Allow\<close> on words, a specification that remembers every admitted call, the refinement for clock readings in order, the bounds that follow for each key, and what a stale reading does to them. \<open>Keys\<close> (\<open>keys.go\<close>):
  \<open>Memory\<close> with its heap cells explicit, so that the aliasing of the key pointers it hands out is in the model; the locale \<open>key_store\<close> is the
  contract of \<open>Store\<close> over an abstract map, with the revocation lemmas proved in it; \<open>Memory\<close> refines that map. \<open>Sweeper\<close> (\<open>sweeper.go\<close>): the loop on
  the store's interface, locale \<open>sweepable_store\<close>. \<open>Meter\<close> (\<open>meter.go\<close>): locale \<open>spend_meter\<close>; the totals are sums over the recorded history.

  \<^bold>\<open>Durable stores.\<close> The SQL engine is not part of the program. \<open>Sqlite_Keys\<close> (\<open>keys/sqlite.go\<close>) and \<open>Sqlite_Meter\<close> (\<open>meter/sqlite.go\<close>) take it as a
  record with one operation per statement the code sends, every one of which may fail at any time; the locales \<open>sql_keys\<close>, \<open>sql_schema\<close>, \<open>sql_spend\<close>
  and \<open>sql_rotation\<close> state what SQL promises of them: which rows a \<open>WHERE\<close> clause selects, that a failed statement changes nothing, that a transaction
  is its commit. \<open>Durable_Keys\<close> proves that the store over any such engine meets \<open>key_store\<close>, the contract of the store in memory, and
  \<open>Sqlite_Meter\<close> that the meter meets \<open>spend_meter\<close> (both as \<open>sublocale\<close>). \<open>List_Engine\<close> is an executable engine with these laws, which serves the examples;
  \<open>Migrations\<close>: opening a file of any earlier schema adds the missing columns and keeps the rows; \<open>Durable_Facts\<close>: round trip of a key, or no lookup of it at all when its times cannot be read back, permanence of
  revocation also under updates that run between other operations, the lost update that such an interleaving gives, exactness of the expiry listing. \<open>Cipher\<close> (\<open>keys/cipher.go\<close>, locale \<open>cipher_laws\<close>) and \<open>Rotate\<close> (\<open>keys/rotate.go\<close>, \<open>cmd/rein-rotate-keys\<close>):
  encryption at rest, the rotation as a plan and one transaction, what a second run does, and the command line of the tool.

  \<^bold>\<open>Prices.\<close> \<open>Pricing\<close> (\<open>pricing.go\<close>, \<open>loader.go\<close>, \<open>holder.go\<close>, \<open>poll.go\<close>): cost of a call, validation and merging of the operator's file, hot reload; the table
  in use is always a validated one. \<open>Unknown_Model\<close> (\<open>unknown_model_logger.go\<close>): which warnings are logged.

  \<^bold>\<open>The request path.\<close> \<open>Proxy\<close> (\<open>proxy.go\<close>, \<open>errcodes.go\<close>, \<open>api/errors.go\<close>): \<open>ServeHTTP\<close> as \<open>authenticate\<close>, \<open>enforce\<close> (budget, rate, concurrency), \<open>dispatch\<close> and the
  deferred release, in the order of the code. \<open>Admission\<close>: what is forwarded, over any backends of the stores; and, with the stores in memory, every rejection and what it leaves behind.
 
  \<open>Budget\<close>: the concurrent requests of one key, and of others, as an interleaving of their calls to the stores in memory, on any days; a request that \<open>ServeHTTP\<close> forwards is such
  a run; and the bound on the overshoot, one cost per request that was checked before the cap was reached and has not recorded its own. \<open>Adapters\<close> and \<open>Adapter_Facts\<close> (\<open>openai.go\<close>, \<open>anthropic.go\<close>, \<open>timeout.go\<close>): rewriting of request and response, and what is
  billed, for both providers, with the meter in memory. \<open>Stream\<close> (\<open>stream.go\<close>): the tee on a streamed response. \<open>Base_URL\<close> (\<open>baseurl.go\<close>): validation of a key's own base URL and how the adapter uses it.

  \<^bold>\<open>The admin path.\<close> \<open>Admin\<close> (\<open>admin.go\<close>): routing with the 404 and 405 of the multiplexer, authentication and all handlers, with the decoding of the bodies. \<open>Admin_Facts\<close>: what one request does, over any store with
  the contract. \<open>Replica\<close>: admin requests, client requests and sweeps in any order on one replica with the stores in memory (locale \<open>admin_store\<close>): stored keys stay valid, a revocation is final,
  a refused request changes nothing, a freeze stops traffic. \<open>Secrets\<close> (locale \<open>public_store\<close>): responses do not depend on the secrets in the store.

  \<^bold>\<open>The process.\<close> \<open>Config\<close> (\<open>config.go\<close>): \<open>Load\<close> with \<open>time.ParseDuration\<close>. \<open>Server_Main\<close> (\<open>cmd/rein/main.go\<close>): startup with every exit, the reload goroutines, the probes,
  the connection tracker, and the shutdown as a transition system; a second signal, even one that arrives before the first is received, ends the drain in a few turns of the two goroutines, and under a fair schedule every drain ends.
  \<open>Main_Mux\<close>: the routing table of \<open>main\<close>, and what a request without a credential can do on the whole server: nothing.

  Interfaces and their instances. \<open>kill_switch\<close>, \<open>conc_store\<close>, \<open>rates_store\<close>, \<open>key_store\<close>, \<open>expiring_store\<close>, \<open>sweepable_store\<close> and \<open>spend_meter\<close> are interpreted on the stores in memory;
  \<open>key_store\<close> and \<open>spend_meter\<close> also on the durable stores; \<open>conc_store\<close>, \<open>admin_store\<close> and \<open>public_store\<close> on the state of a replica; \<open>cipher_laws\<close> on both ciphers; the SQL locales on
  executable engines, since SQLite itself is not in the repository. The properties of the durable stores have the predicate of such a locale as their hypothesis, and hold
  for every engine with its laws.

  Recursion and bounds. No definition runs on fuel that could end early: loops over lists and bytes are structural or have a length as their measure, the bit loops
  count their bits, the JSON scanner consumes its input and stops at the depth limit of \<open>encoding/json\<close> (10000), the search for the shortest decimal text of a
  \<open>float64\<close> tries 1 to 17 digits and falls back
  to the exact expansion, so that whatever it prints reads back. Bounds of the code (1 MiB bodies, the interval and grace limits, the timeouts, base64 and hex
  lengths) are definitions with the code's values.

  \<^bold>\<open>Not modelled.\<close> Log lines, except which unknown models are logged and the number of connections a forced exit reports. The transport: \<open>net/http\<close>, TLS, timeouts of the server and the
  settings of \<open>upstreamTransport\<close>; \<open>httputil.ReverseProxy\<close> appears as the order in which it calls the code. The answers \<open>http.ServeMux\<close> gives itself, beyond the 404 and 405 of the admin server,
  and paths with percent escapes; \<open>ListenAndServe\<close> and the exit when it fails. The texts of most errors; they are constructors. The SQL engine, the file system, the resolver and the random source, which are
  parameters. \<open>Close\<close> of the SQLite handles. The usage text of the rotation
  tool and the printing of durations.
\<close>

end
